(* ===== verification/Prelude.thy ===== *)
theory Prelude
  imports Main
begin

text \<open>
  Shared base of the Garcon development: the outcome type of fallible C++ code, bytes and
  character classes, the fragment of \<^verbatim>\<open>std::string_view\<close> the sources use
  (\<open>find\<close>, \<open>rfind\<close>, \<open>substr\<close>), the whitespace-trimming and
  delimiter-splitting index loops that the sources repeat in every module, and decimal
  printing (\<^verbatim>\<open>std::to_string\<close>, \<^verbatim>\<open>operator<<\<close>).
  A C++ \<open>char\<close> is an 8-bit HOL \<open>char\<close>; a string, string view or byte
  span is a \<open>string\<close>; \<^verbatim>\<open>npos\<close> is \<open>None\<close>; \<^verbatim>\<open>std::size_t\<close> positions are
  \<open>nat\<close>, since every position is bounded by the size of an object in memory.
\<close>

named_theorems sv_simps "facts about the string view operations"
named_theorems outcome_simps "facts about fallible computations"

section \<open>Outcomes of fallible code\<close>

text \<open>
  \<open>Runtime_Error\<close>, \<open>Invalid_Argument\<close> are the exceptions of the standard library that
  the sources throw, with their message. \<open>Signed_Overflow\<close> marks an execution that
  leaves the range of a signed machine integer, which C++ leaves undefined.
\<close>

datatype failure =
    Runtime_Error string
  | Invalid_Argument string
  | Signed_Overflow

type_synonym 'a result = "failure + 'a"

text \<open>\<^verbatim>\<open>std::exception::what\<close>\<close>

fun what_of :: "failure \<Rightarrow> string" where
  "what_of (Runtime_Error m) = m"
| "what_of (Invalid_Argument m) = m"
| "what_of Signed_Overflow = []"

fun bindE :: "'e + 'a \<Rightarrow> ('a \<Rightarrow> 'e + 'b) \<Rightarrow> 'e + 'b" where
  "bindE (Inl e) f = Inl e"
| "bindE (Inr x) f = f x"

lemma bindE_eq_Inr [outcome_simps]:
  "bindE m f = Inr y \<longleftrightarrow> (\<exists>x. m = Inr x \<and> f x = Inr y)"
  by (cases m) auto

lemma bindE_eq_Inl [outcome_simps]:
  "bindE m f = Inl e \<longleftrightarrow> m = Inl e \<or> (\<exists>x. m = Inr x \<and> f x = Inl e)"
  by (cases m) auto

text \<open>Guard: throw \<open>e\<close> when the condition holds, else go on.\<close>

definition throw_if :: "bool \<Rightarrow> 'e \<Rightarrow> 'e + 'a \<Rightarrow> 'e + 'a" where
  "throw_if b e k = (if b then Inl e else k)"

lemma throw_if_eq_Inr [outcome_simps]: "throw_if b e k = Inr y \<longleftrightarrow> \<not> b \<and> k = Inr y"
  by (simp add: throw_if_def)

lemma throw_if_eq_Inl [outcome_simps]:
  "throw_if b e k = Inl x \<longleftrightarrow> (b \<and> x = e) \<or> (\<not> b \<and> k = Inl x)"
  by (auto simp: throw_if_def)

lemma throw_if_simps [simp]:
  "throw_if True e k = Inl e" "throw_if False e k = k"
  by (simp_all add: throw_if_def)

text \<open>A loop that pushes the value of each element and leaves at the first exception.\<close>

fun traverse :: "('a \<Rightarrow> 'e + 'b) \<Rightarrow> 'a list \<Rightarrow> 'e + 'b list" where
  "traverse f [] = Inr []"
| "traverse f (x # xs) = bindE (f x) (\<lambda>y. bindE (traverse f xs) (\<lambda>ys. Inr (y # ys)))"

lemma traverse_eq_Inr [outcome_simps]:
  "traverse f xs = Inr ys \<longleftrightarrow> list_all2 (\<lambda>x y. f x = Inr y) xs ys"
proof (induction xs arbitrary: ys)
  case Nil
  then show ?case by auto
next
  case (Cons x xs)
  then show ?case by (cases ys) (auto simp: outcome_simps)
qed

lemma traverse_append:
  "traverse f (xs @ ys) = bindE (traverse f xs) (\<lambda>us. bindE (traverse f ys) (\<lambda>vs. Inr (us @ vs)))"
proof (induction xs)
  case Nil
  then show ?case by (cases "traverse f ys") auto
next
  case (Cons x xs)
  then show ?case
    by (cases "f x"; cases "traverse f xs"; cases "traverse f ys") auto
qed

lemma traverse_Inl_first:
  "traverse f xs = Inr us \<Longrightarrow> f x = Inl e \<Longrightarrow> traverse f (xs @ x # ys) = Inl e"
  by (simp add: traverse_append)

lemma traverse_set:
  assumes "traverse f xs = Inr ys" and "y \<in> set ys"
  obtains x where "x \<in> set xs" and "f x = Inr y"
  using assms unfolding traverse_eq_Inr list_all2_conv_all_nth in_set_conv_nth by metis

lemma traverse_length: "traverse f xs = Inr ys \<Longrightarrow> length ys = length xs"
  by (simp add: outcome_simps list_all2_lengthD)

lemma list_all2_left: "list_all2 P xs ys \<Longrightarrow> x \<in> set xs \<Longrightarrow> \<exists>y \<in> set ys. P x y"
  by (induction rule: list_all2_induct) auto

lemma not_in_list_all: "list_all P s \<Longrightarrow> \<not> P c \<Longrightarrow> c \<notin> set s"
  by (auto simp: list_all_iff)

section \<open>Bytes and character classes\<close>

abbreviation byte :: "char \<Rightarrow> nat" where
  "byte c \<equiv> of_char c"

lemma byte_less_256 [simp]: "byte c < 256"
  using nat_of_char_less_256 [of c] by simp

definition in_range :: "char \<Rightarrow> char \<Rightarrow> char \<Rightarrow> bool" where
  "in_range lo hi c \<longleftrightarrow> byte lo \<le> byte c \<and> byte c \<le> byte hi"

abbreviation SP :: char where "SP \<equiv> CHR 0x20"
abbreviation HT :: char where "HT \<equiv> CHR 0x09"
abbreviation CR :: char where "CR \<equiv> CHR 0x0D"
abbreviation LF :: char where "LF \<equiv> CHR 0x0A"
abbreviation CRLF :: string where "CRLF \<equiv> [CR, LF]"
abbreviation HEND :: string where "HEND \<equiv> [CR, LF, CR, LF]"

text \<open>\<^verbatim>\<open>std::isspace\<close> in the default locale.\<close>

definition isspace :: "char \<Rightarrow> bool" where
  "isspace c \<longleftrightarrow> c = SP \<or> 9 \<le> byte c \<and> byte c \<le> 13"

section \<open>String views\<close>

primrec index_of :: "('a \<Rightarrow> bool) \<Rightarrow> 'a list \<Rightarrow> nat option" where
  "index_of P [] = None"
| "index_of P (x # xs) = (if P x then Some 0 else map_option Suc (index_of P xs))"

text \<open>\<^verbatim>\<open>s.find(c, pos)\<close>\<close>

definition sv_find_char :: "string \<Rightarrow> char \<Rightarrow> nat \<Rightarrow> nat option" where
  "sv_find_char s c pos = map_option ((+) pos) (index_of (\<lambda>x. x = c) (drop pos s))"

primrec index_sub :: "string \<Rightarrow> string \<Rightarrow> nat option" where
  "index_sub pat [] = (if pat = [] then Some 0 else None)"
| "index_sub pat (x # xs) =
     (if take (length pat) (x # xs) = pat then Some 0 else map_option Suc (index_sub pat xs))"

text \<open>\<^verbatim>\<open>s.find(pat, pos)\<close> for a non-empty pattern\<close>

definition sv_find :: "string \<Rightarrow> string \<Rightarrow> nat \<Rightarrow> nat option" where
  "sv_find s pat pos = map_option ((+) pos) (index_sub pat (drop pos s))"

text \<open>\<^verbatim>\<open>s.rfind(c)\<close>\<close>

definition sv_rfind_char :: "string \<Rightarrow> char \<Rightarrow> nat option" where
  "sv_rfind_char s c = map_option (\<lambda>i. length s - 1 - i) (index_of (\<lambda>x. x = c) (rev s))"

text \<open>
  \<^verbatim>\<open>s.substr(pos, n)\<close>. The C++ call throws for \<open>pos > size\<close>; every call of the
  sources is guarded by the \<^verbatim>\<open>find\<close> or size test before it, which
  \<open>sv_find_char_bounds\<close> and \<open>sv_find_bounds\<close> turn into \<open>pos \<le> size\<close>.
\<close>

definition sv_substr :: "string \<Rightarrow> nat \<Rightarrow> nat \<Rightarrow> string" where
  "sv_substr s pos n = take n (drop pos s)"

subsection \<open>Search\<close>

lemma index_of_eq_None: "index_of P xs = None \<longleftrightarrow> (\<forall>x \<in> set xs. \<not> P x)"
  by (induction xs) auto

lemma index_of_eq_Some:
  "index_of P xs = Some i \<longleftrightarrow> i < length xs \<and> P (xs ! i) \<and> (\<forall>j < i. \<not> P (xs ! j))"
proof (induction xs arbitrary: i)
  case Nil
  then show ?case by simp
next
  case (Cons x xs)
  then show ?case
    by (cases i) (auto simp: nth_Cons' less_Suc_eq_0_disj)
qed

lemma index_of_split:
  "index_of P xs = Some i \<Longrightarrow>
     \<exists>as x bs. xs = as @ x # bs \<and> length as = i \<and> P x \<and> (\<forall>a \<in> set as. \<not> P a)"
proof (induction xs arbitrary: i)
  case Nil
  then show ?case by simp
next
  case (Cons x xs)
  show ?case
  proof (cases "P x")
    case True
    with Cons.prems show ?thesis by force
  next
    case False
    with Cons.prems obtain j where j: "index_of P xs = Some j" "i = Suc j" by auto
    from Cons.IH [OF j(1)] obtain as y bs
      where "xs = as @ y # bs" "length as = j" "P y" "\<forall>a \<in> set as. \<not> P a" by blast
    with False j(2) show ?thesis by (intro exI [of _ "x # as"]) auto
  qed
qed

lemma plus_option_id [simp]: "map_option ((+) (0::nat)) x = x"
  by (cases x) auto

lemma index_of_append:
  "(\<forall>x \<in> set xs. \<not> P x) \<Longrightarrow>
     index_of P (xs @ ys) = map_option ((+) (length xs)) (index_of P ys)"
proof (induction xs)
  case Nil
  then show ?case by (cases "index_of P ys") auto
next
  case (Cons x xs)
  then show ?case by (cases "index_of P ys") auto
qed

lemma index_of_append_hit [sv_simps]:
  "(\<forall>x \<in> set xs. \<not> P x) \<Longrightarrow> P y \<Longrightarrow> index_of P (xs @ y # ys) = Some (length xs)"
  by (simp add: index_of_append)

lemma index_of_char [sv_simps]:
  "c \<notin> set bs \<Longrightarrow> index_of (\<lambda>x. x = c) (bs @ c # cs) = Some (length bs)"
  by (rule index_of_append_hit) auto

lemma sv_find_char_bounds:
  "sv_find_char s c pos = Some i \<Longrightarrow> pos \<le> i \<and> i < length s \<and> s ! i = c"
  by (auto simp: sv_find_char_def index_of_eq_Some)

lemma sv_find_char_None: "sv_find_char s c pos = None \<longleftrightarrow> c \<notin> set (drop pos s)"
  by (auto simp: sv_find_char_def index_of_eq_None)

lemma sv_find_char_hit [sv_simps]:
  "length as = pos \<Longrightarrow> c \<notin> set bs \<Longrightarrow> sv_find_char (as @ bs @ c # cs) c pos = Some (pos + length bs)"
  by (simp add: sv_find_char_def index_of_char)

lemma sv_find_char_0:
  "sv_find_char s c 0 = Some i \<Longrightarrow> \<exists>bs. s = take i s @ c # bs \<and> c \<notin> set (take i s) \<and> length (take i s) = i"
  by (fastforce simp: sv_find_char_def dest: index_of_split)

lemma sv_find_char_split:
  assumes "sv_find_char s c p = Some i"
  shows "drop p s = sv_substr s p (i - p) @ c # drop (i + 1) s \<and> c \<notin> set (sv_substr s p (i - p))
         \<and> p \<le> i \<and> i < length s"
proof -
  obtain j where j: "index_of (\<lambda>x. x = c) (drop p s) = Some j" "i = p + j"
    using assms by (auto simp: sv_find_char_def)
  from index_of_split [OF j(1)] obtain as bs
    where d: "drop p s = as @ c # bs" "length as = j" "c \<notin> set as" by auto
  have "drop (i + 1) s = drop (Suc j) (drop p s)" using j(2) by (simp add: ac_simps)
  with d have "drop (i + 1) s = bs" by simp
  with d j sv_find_char_bounds [OF assms] show ?thesis by (simp add: sv_substr_def)
qed

lemma index_sub_append_take:
  "index_sub pat s = Some i \<Longrightarrow> i + length pat \<le> length s \<and> take (length pat) (drop i s) = pat"
proof (induction s arbitrary: i)
  case Nil
  then show ?case by (auto split: if_splits)
next
  case (Cons x xs)
  then show ?case
    by (cases "take (length pat) (x # xs) = pat") (auto dest: arg_cong [where f = length])
qed

lemma sv_find_bounds:
  "sv_find s pat pos = Some i \<Longrightarrow>
     pos \<le> i \<and> (pat \<noteq> [] \<longrightarrow> i + length pat \<le> length s) \<and> take (length pat) (drop i s) = pat"
  by (cases pat) (auto simp: sv_find_def dest!: index_sub_append_take simp: ac_simps)

lemma index_sub_first:
  "index_sub pat s = Some i \<Longrightarrow> j < i \<Longrightarrow> take (length pat) (drop j s) \<noteq> pat"
proof (induction s arbitrary: i j)
  case Nil
  then show ?case by (auto split: if_splits)
next
  case (Cons x xs)
  then show ?case
    by (cases j) (auto split: if_splits)
qed


lemma take_Cons_append:
  "n \<le> length (x # xs) \<Longrightarrow> take n (x # xs @ ys) = take n (x # xs)"
  using take_append [of n "x # xs" ys] by simp

lemma index_sub_append:
  "index_sub pat s = Some i \<Longrightarrow> pat \<noteq> [] \<Longrightarrow> index_sub pat (s @ t) = Some i"
proof (induction s arbitrary: i)
  case (Cons x xs)
  show ?case
  proof (cases "take (length pat) (x # xs) = pat")
    case True
    then have "length pat \<le> length (x # xs)" by (metis length_take min.cobounded1)
    with True Cons.prems take_Cons_append [of "length pat" x xs t] show ?thesis by simp
  next
    case False
    with Cons.prems obtain j where j: "index_sub pat xs = Some j" "i = Suc j" by auto
    from index_sub_append_take [OF j(1)] have "length pat \<le> length (x # xs)" by simp
    with False have "take (length pat) (x # xs @ t) \<noteq> pat" by (simp add: take_Cons_append)
    with j Cons show ?thesis by simp
  qed
qed simp

lemma index_sub_append_conv:
  "index_sub pat (s @ t) = Some i \<Longrightarrow> i + length pat \<le> length s \<Longrightarrow> index_sub pat s = Some i"
proof (induction s arbitrary: i)
  case Nil
  then show ?case by simp
next
  case (Cons x xs)
  show ?case
  proof (cases "take (length pat) (x # xs @ t) = pat")
    case True
    with Cons.prems take_Cons_append [of "length pat" x xs t] show ?thesis by auto
  next
    case False
    with Cons.prems obtain j where j: "index_sub pat (xs @ t) = Some j" "i = Suc j" by auto
    with Cons.prems take_Cons_append [of "length pat" x xs t]
    have "take (length pat) (x # xs) \<noteq> pat" using False by simp
    with j Cons show ?thesis by simp
  qed
qed

lemma index_sub_char_skip:
  "pat \<noteq> [] \<Longrightarrow> hd pat \<notin> set xs \<Longrightarrow>
     index_sub pat (xs @ ys) = map_option ((+) (length xs)) (index_sub pat ys)"
proof (induction xs)
  case Nil
  then show ?case by (cases "index_sub pat ys") auto
next
  case (Cons x xs)
  then have "take (length pat) (x # xs @ ys) \<noteq> pat" by (cases pat) auto
  with Cons show ?case by (cases "index_sub pat ys") auto
qed

lemma index_sub_CRLF [sv_simps]:
  "CR \<notin> set l \<Longrightarrow> index_sub CRLF (l @ CR # LF # rest) = Some (length l)"
  by (simp add: index_sub_char_skip)

lemma sv_find_CRLF [sv_simps]:
  "length as = pos \<Longrightarrow> CR \<notin> set l \<Longrightarrow>
     sv_find (as @ l @ CR # LF # rest) CRLF pos = Some (pos + length l)"
  by (simp add: sv_find_def index_sub_CRLF)

subsection \<open>Blocks of CRLF-terminated lines\<close>

text \<open>
  A message head as it is on the wire: every line is followed by CRLF, and an empty line
  ends the block.
\<close>

definition crlf_lines :: "string list \<Rightarrow> string" where
  "crlf_lines ls = concat (map (\<lambda>l. l @ CRLF) ls)"

lemma crlf_lines_simps [simp]:
  "crlf_lines [] = []"
  "crlf_lines (l # ls) = l @ CR # LF # crlf_lines ls"
  "crlf_lines (as @ bs) = crlf_lines as @ crlf_lines bs"
  by (simp_all add: crlf_lines_def)

definition line_ok :: "string \<Rightarrow> bool" where
  "line_ok l \<longleftrightarrow> l \<noteq> [] \<and> CR \<notin> set l \<and> LF \<notin> set l"

text \<open>The first empty line is the one that ends the block.\<close>

lemma index_sub_HEND:
  "ls \<noteq> [] \<Longrightarrow> (\<forall>l \<in> set ls. line_ok l) \<Longrightarrow>
     index_sub HEND (crlf_lines ls @ CR # LF # rest) = Some (length (crlf_lines ls) - 2)"
proof (induction ls)
  case Nil
  then show ?case by simp
next
  case (Cons l ls)
  from Cons.prems have l: "CR \<notin> set l" by (simp add: line_ok_def)
  show ?case
  proof (cases ls)
    case Nil
    with l show ?thesis by (simp add: index_sub_char_skip)
  next
    case (Cons l' ls')
    from Cons.prems Cons have "l' \<noteq> []" "CR \<notin> set l'" by (auto simp: line_ok_def)
    then obtain c cs where l': "l' = c # cs" "c \<noteq> CR" by (cases l') auto
    have "index_sub HEND (crlf_lines ls @ CR # LF # rest) = Some (length (crlf_lines ls) - 2)"
      using Cons.IH Cons.prems Cons by simp
    with l l' Cons show ?thesis by (simp add: index_sub_char_skip)
  qed
qed

section \<open>Trimming\<close>

text \<open>
  The two index loops of \<open>trim\<close> (module_config.cpp, module_cpp.h and every module) and of
  \<open>trim_optional_whitespace\<close> (request.cpp); only the whitespace class differs.
\<close>

function trim_begin :: "(char \<Rightarrow> bool) \<Rightarrow> string \<Rightarrow> nat \<Rightarrow> nat" where
  "trim_begin ws s b = (if b < length s \<and> ws (s ! b) then trim_begin ws s (Suc b) else b)"
  by pat_completeness auto
termination
  by (relation "measure (\<lambda>(ws, s, b). length s - b)") auto

declare trim_begin.simps [simp del]

primrec trim_end :: "(char \<Rightarrow> bool) \<Rightarrow> string \<Rightarrow> nat \<Rightarrow> nat \<Rightarrow> nat" where
  "trim_end ws s b 0 = 0"
| "trim_end ws s b (Suc e) = (if Suc e > b \<and> ws (s ! e) then trim_end ws s b e else Suc e)"

definition trim_with :: "(char \<Rightarrow> bool) \<Rightarrow> string \<Rightarrow> string" where
  "trim_with ws s =
     (let b = trim_begin ws s 0;
          e = trim_end ws s b (length s)
      in sv_substr s b (e - b))"

text \<open>What the loops compute: the string without its leading and trailing whitespace.\<close>

definition strip :: "(char \<Rightarrow> bool) \<Rightarrow> string \<Rightarrow> string" where
  "strip ws s = rev (dropWhile ws (rev (dropWhile ws s)))"

lemma trim_begin_eq: "b \<le> length s \<Longrightarrow> trim_begin ws s b = b + length (takeWhile ws (drop b s))"
proof (induction ws s b rule: trim_begin.induct)
  case (1 ws s b)
  show ?case
  proof (cases "b < length s \<and> ws (s ! b)")
    case True
    then have "drop b s = s ! b # drop (Suc b) s" by (simp add: Cons_nth_drop_Suc)
    with True "1.IH" show ?thesis by (simp add: trim_begin.simps [of ws s b])
  next
    case False
    with "1.prems" have "takeWhile ws (drop b s) = []"
      by (cases "b < length s") (auto simp: Cons_nth_drop_Suc [symmetric])
    with False show ?thesis by (auto simp: trim_begin.simps [of ws s b])
  qed
qed

lemma trim_end_eq:
  "b \<le> e \<Longrightarrow> e \<le> length s \<Longrightarrow>
     take (trim_end ws s b e - b) (drop b s) = rev (dropWhile ws (rev (take (e - b) (drop b s))))"
proof (induction e)
  case 0
  then show ?case by simp
next
  case (Suc e)
  show ?case
  proof (cases "b \<le> e")
    case True
    with Suc.prems have "take (Suc e - b) (drop b s) = take (e - b) (drop b s) @ [s ! e]"
      by (simp add: Suc_diff_le take_Suc_conv_app_nth)
    with True Suc show ?thesis by simp
  next
    case False
    with Suc.prems show ?thesis by simp
  qed
qed

theorem trim_with_strip: "trim_with ws s = strip ws s"
proof -
  let ?b = "length (takeWhile ws s)"
  have b: "trim_begin ws s 0 = ?b" by (simp add: trim_begin_eq)
  have "take (trim_end ws s ?b (length s) - ?b) (drop ?b s) =
        rev (dropWhile ws (rev (take (length s - ?b) (drop ?b s))))"
    by (rule trim_end_eq) (simp_all add: length_takeWhile_le)
  then show ?thesis
    by (simp add: trim_with_def sv_substr_def strip_def b dropWhile_eq_drop Let_def)
qed

lemma strip_Nil [simp]: "strip ws [] = []"
  by (simp add: strip_def)

lemma set_strip_subset: "set (strip ws s) \<subseteq> set s"
  by (auto simp: strip_def dest!: set_dropWhileD)

definition stripped :: "(char \<Rightarrow> bool) \<Rightarrow> string \<Rightarrow> bool" where
  "stripped ws s \<longleftrightarrow> (s \<noteq> [] \<longrightarrow> \<not> ws (hd s) \<and> \<not> ws (last s))"

lemma strip_id: "stripped ws s \<Longrightarrow> strip ws s = s"
proof (cases "s = []")
  case False
  assume "stripped ws s"
  with False have "\<not> ws (hd s)" and "\<not> ws (hd (rev s))"
    by (simp_all add: stripped_def hd_rev)
  then have "dropWhile ws s = s" and "dropWhile ws (rev s) = rev s"
    by (simp_all only: dropWhile_eq_self_iff, simp_all)
  then show ?thesis by (simp add: strip_def)
qed simp

lemma stripped_strip: "stripped ws (strip ws s)"
proof (cases "strip ws s = []")
  case False
  let ?d = "dropWhile ws s"
  let ?e = "dropWhile ws (rev ?d)"
  from False have e: "?e \<noteq> []" by (simp add: strip_def)
  then have d: "?d \<noteq> []" by (metis dropWhile.simps(1) rev.simps(1))
  obtain zs where zs: "rev ?d = zs @ ?e"
    by (metis takeWhile_dropWhile_id)
  then have "?d = rev ?e @ rev zs" by (metis rev_append rev_rev_ident)
  with e have "hd (rev ?e) = hd ?d" by (metis hd_append2 rev_is_Nil_conv)
  with d have "\<not> ws (hd (rev ?e))" using hd_dropWhile by metis
  moreover from e have "\<not> ws (last (rev ?e))" by (simp add: last_rev hd_dropWhile)
  ultimately show ?thesis by (simp add: stripped_def strip_def)
qed (simp add: stripped_def)

lemma strip_pad: "ws c \<Longrightarrow> strip ws (c # s) = strip ws s"
  by (simp add: strip_def)


section \<open>Splitting at a delimiter\<close>

text \<open>
  The splitting loop the sources repeat for comma lists, \<open>|\<close>-separated fields and the
  lines of a configuration text:
  \<^verbatim>\<open>
    while (begin <= size) {
        end = find(delimiter, begin); if (end == npos) end = size;
        ... substr(begin, end - begin) ...
        if (end == size) break;
        begin = end + 1;
    }
  \<close>
  \<open>segments s d b\<close> lists the views the loop body sees from \<open>begin = b\<close> on.
\<close>

function segments :: "string \<Rightarrow> char \<Rightarrow> nat \<Rightarrow> string list" where
  "segments s d b =
     (if b \<le> length s then
        (let e = (case sv_find_char s d b of None \<Rightarrow> length s | Some e \<Rightarrow> e);
             part = sv_substr s b (e - b)
         in if e = length s then [part] else part # segments s d (e + 1))
      else [])"
  by pat_completeness auto
termination
  by (relation "measure (\<lambda>(s, d, b). Suc (length s) - b)")
    (auto split: option.splits dest: sv_find_char_bounds)

declare segments.simps [simp del]

text \<open>Reference: split a list at every occurrence of an element.\<close>

fun split_on :: "'a \<Rightarrow> 'a list \<Rightarrow> 'a list list" where
  "split_on d [] = [[]]"
| "split_on d (x # xs) =
     (if x = d then [] # split_on d xs
      else (case split_on d xs of [] \<Rightarrow> [[x]] | p # ps \<Rightarrow> (x # p) # ps))"

lemma split_on_not_Nil [simp]: "split_on d xs \<noteq> []"
  by (cases xs) (auto split: list.splits)

lemma split_on_no_delim: "d \<notin> set xs \<Longrightarrow> split_on d xs = [xs]"
  by (induction xs) auto

lemma split_on_append: "d \<notin> set xs \<Longrightarrow> split_on d (xs @ d # ys) = xs # split_on d ys"
  by (induction xs) auto

theorem segments_split_on: "b \<le> length s \<Longrightarrow> segments s d b = split_on d (drop b s)"
proof (induction s d b rule: segments.induct)
  case (1 s d b)
  show ?case
  proof (cases "sv_find_char s d b")
    case None
    then have "d \<notin> set (drop b s)" by (simp add: sv_find_char_None)
    with None "1.prems" show ?thesis
      by (simp add: segments.simps [of s d b] sv_substr_def split_on_no_delim)
  next
    case (Some e)
    then obtain i where i: "index_of (\<lambda>x. x = d) (drop b s) = Some i" "e = b + i"
      by (auto simp: sv_find_char_def)
    from index_of_split [OF i(1)] obtain as bs
      where as: "drop b s = as @ d # bs" "length as = i" "d \<notin> set as" by auto
    from Some have e: "e < length s" by (simp add: sv_find_char_bounds)
    have drop: "drop (e + 1) s = bs"
    proof -
      have "drop (e + 1) s = drop (Suc i) (drop b s)" using i(2) by (simp add: ac_simps)
      with as show ?thesis by simp
    qed
    have "segments s d (e + 1) = split_on d bs"
      using "1.IH" [of e] Some e "1.prems" drop by (simp add: Let_def)
    then show ?thesis
      using Some e "1.prems" as i
      by (simp add: segments.simps [of s d b] sv_substr_def split_on_append Let_def)
  qed
qed

lemma segments_0 [sv_simps]: "segments s d 0 = split_on d s"
  by (simp add: segments_split_on)

text \<open>Splitting loses nothing: joining the parts with the delimiter gives the text back.\<close>

fun join_with :: "'a \<Rightarrow> 'a list list \<Rightarrow> 'a list" where
  "join_with d [] = []"
| "join_with d [p] = p"
| "join_with d (p # q # ps) = p @ d # join_with d (q # ps)"

lemma join_with_Cons: "ps \<noteq> [] \<Longrightarrow> join_with d (p # ps) = p @ d # join_with d ps"
  by (cases ps) auto

lemma join_split_on: "join_with d (split_on d s) = s"
proof (induction s)
  case Nil
  then show ?case by simp
next
  case (Cons x xs)
  then show ?case
    by (cases "split_on d xs" rule: list.exhaust; cases "tl (split_on d xs)")
      (auto simp: join_with_Cons)
qed

lemma split_on_join:
  "ps \<noteq> [] \<Longrightarrow> (\<forall>p \<in> set ps. d \<notin> set p) \<Longrightarrow> split_on d (join_with d ps) = ps"
proof (induction d ps rule: join_with.induct)
  case (3 d p q ps)
  then show ?case by (simp add: split_on_append)
qed (simp_all add: split_on_no_delim)

lemma split_on_parts: "p \<in> set (split_on d s) \<Longrightarrow> d \<notin> set p \<and> set p \<subseteq> set s"
proof (induction s arbitrary: p)
  case (Cons x xs)
  obtain q qs where q: "split_on d xs = q # qs"
    using split_on_not_Nil by (cases "split_on d xs") auto
  from Cons.IH [of q] q have "d \<notin> set q" "set q \<subseteq> set xs" by auto
  with Cons q show ?case by (force split: if_splits)
qed simp

section \<open>Decimal numbers\<close>

text \<open>\<^verbatim>\<open>std::to_string\<close> and \<^verbatim>\<open>operator<<\<close> for integers.\<close>

definition digit_char :: "nat \<Rightarrow> char" where
  "digit_char d = char_of (48 + d)"

definition is_digit :: "char \<Rightarrow> bool" where
  "is_digit c \<longleftrightarrow> in_range (CHR ''0'') (CHR ''9'') c"

definition digit_value :: "char \<Rightarrow> nat" where
  "digit_value c = byte c - byte (CHR ''0'')"

fun show_nat :: "nat \<Rightarrow> string" where
  "show_nat n = (if n < 10 then [digit_char n] else show_nat (n div 10) @ [digit_char (n mod 10)])"

declare show_nat.simps [simp del]

definition show_int :: "int \<Rightarrow> string" where
  "show_int i = (if i < 0 then CHR ''-'' # show_nat (nat (- i)) else show_nat (nat i))"

lemma byte_digit_char: "d < 10 \<Longrightarrow> byte (digit_char d) = 48 + d"
  by (simp add: digit_char_def of_char_of)

lemma is_digit_digit_char: "d < 10 \<Longrightarrow> is_digit (digit_char d)"
  by (simp add: is_digit_def in_range_def byte_digit_char)

lemma digit_value_digit_char: "d < 10 \<Longrightarrow> digit_value (digit_char d) = d"
  by (simp add: digit_value_def byte_digit_char)

lemma show_nat_not_Nil [simp]: "show_nat n \<noteq> []"
  by (subst show_nat.simps) simp

lemma show_nat_digits: "c \<in> set (show_nat n) \<Longrightarrow> is_digit c"
proof (induction n rule: show_nat.induct)
  case (1 n)
  show ?case
  proof (cases "n < 10")
    case True
    with "1.prems" show ?thesis by (simp add: show_nat.simps [of n] is_digit_digit_char)
  next
    case False
    with 1 show ?thesis
      by (auto simp: show_nat.simps [of n] is_digit_digit_char)
  qed
qed

definition digits_value :: "string \<Rightarrow> nat" where
  "digits_value s = foldl (\<lambda>v c. v * 10 + digit_value c) 0 s"

lemma digits_value_show_nat: "digits_value (show_nat n) = n"
proof (induction n rule: show_nat.induct)
  case (1 n)
  show ?case
  proof (cases "n < 10")
    case True
    then show ?thesis
      by (simp add: show_nat.simps [of n] digits_value_def digit_value_digit_char)
  next
    case False
    with "1.IH" show ?thesis
      by (simp add: show_nat.simps [of n] digits_value_def digit_value_digit_char)
  qed
qed

lemma is_digit_not_ctl: "is_digit c \<Longrightarrow> c \<noteq> CR \<and> c \<noteq> LF"
  by (auto simp: is_digit_def in_range_def)

lemma show_nat_no_ctl [simp]: "CR \<notin> set (show_nat n)" "LF \<notin> set (show_nat n)"
  using show_nat_digits is_digit_not_ctl by blast+

lemma show_int_no_ctl [simp]: "CR \<notin> set (show_int n)" "LF \<notin> set (show_int n)"
  by (auto simp: show_int_def)


text \<open>
  \<^verbatim>\<open>std::from_chars\<close> in base ten: an optional minus sign for a signed type, the longest run
  of digits, \<open>None\<close> when there is no digit or the value does not fit; otherwise the
  value and the characters after \<^verbatim>\<open>ptr\<close>.
\<close>

definition from_chars_unsigned :: "nat \<Rightarrow> string \<Rightarrow> (nat \<times> string) option" where
  "from_chars_unsigned w s =
     (let ds = takeWhile is_digit s; v = digits_value ds
      in if ds = [] \<or> v \<ge> 2 ^ w then None else Some (v, dropWhile is_digit s))"

definition from_chars_signed :: "nat \<Rightarrow> string \<Rightarrow> (int \<times> string) option" where
  "from_chars_signed w s =
     (let neg = (s \<noteq> [] \<and> hd s = CHR ''-'');
          t = (if neg then tl s else s);
          ds = takeWhile is_digit t;
          v = (if neg then - int (digits_value ds) else int (digits_value ds))
      in if ds = [] \<or> v < - (2 ^ (w - 1)) \<or> v \<ge> 2 ^ (w - 1) then None
         else Some (v, dropWhile is_digit t))"

lemma takeWhile_show_nat: "takeWhile is_digit (show_nat n) = show_nat n"
  using show_nat_digits by (simp add: takeWhile_eq_all_conv)

lemma dropWhile_show_nat: "dropWhile is_digit (show_nat n) = []"
  using show_nat_digits by (simp add: dropWhile_eq_Nil_conv)

lemma from_chars_unsigned_show_nat:
  "n < 2 ^ w \<Longrightarrow> from_chars_unsigned w (show_nat n) = Some (n, [])"
  by (simp add: from_chars_unsigned_def takeWhile_show_nat dropWhile_show_nat digits_value_show_nat
      Let_def)

end
