(* ===== verification/Peer_Address.thy ===== *)
theory Peer_Address
  imports Prelude "HOL-Library.Word"
begin

text \<open>
  The text of a client's address (\<^verbatim>\<open>format_client_address\<close> of \<^verbatim>\<open>src/src/net/listener.cpp\<close>), the key under
  which the per-address limiter counts and the first field of the access log. An address is
  the 32-bit value of \<^verbatim>\<open>sin_addr\<close>, most significant byte first as on the wire; \<^verbatim>\<open>inet_ntop\<close> writes its
  bytes in decimal, separated by dots, and fails when text and terminator do not fit the buffer.
\<close>

type_synonym in_addr = "32 word"

definition octets :: "in_addr \<Rightarrow> nat list" where
  "octets a = map (\<lambda>k. unat (take_bit 8 (drop_bit k a))) [24, 16, 8, 0]"

definition inet_ntop :: "in_addr \<Rightarrow> nat \<Rightarrow> string option" where
  "inet_ntop a n =
     (let t = join_with (CHR ''.'') (map show_nat (octets a)) in if length t < n then Some t else None)"

definition INET_ADDRSTRLEN :: nat where
  "INET_ADDRSTRLEN = 16"

definition format_client_address :: "in_addr \<Rightarrow> string" where
  "format_client_address client = (case inet_ntop client INET_ADDRSTRLEN of None \<Rightarrow> [] | Some buffer \<Rightarrow> buffer)"

section \<open>The text identifies the host\<close>

text \<open>Reading dotted decimal back.\<close>

definition read_address :: "string \<Rightarrow> in_addr" where
  "read_address t = of_nat (foldl (\<lambda>v s. v * 256 + digits_value s) 0 (split_on (CHR ''.'') t))"

lemma show_nat_three: "n < 256 \<Longrightarrow> length (show_nat n) \<le> 3"
  by (simp add: show_nat.simps)

lemma no_dot: "CHR ''.'' \<notin> set (show_nat n)"
  using show_nat_digits [of "CHR ''.''" n] by (auto simp: is_digit_def in_range_def)

lemma nat_octets:
  assumes "n < 2 ^ 32"
  shows "n = ((n div 2 ^ 24 mod 256 * 256 + n div 2 ^ 16 mod 256) * 256 + n div 2 ^ 8 mod 256) * 256 + n mod (256 :: nat)"
proof -
  have split: "m = m div 256 * 256 + m mod 256" for m :: nat by simp
  have "n div 2 ^ 24 < 256" using assms by (simp add: less_mult_imp_div_less)
  then have "n div 2 ^ 24 mod 256 = n div 2 ^ 24" by simp
  moreover have "n div 2 ^ 16 = n div 2 ^ 24 * 256 + n div 2 ^ 16 mod 256"
    using split [of "n div 2 ^ 16"] by (simp flip: div_mult2_eq)
  moreover have "n div 2 ^ 8 = n div 2 ^ 16 * 256 + n div 2 ^ 8 mod 256"
    using split [of "n div 2 ^ 8"] by (simp flip: div_mult2_eq)
  ultimately show ?thesis using split [of n] by simp
qed

lemma octets_cases:
  obtains p q r s where "octets a = [p, q, r, s]" and "p < 256" "q < 256" "r < 256" "s < 256"
    and "unat a = ((p * 256 + q) * 256 + r) * 256 + s"
proof -
  have o: "unat (take_bit 8 (drop_bit k a)) = unat a div 2 ^ k mod 256" for k
    unfolding unsigned_take_bit_eq unat_drop_bit_eq by (simp add: take_bit_eq_mod drop_bit_eq_div)
  let ?n = "unat a"
  have oc: "octets a = [?n div 2 ^ 24 mod 256, ?n div 2 ^ 16 mod 256, ?n div 2 ^ 8 mod 256, ?n mod 256]"
    unfolding octets_def list.map o power_0 div_by_1 ..
  have "?n < 2 ^ 32" using unsigned_less [of a] by simp
  with that [OF oc] nat_octets [of ?n] show thesis by simp
qed

lemma dotted_bounds:
  assumes "p < 256" "q < 256" "r < 256" "s < 256"
  shows "length (join_with (CHR ''.'') (map show_nat [p, q, r, s])) < 16"
  using assms [THEN show_nat_three] by simp

lemma format_client_address_eq:
  "format_client_address a = join_with (CHR ''.'') (map show_nat (octets a))"
  "length (join_with (CHR ''.'') (map show_nat (octets a))) \<le> 15"
proof -
  obtain p q r s where o: "octets a = [p, q, r, s]" "p < 256" "q < 256" "r < 256" "s < 256"
    using octets_cases [of a] by metis
  have l: "length (join_with (CHR ''.'') (map show_nat (octets a))) < 16"
    unfolding o(1) by (rule dotted_bounds) (fact o)+
  then show "format_client_address a = join_with (CHR ''.'') (map show_nat (octets a))"
    by (simp only: format_client_address_def inet_ntop_def INET_ADDRSTRLEN_def Let_def if_True option.case)
  from l show "length (join_with (CHR ''.'') (map show_nat (octets a))) \<le> 15" by linarith
qed

lemma read_format_client_address: "read_address (format_client_address a) = a"
proof -
  obtain p q r s where o: "octets a = [p, q, r, s]" "unat a = ((p * 256 + q) * 256 + r) * 256 + s"
    using octets_cases [of a] by metis
  have "split_on (CHR ''.'') (format_client_address a) = map show_nat (octets a)"
    unfolding format_client_address_eq by (rule split_on_join) (auto simp: o(1) no_dot)
  then have "read_address (format_client_address a) = of_nat (unat a)"
    unfolding o(2) by (simp add: read_address_def o(1) digits_value_show_nat)
  then show ?thesis by simp
qed

lemma format_client_address_text:
  "format_client_address a \<noteq> []" "length (format_client_address a) \<le> 15"
  "c \<in> set (format_client_address a) \<Longrightarrow> is_digit c \<or> c = CHR ''.''"
proof -
  obtain p q r s where o: "octets a = [p, q, r, s]" using octets_cases [of a] by metis
  show "format_client_address a \<noteq> []" "length (format_client_address a) \<le> 15"
    using format_client_address_eq [of a] by (simp_all add: o)
  show "c \<in> set (format_client_address a) \<Longrightarrow> is_digit c \<or> c = CHR ''.''"
    by (auto simp: format_client_address_eq o dest: show_nat_digits)
qed

lemma format_client_address_inj [simp]: "format_client_address a = format_client_address b \<longleftrightarrow> a = b"
  using read_format_client_address by metis

end
