(* ===== verification/Calendar.thy ===== *)
theory Calendar
  imports Prelude
begin

text \<open>
  What the access log uses of the C library's calendar: \<^verbatim>\<open>gmtime_r\<close>, which breaks a time in seconds
  since 1970 into the fields of a \<^verbatim>\<open>struct tm\<close> in UTC, and the conversions of \<^verbatim>\<open>std::put_time\<close> in the C
  locale. The Gregorian calendar is given by \<open>day_number\<close>; \<open>gmtime\<close> computes its inverse.
\<close>

section \<open>The Gregorian calendar\<close>

definition is_leap :: "int \<Rightarrow> bool" where
  "is_leap y \<longleftrightarrow> y mod 4 = 0 \<and> (y mod 100 \<noteq> 0 \<or> y mod 400 = 0)"

definition days_in_month :: "int \<Rightarrow> int \<Rightarrow> int" where
  "days_in_month y m =
     (if m = 2 then (if is_leap y then 29 else 28) else if m = 4 \<or> m = 6 \<or> m = 9 \<or> m = 11 then 30 else 31)"

definition valid_date :: "int \<Rightarrow> int \<Rightarrow> int \<Rightarrow> bool" where
  "valid_date y m d \<longleftrightarrow> 1 \<le> m \<and> m \<le> 12 \<and> 1 \<le> d \<and> d \<le> days_in_month y m"

text \<open>Days since 1 January 1970: whole years, then whole months, then days.\<close>

definition day_number :: "int \<Rightarrow> int \<Rightarrow> int \<Rightarrow> int" where
  "day_number y m d =
     365 * (y - 1) + (y - 1) div 4 - (y - 1) div 100 + (y - 1) div 400
     + sum_list (map (days_in_month y) [1..m - 1]) + d - 719163"

text \<open>Counting multiples, and with them leap days, up to a year.\<close>

lemma div_pred:
  fixes y n :: int
  assumes "0 < n"
  shows "y div n = (y - 1) div n + (if y mod n = 0 then 1 else 0)"
proof -
  have y: "y = n * (y div n) + y mod n" by simp
  show ?thesis
  proof (cases "y mod n = 0")
    case True
    with y have "y - 1 = n * (y div n - 1) + (n - 1)" by (simp add: algebra_simps)
    from int_div_pos_eq [OF this] assms True show ?thesis by simp
  next
    case False
    with assms have "0 < y mod n" by (metis pos_mod_sign order_le_less)
    from y have "y - 1 = n * (y div n) + (y mod n - 1)" by simp
    from int_div_pos_eq [OF this] assms False \<open>0 < y mod n\<close> pos_mod_bound [OF assms, of y] show ?thesis by simp
  qed
qed

definition leap_days :: "int \<Rightarrow> int" where
  "leap_days y = y div 4 - y div 100 + y div 400"

lemma nested_counts:
  "(A \<Longrightarrow> B) \<Longrightarrow> (B \<Longrightarrow> C) \<Longrightarrow>
     a = a' + (if C then 1 else 0) \<Longrightarrow> b = b' + (if B then 1 else 0) \<Longrightarrow> c = c' + (if A then 1 else 0) \<Longrightarrow>
     a - b + c = a' - b' + c' + (if C \<and> (\<not> B \<or> A) then 1 else (0 :: int))"
  by auto

lemma leap_days_pred: "leap_days y = leap_days (y - 1) + (if is_leap y then 1 else 0)"
proof -
  have "y mod 400 mod 100 = y mod 100" "y mod 100 mod 4 = y mod 4"
    by (rule mod_mod_cancel, simp)+
  then have "y mod 400 = 0 \<Longrightarrow> y mod 100 = 0" "y mod 100 = 0 \<Longrightarrow> y mod 4 = 0"
    by (metis mod_0)+
  then show ?thesis
    unfolding leap_days_def is_leap_def by (rule nested_counts) (assumption | rule div_pred, simp)+
qed

lemma day_number_leap_days:
  "day_number y m d = 365 * (y - 1) + leap_days (y - 1) + sum_list (map (days_in_month y) [1..m - 1]) + d - 719163"
  unfolding day_number_def leap_days_def by linarith

text \<open>The day after the last of a month is the first of the next; it counts one more.\<close>

lemma day_number_next_month:
  "1 \<le> m \<Longrightarrow> day_number y (m + 1) 1 = day_number y m (days_in_month y m) + 1"
  by (simp add: day_number_def upto_rec2)

lemma day_number_next_year: "day_number (y + 1) 1 1 = day_number y 12 31 + 1"
proof -
  have "[1..11] = [1, 2, 3, 4, 5, 6, 7, 8, 9, 10, 11 :: int]" by code_simp
  then show ?thesis
    using leap_days_pred [of y] by (simp add: day_number_leap_days days_in_month_def)
qed

section \<open>Broken-down time\<close>

text \<open>\<^verbatim>\<open>tm_year\<close> counts from 1900 and \<^verbatim>\<open>tm_mon\<close> from 0.\<close>

record tm =
  tm_year :: int
  tm_mon :: int
  tm_mday :: int
  tm_hour :: int
  tm_min :: int
  tm_sec :: int

text \<open>
  Years are counted from March, so that the leap day ends them: 400 years have 146097 days, the
  centuries in them 36524 (the last one a day more), four years 1461, a year 365.
\<close>

definition civil_of_days :: "int \<Rightarrow> int \<times> int \<times> int" where
  "civil_of_days days =
     (let z = days + 719468;
          era = z div 146097; doe = z mod 146097;
          c = min 3 (doe div 36524); doc = doe - c * 36524;
          q = doc div 1461; doq = doc mod 1461;
          yr = min 3 (doq div 365); doy = doq - yr * 365;
          y = 400 * era + 100 * c + 4 * q + yr;
          mp = (5 * doy + 2) div 153;
          d = doy - (153 * mp + 2) div 5 + 1
      in if mp < 10 then (y, mp + 3, d) else (y + 1, mp - 9, d))"

definition gmtime :: "int \<Rightarrow> tm" where
  "gmtime t =
     (case civil_of_days (t div 86400) of (y, m, d) \<Rightarrow>
        \<lparr>tm_year = y - 1900, tm_mon = m - 1, tm_mday = d,
         tm_hour = t mod 86400 div 3600, tm_min = t mod 3600 div 60, tm_sec = t mod 60\<rparr>)"

text \<open>Leap days in the years counted from March, and the length of such a year.\<close>

lemma march_year:
  fixes days :: int
  assumes era_def: "era = (days + 719468) div 146097" and doe_def: "doe = (days + 719468) mod 146097"
    and c_def: "c = min 3 (doe div 36524)"
    and q_def: "q = (doe - c * 36524) div 1461" and doq_def: "doq = (doe - c * 36524) mod 1461"
    and yr_def: "yr = min 3 (doq div 365)"
    and y_def: "y = 400 * era + 100 * c + 4 * q + yr" and doy_def: "doy = doq - yr * 365"
  shows "days + 719468 = 365 * y + leap_days y + doy"
    and "0 \<le> doy" and "doy \<le> 365" and "doy \<le> 364 \<or> is_leap (y + 1)"
proof -
  have z: "days + 719468 = 146097 * era + doe" "0 \<le> doe" "doe < 146097" by (simp_all add: era_def doe_def)
  have c: "0 \<le> c" "c \<le> 3" "c * 36524 \<le> doe" "doe < c * 36524 + 36525" "c < 3 \<Longrightarrow> doe < c * 36524 + 36524"
    using z(2,3) unfolding c_def by (auto simp: min_def)
  have q: "doe - c * 36524 = 1461 * q + doq" "0 \<le> doq" "doq < 1461" by (simp_all add: q_def doq_def)
  have q24: "0 \<le> q" "q \<le> 24" using c q by linarith+
  have yr: "0 \<le> yr" "yr \<le> 3" "yr * 365 \<le> doq" "doq < yr * 365 + 366" "yr < 3 \<Longrightarrow> doq < yr * 365 + 365"
    using q(2,3) unfolding yr_def by (auto simp: min_def)
  have "y = 4 * (100 * era + 25 * c + q) + yr" "y = 100 * (4 * era + c) + (4 * q + yr)"
      "y = 400 * era + (100 * c + 4 * q + yr)" by (simp_all add: y_def)
  from this [THEN int_div_pos_eq] yr(1,2) q24 c(1,2)
  have "leap_days y = 97 * era + 24 * c + q" by (simp add: leap_days_def)
  with z(1) q(1) show "days + 719468 = 365 * y + leap_days y + doy"
    unfolding doy_def y_def by (simp add: algebra_simps)
  show "0 \<le> doy" "doy \<le> 365" using yr unfolding doy_def by linarith+
  show "doy \<le> 364 \<or> is_leap (y + 1)"
  proof (rule disjCI)
    assume "\<not> is_leap (y + 1)"
    have "is_leap (y + 1)" if "\<not> doy \<le> 364"
    proof -
      from that have yr3: "yr = 3" "doq = 1460" using yr q(3) unfolding doy_def by linarith+
      then have y1: "y + 1 = 100 * (4 * era + c) + 4 * (q + 1)" by (simp add: y_def)
      then have "y + 1 = 4 * (25 * (4 * era + c) + q + 1)" by simp
      then have "(y + 1) mod 4 = 0" by simp
      moreover have "(y + 1) mod 100 = 4 * (q + 1)" if "q < 24"
        using int_mod_pos_eq [OF y1] that q24(1) by simp
      moreover have "(y + 1) mod 400 = 0" if "\<not> q < 24"
      proof -
        have "q = 24" "c = 3" using that q24 c q(1) yr3(2) by linarith+
        then have "y + 1 = 400 * (era + 1)" by (simp add: y1)
        then show ?thesis by simp
      qed
      ultimately show ?thesis using q24(1) unfolding is_leap_def by (cases "q < 24") auto
    qed
    with \<open>\<not> is_leap (y + 1)\<close> show "doy \<le> 364" by blast
  qed
qed

text \<open>Days before a month in a year that starts with March, and in one that starts with January.\<close>

lemma march_month:
  fixes doy :: int
  assumes "0 \<le> doy" and "doy \<le> 365" and mp: "mp = (5 * doy + 2) div 153" and d: "d = doy - (153 * mp + 2) div 5 + 1"
    and "doy \<le> 364 \<or> is_leap (y + 1)"
  shows "0 \<le> mp" and "mp \<le> 11"
    and "mp < 10 \<Longrightarrow> valid_date y (mp + 3) d \<and>
           sum_list (map (days_in_month y) [1..mp + 2]) + d = doy + 60 + (if is_leap y then 1 else 0)"
    and "\<not> mp < 10 \<Longrightarrow> valid_date (y + 1) (mp - 9) d \<and>
           sum_list (map (days_in_month (y + 1)) [1..mp - 10]) + d = doy - 305"
proof -
  have m: "153 * mp \<le> 5 * doy + 2" "5 * doy + 2 < 153 * mp + 153" using mp by linarith+
  then show b: "0 \<le> mp" "mp \<le> 11" using assms(1,2) by linarith+
  have up: "[1..2] = [1, 2 :: int]" "[1..3] = [1, 2, 3 :: int]" "[1..4] = [1, 2, 3, 4 :: int]"
      "[1..5] = [1, 2, 3, 4, 5 :: int]" "[1..6] = [1, 2, 3, 4, 5, 6 :: int]" "[1..7] = [1, 2, 3, 4, 5, 6, 7 :: int]"
      "[1..8] = [1, 2, 3, 4, 5, 6, 7, 8 :: int]" "[1..9] = [1, 2, 3, 4, 5, 6, 7, 8, 9 :: int]"
      "[1..10] = [1, 2, 3, 4, 5, 6, 7, 8, 9, 10 :: int]" "[1..11] = [1, 2, 3, 4, 5, 6, 7, 8, 9, 10, 11 :: int]"
    by code_simp+
  from b have "mp = 0 \<or> mp = 1 \<or> mp = 2 \<or> mp = 3 \<or> mp = 4 \<or> mp = 5 \<or> mp = 6 \<or> mp = 7 \<or> mp = 8
    \<or> mp = 9 \<or> mp = 10 \<or> mp = 11" by presburger
  then have "(mp < 10 \<longrightarrow> valid_date y (mp + 3) d \<and>
      sum_list (map (days_in_month y) [1..mp + 2]) + d = doy + 60 + (if is_leap y then 1 else 0)) \<and>
    (\<not> mp < 10 \<longrightarrow> valid_date (y + 1) (mp - 9) d \<and>
      sum_list (map (days_in_month (y + 1)) [1..mp - 10]) + d = doy - 305)"
    by (elim disjE) (use m assms(2,5) d in \<open>auto simp: valid_date_def days_in_month_def up\<close>)
  then show "mp < 10 \<Longrightarrow> valid_date y (mp + 3) d \<and>
           sum_list (map (days_in_month y) [1..mp + 2]) + d = doy + 60 + (if is_leap y then 1 else 0)"
    and "\<not> mp < 10 \<Longrightarrow> valid_date (y + 1) (mp - 9) d \<and>
           sum_list (map (days_in_month (y + 1)) [1..mp - 10]) + d = doy - 305" by blast+
qed

lemma civil_of_days:
  assumes "civil_of_days days = (y, m, d)"
  shows "valid_date y m d" and "day_number y m d = days"
proof -
  define era doe where z: "era = (days + 719468) div 146097" "doe = (days + 719468) mod 146097"
  define c where c: "c = min 3 (doe div 36524)"
  define q doq where q: "q = (doe - c * 36524) div 1461" "doq = (doe - c * 36524) mod 1461"
  define yr where yr: "yr = min 3 (doq div 365)"
  define y0 doy where y0: "y0 = 400 * era + 100 * c + 4 * q + yr" "doy = doq - yr * 365"
  define mp where mp: "mp = (5 * doy + 2) div 153"
  have e: "(y, m, d) = (if mp < 10 then (y0, mp + 3, doy - (153 * mp + 2) div 5 + 1)
      else (y0 + 1, mp - 9, doy - (153 * mp + 2) div 5 + 1))"
    unfolding assms [symmetric] civil_of_days_def Let_def mp y0 yr q c z by (rule refl)
  note y = march_year [OF z c q yr y0]
  note mm = march_month [OF y(2,3) mp refl y(4)]
  have "valid_date y m d \<and> day_number y m d = days"
  proof (cases "mp < 10")
    case True
    with e have i: "y = y0" "m = mp + 3" "d = doy - (153 * mp + 2) div 5 + 1" by simp_all
    have m1: "m - 1 = mp + 2" using i(2) by simp
    have "day_number y m d = 365 * (y0 - 1) + leap_days (y0 - 1)
        + (sum_list (map (days_in_month y0) [1..mp + 2]) + d) - 719163"
      unfolding day_number_leap_days m1 i(1) by simp
    with mm(3) [OF True, folded i] y(1) leap_days_pred [of y0] i(1) show ?thesis by simp
  next
    case False
    with e have i: "y = y0 + 1" "m = mp - 9" "d = doy - (153 * mp + 2) div 5 + 1" by simp_all
    have m1: "m - 1 = mp - 10" using i(2) by simp
    have "day_number y m d = 365 * y0 + leap_days y0
        + (sum_list (map (days_in_month (y0 + 1)) [1..mp - 10]) + d) - 719163"
      unfolding day_number_leap_days m1 i(1) by simp
    with mm(4) [OF False, folded i] y(1) i(1) show ?thesis by simp
  qed
  then show "valid_date y m d" and "day_number y m d = days" by blast+
qed

end
