(* ===== verification/Http_Request.thy ===== *)
theory Http_Request
  imports Prelude
begin

text \<open>
  HTTP header fields and the request parser: \<^verbatim>\<open>src/src/http/header.h\<close>,
  \<^verbatim>\<open>src/src/http/request.h\<close> and \<^verbatim>\<open>src/src/http/request.cpp\<close>.
  The parser is modelled with the positions and views of the C++ text; \<open>request_grammar\<close>
  is the reference it is proved equal to, and \<open>print_request\<close> the canonical
  rendering used for the round trip.
\<close>

section \<open>Header fields (header.h)\<close>

record header_field =
  hname :: string
  hvalue :: string

definition ascii_lower :: "char \<Rightarrow> char" where
  "ascii_lower ch =
     (if byte (CHR ''A'') \<le> byte ch \<and> byte ch \<le> byte (CHR ''Z'')
      then char_of (byte ch - byte (CHR ''A'') + byte (CHR ''a'')) else ch)"

text \<open>The index loop shared by \<open>header_name_equals\<close> and the \<open>ascii_iequals\<close> copies.\<close>

function iequals_from :: "string \<Rightarrow> string \<Rightarrow> nat \<Rightarrow> bool" where
  "iequals_from left right i =
     (if i < length left then
        (if ascii_lower (left ! i) \<noteq> ascii_lower (right ! i) then False
         else iequals_from left right (i + 1))
      else True)"
  by pat_completeness auto
termination
  by (relation "measure (\<lambda>(l, r, i). length l - i)") auto

declare iequals_from.simps [simp del]

definition header_name_equals :: "string \<Rightarrow> string \<Rightarrow> bool" where
  "header_name_equals left right =
     (if length left \<noteq> length right then False else iequals_from left right 0)"

lemma iequals_from_eq:
  "iequals_from left right i \<longleftrightarrow>
     (\<forall>j. i \<le> j \<and> j < length left \<longrightarrow> ascii_lower (left ! j) = ascii_lower (right ! j))"
proof (induction left right i rule: iequals_from.induct)
  case (1 left right i)
  show ?case
  proof (cases "i < length left \<and> ascii_lower (left ! i) = ascii_lower (right ! i)")
    case True
    with "1.IH" show ?thesis
      by (auto simp: iequals_from.simps [of left right i] le_Suc_eq Suc_le_eq)
        (metis Suc_leI le_neq_implies_less)
  next
    case False
    then show ?thesis by (auto simp: iequals_from.simps [of left right i])
  qed
qed

lemma header_name_equals_map:
  "header_name_equals left right \<longleftrightarrow> map ascii_lower left = map ascii_lower right"
  by (auto simp: header_name_equals_def iequals_from_eq list_eq_iff_nth_eq)

lemma header_name_equals_refl [simp]: "header_name_equals n n"
  by (simp add: header_name_equals_map)

section \<open>Requests (request.h)\<close>

datatype request_parse_error =
    Malformed_request_line
  | Invalid_method
  | Invalid_target
  | Invalid_version
  | Invalid_header

record request =
  version_major :: int
  version_minor :: int
  req_method :: string
  target :: string
  req_headers :: "header_field list"

definition find_header_in :: "header_field list \<Rightarrow> string \<Rightarrow> header_field option" where
  "find_header_in hs name = List.find (\<lambda>h. header_name_equals (hname h) name) hs"

definition find_header :: "request \<Rightarrow> string \<Rightarrow> header_field option" where
  "find_header r name = find_header_in (req_headers r) name"

definition header_value :: "request \<Rightarrow> string \<Rightarrow> string option" where
  "header_value r name = map_option hvalue (find_header r name)"

definition header_equals :: "request \<Rightarrow> string \<Rightarrow> string \<Rightarrow> bool" where
  "header_equals r name v = (case find_header r name of None \<Rightarrow> False | Some h \<Rightarrow> hvalue h = v)"

section \<open>Character classes and validators (request.cpp)\<close>

definition is_alpha :: "char \<Rightarrow> bool" where
  "is_alpha ch \<longleftrightarrow> in_range (CHR ''A'') (CHR ''Z'') ch \<or> in_range (CHR ''a'') (CHR ''z'') ch"

definition is_token_char :: "char \<Rightarrow> bool" where
  "is_token_char ch \<longleftrightarrow>
     ch \<in> {CHR ''!'', CHR ''#'', CHR ''$'', CHR ''%'', CHR ''&'', CHR 0x27, CHR ''*'', CHR ''+'',
           CHR ''-'', CHR ''.'', CHR ''^'', CHR ''_'', CHR 0x60, CHR ''|'', CHR ''~''}
     \<or> is_alpha ch \<or> is_digit ch"

definition is_valid_method :: "string \<Rightarrow> bool" where
  "is_valid_method m \<longleftrightarrow> m \<noteq> [] \<and> list_all is_token_char m"

definition is_valid_target :: "string \<Rightarrow> bool" where
  "is_valid_target t \<longleftrightarrow>
     t \<noteq> [] \<and> t ! 0 = CHR ''/'' \<and>
     list_all (\<lambda>ch. \<not> (byte ch \<le> 0x20 \<or> byte ch \<ge> 0x7f) \<and> \<not> (ch = CHR ''#'' \<or> ch = CHR 0x5C)) t"

definition is_valid_version :: "string \<Rightarrow> bool" where
  "is_valid_version v \<longleftrightarrow> v = ''HTTP/1.0'' \<or> v = ''HTTP/1.1''"

definition parse_component :: "string \<Rightarrow> int option" where
  "parse_component c =
     (case from_chars_signed 32 c of
        Some (v, []) \<Rightarrow> Some v
      | _ \<Rightarrow> None)"

definition parse_version :: "string \<Rightarrow> (int \<times> int) option" where
  "parse_version v =
     (if length v \<noteq> 8 \<or> sv_substr v 0 5 \<noteq> ''HTTP/'' then None
      else if v ! 6 \<noteq> CHR ''.'' then None
      else (case parse_component (sv_substr v 5 1) of
              None \<Rightarrow> None
            | Some major \<Rightarrow>
                (case parse_component (sv_substr v 7 1) of
                   None \<Rightarrow> None
                 | Some minor \<Rightarrow> Some (major, minor))))"

definition is_optional_whitespace :: "char \<Rightarrow> bool" where
  "is_optional_whitespace ch \<longleftrightarrow> ch = SP \<or> ch = HT"

definition trim_optional_whitespace :: "string \<Rightarrow> string" where
  "trim_optional_whitespace = trim_with is_optional_whitespace"

definition is_valid_header_name :: "string \<Rightarrow> bool" where
  "is_valid_header_name n \<longleftrightarrow> n \<noteq> [] \<and> list_all is_token_char n"

definition is_valid_header_value :: "string \<Rightarrow> bool" where
  "is_valid_header_value v \<longleftrightarrow>
     list_all (\<lambda>ch. ch = HT \<or> \<not> (byte ch < 0x20 \<or> byte ch = 0x7f)) v"

definition ascii_iequals :: "string \<Rightarrow> string \<Rightarrow> bool" where
  "ascii_iequals left right =
     (if length left \<noteq> length right then False else iequals_from left right 0)"

definition parse_header_line :: "string \<Rightarrow> header_field option" where
  "parse_header_line line =
     (if line = [] \<or> is_optional_whitespace (hd line) then None
      else (case sv_find_char line (CHR '':'') 0 of
              None \<Rightarrow> None
            | Some colon \<Rightarrow>
                if colon = 0 then None
                else (let name = sv_substr line 0 colon;
                          val = trim_optional_whitespace (drop (colon + 1) line)
                      in if \<not> is_valid_header_name name \<or> \<not> is_valid_header_value val then None
                         else Some \<lparr>hname = name, hvalue = val\<rparr>)))"

section \<open>Connection management (request.cpp)\<close>

definition connection_token_present :: "request \<Rightarrow> string \<Rightarrow> bool" where
  "connection_token_present r token =
     (case header_value r ''Connection'' of
        None \<Rightarrow> False
      | Some v \<Rightarrow>
          list_ex (\<lambda>part. ascii_iequals (trim_optional_whitespace part) token)
            (segments v (CHR '','') 0))"

definition keep_alive_requested :: "request \<Rightarrow> bool" where
  "keep_alive_requested r =
     (if version_major r = 1 \<and> version_minor r = 0 then connection_token_present r ''keep-alive''
      else if version_major r = 1 \<and> version_minor r = 1 then \<not> connection_token_present r ''close''
      else False)"

definition version_string :: "request \<Rightarrow> string" where
  "version_string r = ''HTTP/'' @ show_int (version_major r) @ ''.'' @ show_int (version_minor r)"

section \<open>The request parser (request.cpp)\<close>

text \<open>The loop over the header lines, from position \<open>line_begin\<close> with \<open>hs\<close> pushed so far.\<close>

function parse_headers ::
    "string \<Rightarrow> nat \<Rightarrow> header_field list \<Rightarrow> request_parse_error + header_field list" where
  "parse_headers hb line_begin hs =
     (if line_begin \<le> length hb then
        (case sv_find hb CRLF line_begin of
           None \<Rightarrow> Inl Invalid_header
         | Some line_end \<Rightarrow>
             if line_end = line_begin then Inr hs
             else (case parse_header_line (sv_substr hb line_begin (line_end - line_begin)) of
                     None \<Rightarrow> Inl Invalid_header
                   | Some h \<Rightarrow> parse_headers hb (line_end + 2) (hs @ [h])))
      else Inr hs)"
  by pat_completeness auto
termination
  by (relation "measure (\<lambda>(hb, b, hs). Suc (length hb) - b)") (auto dest!: sv_find_bounds)

declare parse_headers.simps [simp del]

definition parse :: "string \<Rightarrow> request_parse_error + request" where
  "parse hb =
     (case sv_find hb CRLF 0 of
        None \<Rightarrow> Inl Malformed_request_line
      | Some eol \<Rightarrow>
         (let line = sv_substr hb 0 eol in
          case sv_find_char line SP 0 of
            None \<Rightarrow> Inl Malformed_request_line
          | Some sp1 \<Rightarrow>
             (case sv_find_char line SP (sp1 + 1) of
                None \<Rightarrow> Inl Malformed_request_line
              | Some sp2 \<Rightarrow>
                 if sv_find_char line SP (sp2 + 1) \<noteq> None then Inl Malformed_request_line
                 else
                  (let m = sv_substr line 0 sp1;
                       t = sv_substr line (sp1 + 1) (sp2 - (sp1 + 1));
                       v = drop (sp2 + 1) line
                   in if \<not> is_valid_method m then Inl Invalid_method
                      else if \<not> is_valid_target t then Inl Invalid_target
                      else if \<not> is_valid_version v then Inl Invalid_version
                      else (case parse_version v of
                              None \<Rightarrow> Inl Invalid_version
                            | Some (major, minor) \<Rightarrow>
                                (case parse_headers hb (eol + 2) [] of
                                   Inl e \<Rightarrow> Inl e
                                 | Inr hs \<Rightarrow>
                                     Inr \<lparr>version_major = major, version_minor = minor,
                                          req_method = m, target = t, req_headers = hs\<rparr>))))))"

section \<open>The grammar the parser implements\<close>

text \<open>One header line: a token, a colon, and a value between optional whitespace.\<close>

definition header_line_of :: "string \<Rightarrow> header_field \<Rightarrow> bool" where
  "header_line_of line h \<longleftrightarrow>
     (\<exists>rest. line = hname h @ CHR '':'' # rest \<and> hvalue h = strip is_optional_whitespace rest)
     \<and> is_valid_header_name (hname h) \<and> is_valid_header_value (hvalue h)"

definition version_of :: "string \<Rightarrow> int \<Rightarrow> int \<Rightarrow> bool" where
  "version_of v major minor \<longleftrightarrow>
     v = ''HTTP/1.0'' \<and> major = 1 \<and> minor = 0 \<or> v = ''HTTP/1.1'' \<and> major = 1 \<and> minor = 1"

text \<open>A header block: request line, header lines, empty line; what follows is ignored.\<close>

definition request_grammar :: "string \<Rightarrow> request \<Rightarrow> bool" where
  "request_grammar hb r \<longleftrightarrow>
     is_valid_method (req_method r) \<and> is_valid_target (target r) \<and>
     (\<exists>v lines rest.
        hb = crlf_lines ((req_method r @ SP # target r @ SP # v) # lines) @ CRLF @ rest \<and>
        version_of v (version_major r) (version_minor r) \<and>
        list_all2 header_line_of lines (req_headers r))"

definition wf_header :: "header_field \<Rightarrow> bool" where
  "wf_header h \<longleftrightarrow>
     is_valid_header_name (hname h) \<and> is_valid_header_value (hvalue h) \<and>
     stripped is_optional_whitespace (hvalue h)"

definition wf_request :: "request \<Rightarrow> bool" where
  "wf_request r \<longleftrightarrow>
     is_valid_method (req_method r) \<and> is_valid_target (target r) \<and>
     version_major r = 1 \<and> (version_minor r = 0 \<or> version_minor r = 1) \<and>
     list_all wf_header (req_headers r)"

definition print_header :: "header_field \<Rightarrow> string" where
  "print_header h = hname h @ '': '' @ hvalue h"

definition print_request :: "request \<Rightarrow> string" where
  "print_request r =
     crlf_lines ((req_method r @ SP # target r @ SP # version_string r) # map print_header (req_headers r))
     @ CRLF"

section \<open>Lemmas\<close>

lemma ascii_iequals_header_name_equals: "ascii_iequals = header_name_equals"
  by (intro ext) (simp add: ascii_iequals_def header_name_equals_def)

lemma trim_optional_whitespace_strip:
  "trim_optional_whitespace s = strip is_optional_whitespace s"
  by (simp add: trim_optional_whitespace_def trim_with_strip)

lemma token_char_props:
  "is_token_char c \<Longrightarrow> c \<noteq> SP \<and> c \<noteq> HT \<and> c \<noteq> CR \<and> c \<noteq> LF \<and> c \<noteq> CHR '':''"
  by (auto simp: is_token_char_def is_alpha_def is_digit_def in_range_def)

lemma token_string_props:
  "list_all is_token_char s \<Longrightarrow>
     SP \<notin> set s \<and> HT \<notin> set s \<and> CR \<notin> set s \<and> LF \<notin> set s \<and> CHR '':'' \<notin> set s"
  using token_char_props unfolding list_all_iff by blast

lemma target_props:
  assumes "is_valid_target t"
  shows "SP \<notin> set t \<and> CR \<notin> set t \<and> LF \<notin> set t"
proof -
  from assms have "list_all (\<lambda>ch. \<not> byte ch \<le> 0x20) t"
    by (auto simp: is_valid_target_def elim: list.pred_mono_strong)
  from not_in_list_all [OF this, of SP] not_in_list_all [OF this, of CR]
    not_in_list_all [OF this, of LF]
  show ?thesis by simp
qed

lemma header_value_props:
  assumes "is_valid_header_value v"
  shows "CR \<notin> set v \<and> LF \<notin> set v"
proof -
  from assms have l: "list_all (\<lambda>ch. ch = HT \<or> \<not> (byte ch < 0x20 \<or> byte ch = 0x7f)) v"
    by (simp add: is_valid_header_value_def)
  from not_in_list_all [OF l, of CR] not_in_list_all [OF l, of LF] show ?thesis by simp
qed

lemma parse_version_of: "is_valid_version v \<Longrightarrow> parse_version v = Some (1, if v = ''HTTP/1.0'' then 0 else 1)"
  by (auto simp: is_valid_version_def parse_version_def parse_component_def sv_substr_def
      from_chars_signed_def is_digit_def in_range_def digits_value_def digit_value_def)

lemma version_of_iff:
  "version_of v a b \<longleftrightarrow> is_valid_version v \<and> parse_version v = Some (a, b)"
  by (auto simp: version_of_def is_valid_version_def parse_version_of)

subsection \<open>Header lines\<close>

lemma parse_header_line_iff: "parse_header_line line = Some h \<longleftrightarrow> header_line_of line h"
proof
  assume p: "parse_header_line line = Some h"
  then obtain colon where c: "sv_find_char line (CHR '':'') 0 = Some colon"
    by (auto simp: parse_header_line_def split: if_splits option.splits)
  from sv_find_char_0 [OF c] obtain bs
    where bs: "line = take colon line @ CHR '':'' # bs" "length (take colon line) = colon" by blast
  then have "drop (colon + 1) line = bs"
    by (metis append_eq_conv_conj drop_Suc_Cons drop_drop Suc_eq_plus1 add.commute drop0)
  with p c bs show "header_line_of line h"
    by (auto simp: parse_header_line_def header_line_of_def sv_substr_def Let_def
        trim_optional_whitespace_strip split: if_splits)
next
  assume "header_line_of line h"
  then obtain rest where r: "line = hname h @ CHR '':'' # rest"
      "hvalue h = strip is_optional_whitespace rest"
      "is_valid_header_name (hname h)" "is_valid_header_value (hvalue h)"
    by (auto simp: header_line_of_def)
  then have n: "hname h \<noteq> []" "CHR '':'' \<notin> set (hname h)" "SP \<notin> set (hname h)" "HT \<notin> set (hname h)"
    using token_string_props [of "hname h"] by (auto simp: is_valid_header_name_def)
  then have "\<not> is_optional_whitespace (hd line)"
    using r(1) by (cases "hname h") (auto simp: is_optional_whitespace_def)
  moreover have "sv_find_char line (CHR '':'') 0 = Some (length (hname h))"
    using sv_find_char_hit [of "[]" 0 "CHR '':''" "hname h" rest] n r(1) by simp
  ultimately show "parse_header_line line = Some h"
    using r n by (simp add: parse_header_line_def sv_substr_def trim_optional_whitespace_strip Let_def)
qed

lemma strip_decomp: "\<exists>as bs. s = as @ strip ws s @ bs \<and> list_all ws as \<and> list_all ws bs"
proof -
  let ?d = "dropWhile ws s"
  have "s = takeWhile ws s @ ?d" by simp
  moreover have "?d = rev (dropWhile ws (rev ?d)) @ rev (takeWhile ws (rev ?d))"
    by (metis rev_append rev_rev_ident takeWhile_dropWhile_id)
  moreover have "list_all ws (takeWhile ws s)" "list_all ws (rev (takeWhile ws (rev ?d)))"
    by (auto simp: list_all_iff dest: set_takeWhileD)
  ultimately show ?thesis unfolding strip_def by metis
qed

lemma header_line_ok: "header_line_of line h \<Longrightarrow> line_ok line"
proof -
  assume "header_line_of line h"
  then obtain rest where r: "line = hname h @ CHR '':'' # rest"
      "hvalue h = strip is_optional_whitespace rest"
      "is_valid_header_name (hname h)" "is_valid_header_value (hvalue h)"
    by (auto simp: header_line_of_def)
  obtain as bs where "rest = as @ hvalue h @ bs"
      "list_all is_optional_whitespace as" "list_all is_optional_whitespace bs"
    using strip_decomp r(2) by metis
  moreover have "\<And>c. is_optional_whitespace c \<Longrightarrow> c \<noteq> CR \<and> c \<noteq> LF"
    by (auto simp: is_optional_whitespace_def)
  ultimately have "CR \<notin> set rest" "LF \<notin> set rest"
    using header_value_props [OF r(4)] by (auto simp: list_all_iff)
  then show "line_ok line"
    using r token_string_props [of "hname h"] by (auto simp: line_ok_def is_valid_header_name_def)
qed

lemma parse_headers_complete:
  "list_all2 header_line_of ls hs \<Longrightarrow> length pre = b \<Longrightarrow>
     parse_headers (pre @ crlf_lines ls @ CR # LF # rest) b acc = Inr (acc @ hs)"
proof (induction ls hs arbitrary: pre b acc rule: list_all2_induct)
  case Nil
  have "sv_find (pre @ CR # LF # rest) CRLF b = Some b"
    using sv_find_CRLF [of pre b "[]" rest] Nil by simp
  with Nil show ?case by (simp add: parse_headers.simps [of _ b])
next
  case (Cons l ls h hs)
  let ?hb = "pre @ l @ CR # LF # crlf_lines ls @ CR # LF # rest"
  have l: "l \<noteq> []" "CR \<notin> set l" using header_line_ok [OF Cons.hyps(1)] by (auto simp: line_ok_def)
  have find: "sv_find ?hb CRLF b = Some (b + length l)"
    using sv_find_CRLF [of pre b l "crlf_lines ls @ CR # LF # rest"] Cons.prems l by simp
  have sub: "sv_substr ?hb b (length l) = l" using Cons.prems by (simp add: sv_substr_def)
  have "parse_headers ((pre @ l @ CRLF) @ crlf_lines ls @ CR # LF # rest) (b + length l + 2) (acc @ [h])
        = Inr ((acc @ [h]) @ hs)"
    by (rule Cons.IH) (use Cons.prems in simp)
  moreover have "parse_header_line l = Some h" using Cons.hyps(1) by (simp add: parse_header_line_iff)
  ultimately show ?case
    using find sub l Cons.prems by (simp add: parse_headers.simps [of ?hb b acc])
qed

lemma sv_find_CRLF_split:
  "sv_find hb CRLF b = Some e \<Longrightarrow>
     drop b hb = sv_substr hb b (e - b) @ CR # LF # drop (e + 2) hb \<and> b \<le> e \<and> e + 2 \<le> length hb"
proof -
  assume "sv_find hb CRLF b = Some e"
  then have f: "b \<le> e" "e + 2 \<le> length hb" "take 2 (drop e hb) = CRLF"
    by (auto dest!: sv_find_bounds simp: numeral_2_eq_2)
  have "drop b hb = take (e - b) (drop b hb) @ drop e hb"
    using f(1) by (metis append_take_drop_id drop_drop le_add_diff_inverse2)
  also have "drop e hb = CRLF @ drop (e + 2) hb"
    using f(3) by (metis add.commute append_take_drop_id drop_drop)
  finally show ?thesis using f by (simp add: sv_substr_def)
qed

lemma parse_headers_sound:
  "parse_headers hb b acc = Inr res \<Longrightarrow> b \<le> length hb \<Longrightarrow>
     \<exists>ls hs rest. drop b hb = crlf_lines ls @ CRLF @ rest \<and> res = acc @ hs \<and> list_all2 header_line_of ls hs"
proof (induction hb b acc rule: parse_headers.induct)
  case (1 hb b acc)
  from "1.prems" obtain e where e: "sv_find hb CRLF b = Some e"
    by (auto simp: parse_headers.simps [of hb b] split: option.splits)
  note split = sv_find_CRLF_split [OF e]
  show ?case
  proof (cases "e = b")
    case True
    with "1.prems" e split show ?thesis
      by (intro exI [of _ "[]"] exI [of _ "[]"] exI [of _ "drop (b + 2) hb"])
        (simp add: parse_headers.simps [of hb b] sv_substr_def)
  next
    case False
    then obtain h where h: "parse_header_line (sv_substr hb b (e - b)) = Some h"
        "parse_headers hb (e + 2) (acc @ [h]) = Inr res"
      using "1.prems" e by (auto simp: parse_headers.simps [of hb b] split: option.splits)
    obtain ls hs rest where r: "drop (e + 2) hb = crlf_lines ls @ CRLF @ rest"
        "res = (acc @ [h]) @ hs" "list_all2 header_line_of ls hs"
      using "1.IH" [OF _ e False h(1)] "1.prems"(2) h(2) split by auto
    then show ?thesis
      using split h(1)
      by (intro exI [of _ "sv_substr hb b (e - b) # ls"] exI [of _ "h # hs"] exI [of _ rest])
        (simp add: parse_header_line_iff)
  qed
qed

section \<open>The parser implements the grammar\<close>

lemma parse_sound_grammar: "parse hb = Inr r \<Longrightarrow> request_grammar hb r"
proof -
  assume p: "parse hb = Inr r"
  then obtain eol where eol: "sv_find hb CRLF 0 = Some eol"
    by (auto simp: parse_def split: option.splits)
  let ?line = "sv_substr hb 0 eol"
  from p eol obtain sp1 where sp1: "sv_find_char ?line SP 0 = Some sp1"
    by (auto simp: parse_def Let_def split: option.splits)
  with p eol obtain sp2 where sp2: "sv_find_char ?line SP (sp1 + 1) = Some sp2"
    by (auto simp: parse_def Let_def split: option.splits)
  let ?m = "sv_substr ?line 0 sp1" and ?t = "sv_substr ?line (sp1 + 1) (sp2 - (sp1 + 1))"
    and ?v = "drop (sp2 + 1) ?line"
  from p eol sp1 sp2 obtain major minor hs
    where valid: "is_valid_method ?m" "is_valid_target ?t" "is_valid_version ?v"
      and ver: "parse_version ?v = Some (major, minor)"
      and hs: "parse_headers hb (eol + 2) [] = Inr hs"
      and r: "r = \<lparr>version_major = major, version_minor = minor, req_method = ?m, target = ?t, req_headers = hs\<rparr>"
    by (auto simp: parse_def Let_def split: option.splits if_splits sum.splits)
  note hb = sv_find_CRLF_split [OF eol]
  have line: "?line = ?m @ SP # ?t @ SP # ?v"
    using sv_find_char_split [OF sp1] sv_find_char_split [OF sp2] by simp
  obtain ls rest where ls: "drop (eol + 2) hb = crlf_lines ls @ CRLF @ rest" "list_all2 header_line_of ls hs"
    using parse_headers_sound [OF hs] hb by auto
  have "hb = crlf_lines ((?m @ SP # ?t @ SP # ?v) # ls) @ CRLF @ rest"
    using hb ls(1) line by simp
  then show ?thesis
    unfolding request_grammar_def r
    using valid ver ls(2) by (auto simp: version_of_iff)
qed

lemma version_no_SP: "is_valid_version v \<Longrightarrow> SP \<notin> set v \<and> CR \<notin> set v"
  by (auto simp: is_valid_version_def)

lemma parse_complete_grammar: "request_grammar hb r \<Longrightarrow> parse hb = Inr r"
proof -
  assume "request_grammar hb r"
  then obtain v ls rest where m: "is_valid_method (req_method r)" and t: "is_valid_target (target r)"
    and hb: "hb = crlf_lines ((req_method r @ SP # target r @ SP # v) # ls) @ CRLF @ rest"
    and v: "is_valid_version v" "parse_version v = Some (version_major r, version_minor r)"
    and ls: "list_all2 header_line_of ls (req_headers r)"
    by (auto simp: request_grammar_def version_of_iff)
  let ?m = "req_method r" and ?t = "target r"
  let ?line = "?m @ SP # ?t @ SP # v"
  let ?tail = "crlf_lines ls @ CR # LF # rest"
  have nm: "SP \<notin> set ?m" "CR \<notin> set ?m"
    using m token_string_props by (auto simp: is_valid_method_def)
  have nt: "SP \<notin> set ?t" "CR \<notin> set ?t" using target_props [OF t] by auto
  have nv: "SP \<notin> set v" "CR \<notin> set v" using version_no_SP [OF v(1)] by auto
  have eol: "sv_find hb CRLF 0 = Some (length ?line)"
    using sv_find_CRLF [of "[]" 0 ?line ?tail] nm nt nv hb by simp
  have line: "sv_substr hb 0 (length ?line) = ?line" using hb by (simp add: sv_substr_def)
  have sp1: "sv_find_char ?line SP 0 = Some (length ?m)"
    using sv_find_char_hit [of "[]" 0 SP ?m "?t @ SP # v"] nm by simp
  have sp2: "sv_find_char ?line SP (length ?m + 1) = Some (length ?m + 1 + length ?t)"
    using sv_find_char_hit [of "?m @ [SP]" "length ?m + 1" SP ?t v] nt by simp
  have sp3: "sv_find_char ?line SP (length ?m + 1 + length ?t + 1) = None"
    using nv by (simp add: sv_find_char_None)
  have hs: "parse_headers hb (length ?line + 2) [] = Inr (req_headers r)"
    using parse_headers_complete [OF ls, of "?line @ CRLF" "length ?line + 2" rest "[]"] hb by simp
  show "parse hb = Inr r"
    using m t v sp1 sp2 sp3 hs eol line
    by (simp add: parse_def Let_def sv_substr_def)
qed

text \<open>
  C5 (equivalence). The positional parser \<^verbatim>\<open>request::parse\<close> accepts exactly the header blocks
  of the grammar and returns exactly the request they denote: method, target, version and
  the header list in order, values without surrounding optional whitespace. It decides the
  language: no block outside it is accepted, none inside it is rejected.
\<close>

theorem parse_iff_grammar: "parse hb = Inr r \<longleftrightarrow> request_grammar hb r"
  using parse_sound_grammar parse_complete_grammar by blast

section \<open>Well-formed requests and the round trip\<close>

lemma header_line_wf: "header_line_of line h \<Longrightarrow> wf_header h"
  by (auto simp: header_line_of_def wf_header_def stripped_strip)

lemma grammar_wf: "request_grammar hb r \<Longrightarrow> wf_request r"
  by (auto simp: request_grammar_def wf_request_def version_of_def list_all2_conv_all_nth
      list_all_length intro: header_line_wf)

text \<open>
  Every request the parser returns is well formed: a non-empty token
  as method, an origin-form target of visible ASCII without fragment or backslash, version
  1.0 or 1.1, token header names, and header values free of control characters (so of CR
  and LF) and of surrounding whitespace.
\<close>

theorem parse_wf: "parse hb = Inr r \<Longrightarrow> wf_request r"
  by (blast intro: grammar_wf parse_sound_grammar)

definition sample_block :: string where
  "sample_block = ''GET /a HTTP/1.1'' @ CRLF @ ''Host:  x '' @ CRLF @ CRLF"

definition sample_request :: request where
  "sample_request =
     \<lparr>version_major = 1, version_minor = 1, req_method = ''GET'', target = ''/a'',
      req_headers = [\<lparr>hname = ''Host'', hvalue = ''x''\<rparr>]\<rparr>"

lemma parse_sample: "parse sample_block = Inr sample_request"
  by code_simp

theorem parse_wf_witness: "parse sample_block = Inr sample_request \<and> wf_request sample_request"
  using parse_sample parse_wf [OF parse_sample] by simp

lemma show_int_small [simp]: "show_int 1 = ''1''" "show_int 0 = ''0''"
  by code_simp+

lemma print_header_line: "wf_header h \<Longrightarrow> header_line_of (print_header h) h"
  by (auto simp: wf_header_def header_line_of_def print_header_def strip_pad strip_id
      is_optional_whitespace_def)

lemma print_request_grammar: "wf_request r \<Longrightarrow> request_grammar (print_request r @ rest) r"
proof -
  assume wf: "wf_request r"
  then have "list_all2 header_line_of (map print_header (req_headers r)) (req_headers r)"
    by (auto simp: wf_request_def list_all2_conv_all_nth list_all_length intro: print_header_line)
  moreover have "version_of (version_string r) (version_major r) (version_minor r)"
    using wf by (auto simp: wf_request_def version_of_def version_string_def)
  ultimately have "\<exists>v lines rest'.
      print_request r @ rest = crlf_lines ((req_method r @ SP # target r @ SP # v) # lines) @ CRLF @ rest' \<and>
      version_of v (version_major r) (version_minor r) \<and> list_all2 header_line_of lines (req_headers r)"
    by (intro exI [of _ "version_string r"] exI [of _ "map print_header (req_headers r)"] exI [of _ rest])
      (simp add: print_request_def)
  with wf show ?thesis by (simp add: request_grammar_def wf_request_def)
qed

text \<open>
  C28 (roundtrip). Printing a well-formed request and parsing the text gives the request
  back, whatever bytes follow the empty line: the parser never looks past the header block.
\<close>

theorem parse_print: "wf_request r \<Longrightarrow> parse (print_request r @ rest) = Inr r"
  by (blast intro: parse_complete_grammar print_request_grammar)

theorem parse_print_witness:
  "wf_request sample_request \<and> parse (print_request sample_request @ ''body'') = Inr sample_request"
proof -
  have h: "wf_request sample_request" by code_simp
  show ?thesis using h parse_print [OF h, of "''body''"] by simp
qed

text \<open>
  \<^verbatim>\<open>request::connection_token_present\<close> finds a token exactly when one of
  the comma-separated parts of the first Connection header equals it after trimming,
  ignoring ASCII case.
\<close>

theorem connection_token_present_iff:
  "connection_token_present r token \<longleftrightarrow>
     (\<exists>v part. header_value r ''Connection'' = Some v \<and> part \<in> set (split_on (CHR '','') v) \<and>
        map ascii_lower (strip is_optional_whitespace part) = map ascii_lower token)"
  by (auto simp: connection_token_present_def segments_0 list_ex_iff trim_optional_whitespace_strip
      ascii_iequals_header_name_equals header_name_equals_map split: option.splits)

lemma find_header_in_Some:
  "find_header_in hs name = Some h \<Longrightarrow> h \<in> set hs \<and> header_name_equals (hname h) name"
  by (auto simp: find_header_in_def find_Some_iff)

lemma find_header_in_None:
  "find_header_in hs name = None \<longleftrightarrow> (\<forall>h \<in> set hs. \<not> header_name_equals (hname h) name)"
  by (auto simp: find_header_in_def find_None_iff)

lemma find_header_in_append:
  "find_header_in (xs @ ys) n =
     (case find_header_in xs n of None \<Rightarrow> find_header_in ys n | Some h \<Rightarrow> Some h)"
  by (induction xs) (auto simp: find_header_in_def)

lemma header_name_equals_length: "length a \<noteq> length b \<Longrightarrow> \<not> header_name_equals a b"
  by (simp add: header_name_equals_def)

end
