(* ===== verification/Http_Response.thy ===== *)
theory Http_Response
  imports Http_Request
begin

text \<open>
  HTTP responses and their wire format: \<^verbatim>\<open>src/src/http/response.h\<close> and
  \<^verbatim>\<open>src/src/http/response.cpp\<close>. The header lists are built by loadable modules from
  arbitrary bytes, so the interesting facts are about what \<open>serialize\<close> lets through.
\<close>

section \<open>Model\<close>

datatype connection_policy = Close | Keep_alive

record response =
  status :: int
  reason :: string
  content_type :: string
  resp_headers :: "header_field list"
  body :: string
  content_length :: "nat option"

text \<open>The default member initialisers.\<close>

definition empty_response :: response where
  "empty_response =
     \<lparr>status = 200, reason = ''OK'', content_type = [], resp_headers = [], body = [],
      content_length = None\<rparr>"

definition resp_find_header :: "response \<Rightarrow> string \<Rightarrow> header_field option" where
  "resp_find_header r name = find_header_in (resp_headers r) name"

text \<open>response.cpp has its own copy of the token test; it is the same switch as in request.cpp.\<close>

definition resp_is_token_char :: "char \<Rightarrow> bool" where
  "resp_is_token_char ch \<longleftrightarrow>
     ch \<in> {CHR ''!'', CHR ''#'', CHR ''$'', CHR ''%'', CHR ''&'', CHR 0x27, CHR ''*'', CHR ''+'',
           CHR ''-'', CHR ''.'', CHR ''^'', CHR ''_'', CHR 0x60, CHR ''|'', CHR ''~''}
     \<or> is_alpha ch \<or> is_digit ch"

lemma resp_is_token_char_eq [simp]: "resp_is_token_char = is_token_char"
  by (simp add: fun_eq_iff resp_is_token_char_def is_token_char_def)

definition valid_header_name :: "string \<Rightarrow> bool" where
  "valid_header_name n \<longleftrightarrow> n \<noteq> [] \<and> list_all resp_is_token_char n"

definition valid_header_value :: "string \<Rightarrow> bool" where
  "valid_header_value v \<longleftrightarrow> index_of (\<lambda>c. c = CR \<or> c = LF) v = None"

definition validate_header :: "string \<Rightarrow> string \<Rightarrow> unit result" where
  "validate_header name val =
     (if \<not> valid_header_name name then Inl (Invalid_Argument ''invalid response header name'')
      else if \<not> valid_header_value val then Inl (Invalid_Argument ''invalid response header value'')
      else Inr ())"

definition add_header :: "string \<Rightarrow> string \<Rightarrow> response \<Rightarrow> response result" where
  "add_header name val r =
     bindE (validate_header name val)
       (\<lambda>_. Inr (r\<lparr>resp_headers := resp_headers r @ [\<lparr>hname = name, hvalue = val\<rparr>]\<rparr>))"

text \<open>\<^verbatim>\<open>find_if\<close> and assignment through the iterator: the first match gets the new value.\<close>

fun assign_first :: "string \<Rightarrow> string \<Rightarrow> header_field list \<Rightarrow> header_field list option" where
  "assign_first name val [] = None"
| "assign_first name val (h # hs) =
     (if header_name_equals (hname h) name then Some (h\<lparr>hvalue := val\<rparr> # hs)
      else map_option ((#) h) (assign_first name val hs))"

definition set_header :: "string \<Rightarrow> string \<Rightarrow> response \<Rightarrow> response result" where
  "set_header name val r =
     bindE (validate_header name val)
       (\<lambda>_. case assign_first name val (resp_headers r) of
              Some hs \<Rightarrow> Inr (r\<lparr>resp_headers := hs\<rparr>)
            | None \<Rightarrow> add_header name val r)"

definition is_reserved_header :: "string \<Rightarrow> bool \<Rightarrow> bool" where
  "is_reserved_header name content_type_written =
     (if header_name_equals name ''Connection'' then True
      else if header_name_equals name ''Content-Length'' then True
      else if content_type_written \<and> header_name_equals name ''Content-Type'' then True
      else False)"

definition content_type_written :: "response \<Rightarrow> bool" where
  "content_type_written r \<longleftrightarrow> content_type r \<noteq> [] \<and> valid_header_value (content_type r)"

definition wire_body_size :: "response \<Rightarrow> nat" where
  "wire_body_size r = (case content_length r of None \<Rightarrow> length (body r) | Some n \<Rightarrow> n)"

definition policy_text :: "connection_policy \<Rightarrow> string" where
  "policy_text p = (if p = Keep_alive then ''keep-alive'' else ''close'')"

definition emit_header :: "bool \<Rightarrow> header_field \<Rightarrow> string" where
  "emit_header ctw h =
     (if is_reserved_header (hname h) ctw then []
      else if \<not> valid_header_name (hname h) \<or> \<not> valid_header_value (hvalue h) then []
      else hname h @ '': '' @ hvalue h @ CRLF)"

definition serialize :: "response \<Rightarrow> connection_policy \<Rightarrow> string" where
  "serialize r policy =
     ''HTTP/1.1 '' @ show_int (status r) @ '' '' @ reason r @ CRLF
     @ ''Connection: '' @ policy_text policy @ CRLF
     @ ''Content-Length: '' @ show_nat (wire_body_size r) @ CRLF
     @ (if content_type_written r then ''Content-Type: '' @ content_type r @ CRLF else [])
     @ concat (map (emit_header (content_type_written r)) (resp_headers r))
     @ CRLF
     @ body r"

definition text_response :: "int \<Rightarrow> string \<Rightarrow> string \<Rightarrow> response" where
  "text_response s r msg =
     empty_response\<lparr>status := s, reason := r, content_type := ''text/plain; charset=utf-8'',
                    body := msg\<rparr>"

section \<open>What is on the wire\<close>

text \<open>The header fields of the message, in order, as a client reads them.\<close>

definition forwarded :: "response \<Rightarrow> header_field \<Rightarrow> bool" where
  "forwarded r h \<longleftrightarrow>
     \<not> is_reserved_header (hname h) (content_type_written r) \<and>
     valid_header_name (hname h) \<and> valid_header_value (hvalue h)"

definition wire_headers :: "response \<Rightarrow> connection_policy \<Rightarrow> header_field list" where
  "wire_headers r p =
     [\<lparr>hname = ''Connection'', hvalue = policy_text p\<rparr>,
      \<lparr>hname = ''Content-Length'', hvalue = show_nat (wire_body_size r)\<rparr>]
     @ (if content_type_written r then [\<lparr>hname = ''Content-Type'', hvalue = content_type r\<rparr>] else [])
     @ filter (forwarded r) (resp_headers r)"

definition status_line :: "response \<Rightarrow> string" where
  "status_line r = ''HTTP/1.1 '' @ show_int (status r) @ '' '' @ reason r"

definition head_lines :: "response \<Rightarrow> connection_policy \<Rightarrow> string list" where
  "head_lines r p = status_line r # map print_header (wire_headers r p)"

definition named :: "string \<Rightarrow> header_field list \<Rightarrow> header_field list" where
  "named n hs = filter (\<lambda>h. header_name_equals (hname h) n) hs"

lemma valid_header_value_iff: "valid_header_value v \<longleftrightarrow> CR \<notin> set v \<and> LF \<notin> set v"
  by (auto simp: valid_header_value_def index_of_eq_None)

lemma valid_header_name_eq: "valid_header_name = is_valid_header_name"
  by (intro ext) (simp add: valid_header_name_def is_valid_header_name_def)

lemma emit_header_lines:
  "concat (map (emit_header (content_type_written r)) hs) =
     crlf_lines (map print_header (filter (forwarded r) hs))"
  by (induction hs) (auto simp: emit_header_def forwarded_def print_header_def)

lemma serialize_lines: "serialize r p = crlf_lines (head_lines r p) @ CRLF @ body r"
  by (simp add: serialize_def head_lines_def status_line_def wire_headers_def emit_header_lines
      print_header_def)

lemma wire_header_valid:
  "h \<in> set (wire_headers r p) \<Longrightarrow> valid_header_name (hname h) \<and> valid_header_value (hvalue h)"
  by (auto simp: wire_headers_def forwarded_def valid_header_name_def valid_header_value_iff
      policy_text_def content_type_written_def is_token_char_def is_alpha_def in_range_def
      split: if_splits)

lemma print_header_line_ok:
  "valid_header_name (hname h) \<Longrightarrow> valid_header_value (hvalue h) \<Longrightarrow> line_ok (print_header h)"
  using token_string_props [of "hname h"]
  by (auto simp: line_ok_def print_header_def valid_header_name_def valid_header_value_iff)

lemma head_lines_ok:
  assumes "CR \<notin> set (reason r)" and "LF \<notin> set (reason r)" and "l \<in> set (head_lines r p)"
  shows "line_ok l"
proof (cases "l = status_line r")
  case True
  with assms show ?thesis by (simp add: line_ok_def status_line_def)
next
  case False
  with assms(3) obtain h where "h \<in> set (wire_headers r p)" "l = print_header h"
    by (auto simp: head_lines_def)
  then show ?thesis using wire_header_valid print_header_line_ok by blast
qed

text \<open>
  C19 (safety). No response splitting: whatever names and values the modules put in the
  header list and in the content type, the first empty line of the serialized message is
  the one \<^verbatim>\<open>response::serialize\<close> wrote, so the head consists of exactly the lines of
  \<open>head_lines\<close> and everything after it is the body. Only the reason phrase is
  written unchecked, hence the hypothesis on it.
\<close>

theorem serialize_no_splitting:
  assumes "CR \<notin> set (reason r)" and "LF \<notin> set (reason r)"
  shows "\<exists>e. index_sub HEND (serialize r p) = Some e \<and>
             take (e + 2) (serialize r p) = crlf_lines (head_lines r p) \<and>
             drop (e + 4) (serialize r p) = body r"
proof -
  let ?h = "crlf_lines (head_lines r p)"
  have ok: "\<forall>l \<in> set (head_lines r p). line_ok l" using head_lines_ok [OF assms] by blast
  have ne: "head_lines r p \<noteq> []" by (simp add: head_lines_def)
  then have len: "2 \<le> length ?h" by (cases "head_lines r p") auto
  have "index_sub HEND (serialize r p) = Some (length ?h - 2)"
    using index_sub_HEND [OF ne ok] by (simp add: serialize_lines)
  moreover have "take (length ?h - 2 + 2) (serialize r p) = ?h"
    using len by (simp add: serialize_lines)
  moreover have "drop (length ?h - 2 + 4) (serialize r p) = body r"
  proof -
    have "length ?h - 2 + 4 = length (?h @ CRLF)" using len by simp
    moreover have "serialize r p = (?h @ CRLF) @ body r" by (simp add: serialize_lines)
    ultimately show ?thesis by (metis append_eq_conv_conj)
  qed
  ultimately show ?thesis by blast
qed

definition sample_response :: response where
  "sample_response =
     (text_response 200 ''OK'' ''hi'')\<lparr>resp_headers := [\<lparr>hname = ''X-A'', hvalue = ''1'' @ CRLF @ CRLF\<rparr>]\<rparr>"

theorem serialize_no_splitting_witness:
  "CR \<notin> set (reason sample_response) \<and> LF \<notin> set (reason sample_response) \<and>
   (\<exists>e. index_sub HEND (serialize sample_response Close) = Some e \<and>
        take (e + 2) (serialize sample_response Close) = crlf_lines (head_lines sample_response Close) \<and>
        drop (e + 4) (serialize sample_response Close) = body sample_response)"
proof -
  have h: "CR \<notin> set (reason sample_response)" "LF \<notin> set (reason sample_response)"
    by code_simp+
  show ?thesis using h serialize_no_splitting [OF h] by simp
qed

lemma named_simps [simp]:
  "named n [] = []"
  "named n (h # hs) = (if header_name_equals (hname h) n then h # named n hs else named n hs)"
  by (simp_all add: named_def)

lemma named_forwarded_reserved:
  "(\<And>m. header_name_equals m n \<Longrightarrow> is_reserved_header m (content_type_written r)) \<Longrightarrow>
     named n (filter (forwarded r) hs) = []"
  by (auto simp: named_def filter_empty_conv forwarded_def)

text \<open>
  A module cannot override or duplicate the framing headers: the message
  carries exactly one Connection and one Content-Length field, with the values the server
  chose, and, when a valid content type is set, exactly one Content-Type field.
\<close>

theorem serialize_framing_headers:
  "named ''Connection'' (wire_headers r p) = [\<lparr>hname = ''Connection'', hvalue = policy_text p\<rparr>] \<and>
   named ''Content-Length'' (wire_headers r p) =
     [\<lparr>hname = ''Content-Length'', hvalue = show_nat (wire_body_size r)\<rparr>] \<and>
   named ''Content-Type'' (wire_headers r p) =
     (if content_type_written r then [\<lparr>hname = ''Content-Type'', hvalue = content_type r\<rparr>]
      else named ''Content-Type'' (filter (forwarded r) (resp_headers r)))"
proof -
  have f: "named n (filter (forwarded r) (resp_headers r)) = []"
    if "n \<in> {''Connection'', ''Content-Length''} \<or> n = ''Content-Type'' \<and> content_type_written r" for n
    using that by (intro named_forwarded_reserved) (auto simp: is_reserved_header_def)
  show ?thesis
    by (simp add: wire_headers_def f header_name_equals_length)
qed

section \<open>Editing the header list\<close>

lemma assign_first_None:
  "assign_first n v hs = None \<longleftrightarrow> find_header_in hs n = None"
  by (induction hs) (auto simp: find_header_in_def)

lemma assign_first_Some:
  "assign_first n v hs = Some hs' \<Longrightarrow>
     (\<exists>h. find_header_in hs n = Some h \<and> find_header_in hs' n = Some (h\<lparr>hvalue := v\<rparr>)) \<and>
     map hname hs' = map hname hs \<and>
     (\<forall>m. \<not> header_name_equals n m \<longrightarrow> find_header_in hs' m = find_header_in hs m)"
proof (induction hs arbitrary: hs')
  case Nil
  then show ?case by simp
next
  case (Cons h hs)
  show ?case
  proof (cases "header_name_equals (hname h) n")
    case True
    with Cons.prems show ?thesis by (auto simp: find_header_in_def header_name_equals_map)
  next
    case False
    with Cons.prems obtain ks where "assign_first n v hs = Some ks" "hs' = h # ks" by auto
    with Cons.IH False show ?thesis by (auto simp: find_header_in_def)
  qed
qed

lemma set_header_lookup:
  assumes "set_header n v r = Inr r'"
  shows "map_option hvalue (resp_find_header r' n) = Some v"
proof (cases "assign_first n v (resp_headers r)")
  case None
  then have "find_header_in (resp_headers r) n = None" by (simp add: assign_first_None)
  with None assms show ?thesis
    by (auto simp: set_header_def add_header_def outcome_simps resp_find_header_def
        find_header_in_append) (simp add: find_header_in_def)
next
  case (Some hs)
  with assms assign_first_Some [OF Some] show ?thesis
    by (auto simp: set_header_def outcome_simps resp_find_header_def)
qed

end
