(* ===== verification/Net_Stream.thy ===== *)
theory Net_Stream
  imports Peer_Address
begin

text \<open>
  Transport: \<^verbatim>\<open>src/src/net/io.h\<close>, \<^verbatim>\<open>src/src/net/socket.cpp\<close>, \<^verbatim>\<open>src/src/net/listener.cpp\<close>,
  \<^verbatim>\<open>src/src/net/plain_stream.cpp\<close> and \<^verbatim>\<open>src/src/tls/stream.cpp\<close>.
  The kernel and OpenSSL are the environment: what they answer to the calls of one
  connection is a list, consumed from the left, over which every statement quantifies. An
  exhausted list is a call that has not returned yet (\<open>None\<close>), so blocking is visible in
  the result. \<^verbatim>\<open>recv\<close> and \<^verbatim>\<open>SSL_read_ex\<close> never write more than the length they are given,
  which \<open>take n\<close> records.
  The locale \<open>byte_stream\<close> is what the HTTP layer relies on of
  \<^verbatim>\<open>net::stream::recv_some\<close>; both stream classes are instances.
\<close>

section \<open>I/O results (io.h)\<close>

datatype io_status = Io_ok | Io_closed | Io_timeout | Io_error

text \<open>\<^verbatim>\<open>read_result\<close> together with the bytes placed in the span; \<^verbatim>\<open>bytes_read\<close> is their number.\<close>

record read_result =
  rd_status :: io_status
  rd_bytes :: string

definition bytes_read :: "read_result \<Rightarrow> nat" where
  "bytes_read rr = length (rd_bytes rr)"

datatype errno =
    EINTR | EAGAIN | EWOULDBLOCK | EBADF | EFAULT | EINVAL | ENOTSOCK | EOPNOTSUPP | E_other nat

definition status_from_errno :: "errno \<Rightarrow> io_status" where
  "status_from_errno e = (if e = EAGAIN \<or> e = EWOULDBLOCK then Io_timeout else Io_error)"

text \<open>\<^verbatim>\<open>ssl_error_message\<close> (tls_error.h), given the text of the first queued error, if any.\<close>

definition ssl_error_message :: "string option \<Rightarrow> string \<Rightarrow> string" where
  "ssl_error_message err prefix = (case err of None \<Rightarrow> prefix | Some text \<Rightarrow> prefix @ '': '' @ text)"

section \<open>Sockets (socket.cpp)\<close>

text \<open>\<^verbatim>\<open>to_timeval\<close>: milliseconds, negative ones clamped, to seconds and microseconds.\<close>

definition to_timeval :: "int \<Rightarrow> int \<times> int" where
  "to_timeval timeout =
     (let t = (if timeout < 0 then 0 else timeout);
          secs = t div 1000;
          usecs = (t - secs * 1000) * 1000
      in (secs, usecs))"

datatype recv_answer =
    Recv_rc string       \<comment> \<open>\<open>rc \<ge> 0\<close> and the bytes received; none is the end of the stream\<close>
  | Recv_fail errno      \<comment> \<open>\<open>rc < 0\<close>\<close>

fun socket_recv_some :: "recv_answer list \<Rightarrow> nat \<Rightarrow> (read_result \<times> recv_answer list) option" where
  "socket_recv_some [] n = None"
| "socket_recv_some (Recv_fail e # os) n =
     (if e = EINTR then socket_recv_some os n
      else Some (\<lparr>rd_status = status_from_errno e, rd_bytes = []\<rparr>, os))"
| "socket_recv_some (Recv_rc bs # os) n =
     (if take n bs \<noteq> [] then Some (\<lparr>rd_status = Io_ok, rd_bytes = take n bs\<rparr>, os)
      else Some (\<lparr>rd_status = Io_closed, rd_bytes = []\<rparr>, os))"

datatype send_answer =
    Send_rc nat          \<comment> \<open>bytes the kernel took\<close>
  | Send_fail errno

text \<open>
  The send loop from \<open>sent\<close> on: final status, number of bytes handed to the kernel, rest of
  the environment. The kernel takes at most what it is offered.
\<close>

fun socket_send_from ::
    "send_answer list \<Rightarrow> string \<Rightarrow> nat \<Rightarrow> (io_status \<times> nat \<times> send_answer list) option" where
  "socket_send_from [] data sent =
     (if sent < length data then None else Some (Io_ok, sent, []))"
| "socket_send_from (a # os) data sent =
     (if sent < length data then
        (case a of
           Send_fail e \<Rightarrow>
             if e = EINTR then socket_send_from os data sent
             else Some (status_from_errno e, sent, os)
         | Send_rc k \<Rightarrow>
             let rc = min k (length data - sent)
             in if rc = 0 then Some (Io_closed, sent, os)
                else socket_send_from os data (sent + rc))
      else Some (Io_ok, sent, a # os))"

definition socket_send_all ::
    "send_answer list \<Rightarrow> string \<Rightarrow> (io_status \<times> nat \<times> send_answer list) option" where
  "socket_send_all os data = socket_send_from os data 0"

section \<open>Accepting (listener.cpp)\<close>

definition is_fatal_accept_error :: "errno \<Rightarrow> bool" where
  "is_fatal_accept_error e \<longleftrightarrow> e \<in> {EBADF, EFAULT, EINVAL, ENOTSOCK, EOPNOTSUPP}"

record accept_error =
  acc_error :: errno
  acc_fatal :: bool

definition make_accept_error :: "errno \<Rightarrow> accept_error" where
  "make_accept_error e = \<lparr>acc_error = e, acc_fatal = is_fatal_accept_error e\<rparr>"

text \<open>An answer of \<^verbatim>\<open>accept(2)\<close>: a descriptor and the peer's address, or an error.\<close>

datatype accept_answer = Accepted nat in_addr | Accept_fail errno

record socket =
  sock_fd :: nat
  peer_address :: string

fun listener_accept :: "accept_answer list \<Rightarrow> ((accept_error + socket) \<times> accept_answer list) option" where
  "listener_accept [] = None"
| "listener_accept (Accept_fail e # os) =
     (if e = EINTR then listener_accept os else Some (Inl (make_accept_error e), os))"
| "listener_accept (Accepted fd client # os) =
     Some (Inr \<lparr>sock_fd = fd, peer_address = format_client_address client\<rparr>, os)"

section \<open>TLS streams (tls/stream.cpp)\<close>

text \<open>
  \<^verbatim>\<open>SSL_get_error\<close>'s classification; for a system error, \<^verbatim>\<open>errno\<close> (\<open>None\<close> is 0).
\<close>

datatype ssl_error =
    SSL_ERROR_ZERO_RETURN | SSL_ERROR_WANT_READ | SSL_ERROR_WANT_WRITE
  | SSL_ERROR_SYSCALL "errno option" | SSL_ERROR_other

fun map_ssl_status :: "ssl_error \<Rightarrow> io_status" where
  "map_ssl_status SSL_ERROR_ZERO_RETURN = Io_closed"
| "map_ssl_status SSL_ERROR_WANT_READ = Io_timeout"
| "map_ssl_status SSL_ERROR_WANT_WRITE = Io_timeout"
| "map_ssl_status (SSL_ERROR_SYSCALL eno) =
     (case eno of
        None \<Rightarrow> Io_closed
      | Some e \<Rightarrow> if e = EAGAIN \<or> e = EWOULDBLOCK then Io_timeout else Io_error)"
| "map_ssl_status SSL_ERROR_other = Io_error"

text \<open>A successful \<^verbatim>\<open>SSL_read_ex\<close> delivers at least one byte.\<close>

datatype ssl_read_answer = Ssl_read char string | Ssl_read_fail ssl_error

fun tls_recv_some :: "ssl_read_answer list \<Rightarrow> nat \<Rightarrow> (read_result \<times> ssl_read_answer list) option" where
  "tls_recv_some [] n = None"
| "tls_recv_some (Ssl_read c cs # os) n =
     Some (\<lparr>rd_status = Io_ok, rd_bytes = take n (c # cs)\<rparr>, os)"
| "tls_recv_some (Ssl_read_fail e # os) n =
     Some (\<lparr>rd_status = map_ssl_status e, rd_bytes = []\<rparr>, os)"

datatype ssl_write_answer = Ssl_write nat | Ssl_write_fail ssl_error

fun tls_send_from ::
    "ssl_write_answer list \<Rightarrow> string \<Rightarrow> nat \<Rightarrow> (io_status \<times> nat \<times> ssl_write_answer list) option" where
  "tls_send_from [] data sent =
     (if sent < length data then None else Some (Io_ok, sent, []))"
| "tls_send_from (a # os) data sent =
     (if sent < length data then
        (case a of
           Ssl_write_fail e \<Rightarrow> Some (map_ssl_status e, sent, os)
         | Ssl_write k \<Rightarrow> tls_send_from os data (sent + min k (length data - sent)))
      else Some (Io_ok, sent, a # os))"

definition tls_send_all ::
    "ssl_write_answer list \<Rightarrow> string \<Rightarrow> (io_status \<times> nat \<times> ssl_write_answer list) option" where
  "tls_send_all os data = tls_send_from os data 0"

text \<open>\<^verbatim>\<open>SSL_accept\<close> returned 1, or failed with a classified error.\<close>

definition tls_handshake :: "ssl_error option \<Rightarrow> io_status" where
  "tls_handshake rc = (case rc of None \<Rightarrow> Io_ok | Some e \<Rightarrow> map_ssl_status e)"

section \<open>The stream contract\<close>

text \<open>
  \<open>ready s\<close> is a number of calls that will return from \<open>s\<close> on.
\<close>

locale byte_stream =
  fixes recv :: "'s \<Rightarrow> nat \<Rightarrow> (read_result \<times> 's) option"
    and ready :: "'s \<Rightarrow> nat"
  assumes recv_ok_bounds:
      "recv s n = Some (rr, s') \<Longrightarrow> rd_status rr = Io_ok \<Longrightarrow> 0 < n \<Longrightarrow>
         rd_bytes rr \<noteq> [] \<and> length (rd_bytes rr) \<le> n"
    and recv_ready:
      "0 < ready s \<Longrightarrow> \<exists>rr s'. recv s n = Some (rr, s') \<and> ready s \<le> Suc (ready s')"

definition answered :: "recv_answer list \<Rightarrow> nat" where
  "answered os = length (filter (\<lambda>a. a \<noteq> Recv_fail EINTR) os)"

lemma socket_recv_some_ok:
  "socket_recv_some os n = Some (rr, os') \<Longrightarrow> rd_status rr = Io_ok \<Longrightarrow>
     rd_bytes rr \<noteq> [] \<and> length (rd_bytes rr) \<le> n"
  by (induction os n rule: socket_recv_some.induct)
    (auto simp: status_from_errno_def split: if_splits)

lemma socket_recv_some_answered:
  "0 < answered os \<Longrightarrow>
     \<exists>rr os'. socket_recv_some os n = Some (rr, os') \<and> answered os \<le> Suc (answered os')"
  by (induction os n rule: socket_recv_some.induct) (auto simp: answered_def)

lemma accepted_peer: "listener_accept os = Some (Inr c, os') \<Longrightarrow> \<exists>a. peer_address c = format_client_address a"
  by (induction os rule: listener_accept.induct) (auto split: if_splits)

lemma map_ssl_status_not_ok [simp]: "map_ssl_status e \<noteq> Io_ok"
  by (cases e) (auto split: option.splits)

lemma tls_recv_some_ok:
  "tls_recv_some os n = Some (rr, os') \<Longrightarrow> rd_status rr = Io_ok \<Longrightarrow> 0 < n \<Longrightarrow>
     rd_bytes rr \<noteq> [] \<and> length (rd_bytes rr) \<le> n"
  by (induction os n rule: tls_recv_some.induct) auto

lemma tls_recv_some_ready:
  "0 < length os \<Longrightarrow> \<exists>rr os'. tls_recv_some os n = Some (rr, os') \<and> length os \<le> Suc (length os')"
  by (induction os n rule: tls_recv_some.induct) auto

interpretation plain: byte_stream socket_recv_some answered
  by unfold_locales (auto dest: socket_recv_some_ok socket_recv_some_answered)

interpretation tls: byte_stream tls_recv_some length
  by unfold_locales (auto dest: tls_recv_some_ok intro: tls_recv_some_ready)

section \<open>Sending\<close>

lemma socket_send_from_bounds:
  "socket_send_from os data sent = Some (st, k, os') \<Longrightarrow> sent \<le> length data \<Longrightarrow>
     sent \<le> k \<and> k \<le> length data \<and> (st = Io_ok \<longleftrightarrow> k = length data)"
proof (induction os data sent rule: socket_send_from.induct)
  case (1 data sent)
  then show ?case by (auto split: if_splits)
next
  case (2 a os data sent)
  show ?case
  proof (cases a)
    case (Send_rc k')
    let ?rc = "min k' (length data - sent)"
    show ?thesis
    proof (cases "sent < length data \<and> ?rc \<noteq> 0")
      case True
      with "2.prems" Send_rc have rec: "socket_send_from os data (sent + ?rc) = Some (st, k, os')"
        by (simp add: Let_def)
      have "sent + ?rc \<le> length data" using True by linarith
      with "2.IH"(1) [OF _ Send_rc refl _ rec] True
      have "sent + ?rc \<le> k \<and> k \<le> length data \<and> (st = Io_ok \<longleftrightarrow> k = length data)"
        by blast
      then show ?thesis by linarith
    next
      case False
      with 2 Send_rc show ?thesis by (auto simp: Let_def split: if_splits)
    qed
  next
    case (Send_fail e)
    with 2 show ?thesis by (auto simp: status_from_errno_def split: if_splits)
  qed
qed

lemma tls_send_from_bounds:
  "tls_send_from os data sent = Some (st, k, os') \<Longrightarrow> sent \<le> length data \<Longrightarrow>
     sent \<le> k \<and> k \<le> length data \<and> (st = Io_ok \<longrightarrow> k = length data)"
proof (induction os data sent rule: tls_send_from.induct)
  case (1 data sent)
  then show ?case by (auto split: if_splits)
next
  case (2 a os data sent)
  show ?case
  proof (cases a)
    case (Ssl_write k')
    with 2 show ?thesis by (fastforce split: if_splits)
  next
    case (Ssl_write_fail e)
    with "2.prems" show ?thesis by (auto split: if_splits)
  qed
qed

end
