(* ===== verification/Http_Framing.thy ===== *)
theory Http_Framing
  imports Http_Response Net_Stream
begin

text \<open>
  The receive buffer (\<^verbatim>\<open>src/src/http/buffer.cpp\<close>) and header framing
  (\<^verbatim>\<open>src/src/http/framing.cpp\<close>). \<open>read_header_block\<close> is generic in the virtual
  \<^verbatim>\<open>stream::recv_some\<close>; its loop has no bound of its own, so it is a partial function, and
  inside the locale \<open>byte_stream\<close> it is proved to return.
\<close>

section \<open>Receive buffer (buffer.h, buffer.cpp)\<close>

record buffer =
  buf_data :: string
  buf_size :: nat

definition empty_buffer :: buffer where
  "empty_buffer = \<lparr>buf_data = [], buf_size = 0\<rparr>"

text \<open>\<^verbatim>\<open>write_span\<close>: the grown buffer and the length of the span behind the committed bytes.\<close>

definition write_span :: "buffer \<Rightarrow> nat \<Rightarrow> buffer \<times> nat" where
  "write_span b min_free =
     (let b' = (if length (buf_data b) < buf_size b + min_free
                then b\<lparr>buf_data := buf_data b @ replicate (buf_size b + min_free - length (buf_data b)) (CHR 0x00)\<rparr>
                else b)
      in (b', length (buf_data b') - buf_size b'))"

text \<open>What a writer does through the span: overwrite the bytes behind the committed ones.\<close>

definition span_write :: "buffer \<Rightarrow> string \<Rightarrow> buffer" where
  "span_write b bs =
     b\<lparr>buf_data := take (buf_size b) (buf_data b) @ bs @ drop (buf_size b + length bs) (buf_data b)\<rparr>"

definition commit :: "buffer \<Rightarrow> nat \<Rightarrow> buffer" where
  "commit b n =
     (let s = buf_size b + n
      in b\<lparr>buf_size := (if s > length (buf_data b) then length (buf_data b) else s)\<rparr>)"

definition as_string_view :: "buffer \<Rightarrow> string" where
  "as_string_view b = take (buf_size b) (buf_data b)"

section \<open>Framing (framing.h, framing.cpp)\<close>

datatype header_read_error = Hdr_closed | Hdr_timeout | Hdr_too_large | Hdr_io_error

definition find_header_end :: "string \<Rightarrow> nat option" where
  "find_header_end v = (case sv_find v HEND 0 of None \<Rightarrow> None | Some p \<Rightarrow> Some (p + 4))"

partial_function (option) read_header_block ::
  "('s \<Rightarrow> nat \<Rightarrow> (read_result \<times> 's) option) \<Rightarrow> 's \<Rightarrow> buffer \<Rightarrow> nat \<Rightarrow>
     ((header_read_error + string) \<times> buffer \<times> 's) option" where
  "read_header_block recv s b max_bytes =
     (let view = as_string_view b in
      case find_header_end view of
        Some e \<Rightarrow> Some (Inr (sv_substr view 0 e), b, s)
      | None \<Rightarrow>
          if length view \<ge> max_bytes then Some (Inl Hdr_too_large, b, s)
          else (case write_span b 2048 of (b', n) \<Rightarrow>
            (case recv s n of
               None \<Rightarrow> None
             | Some (rc, s') \<Rightarrow>
                 let b'' = span_write b' (rd_bytes rc) in
                 if rd_status rc = Io_closed then Some (Inl Hdr_closed, b'', s')
                 else if rd_status rc = Io_timeout then Some (Inl Hdr_timeout, b'', s')
                 else if rd_status rc = Io_error then Some (Inl Hdr_io_error, b'', s')
                 else read_header_block recv s' (commit b'' (bytes_read rc)) max_bytes)))"

definition max_request_header_bytes :: nat where
  "max_request_header_bytes = 64 * 1024"

section \<open>The buffer is an append-only byte sequence\<close>

definition buf_inv :: "buffer \<Rightarrow> bool" where
  "buf_inv b \<longleftrightarrow> buf_size b \<le> length (buf_data b) \<and> length (buf_data b) \<le> buf_size b + 2048"

lemma buf_inv_empty [simp]: "buf_inv empty_buffer"
  by (simp add: buf_inv_def empty_buffer_def)

lemma as_string_view_empty [simp]: "as_string_view empty_buffer = []"
  by (simp add: as_string_view_def empty_buffer_def)

lemma length_view: "buf_inv b \<Longrightarrow> length (as_string_view b) = buf_size b"
  by (simp add: buf_inv_def as_string_view_def)

lemma write_span_2048:
  "buf_inv b \<Longrightarrow>
     \<exists>b'. write_span b 2048 = (b', 2048) \<and> buf_size b' = buf_size b \<and>
          length (buf_data b') = buf_size b + 2048 \<and> as_string_view b' = as_string_view b"
  by (auto simp: buf_inv_def write_span_def Let_def as_string_view_def)

lemma append_commit:
  assumes "length (buf_data b) = buf_size b + 2048" and "length bs \<le> 2048"
  shows "as_string_view (commit (span_write b bs) (length bs)) = as_string_view b @ bs"
    and "buf_inv (commit (span_write b bs) (length bs))"
    and "as_string_view (span_write b bs) = as_string_view b"
  using assms by (simp_all add: commit_def span_write_def as_string_view_def buf_inv_def Let_def)

text \<open>
  \<^verbatim>\<open>http::buffer\<close> refines an append-only byte sequence: receiving any
  bytes that fit the span of \<^verbatim>\<open>write_span\<close> and committing their count appends exactly
  these bytes to the view and keeps the invariant; the span always offers 2048 bytes.
\<close>

theorem buffer_append:
  assumes "buf_inv b" and "length bs \<le> 2048"
  shows "snd (write_span b 2048) = 2048 \<and>
         as_string_view (commit (span_write (fst (write_span b 2048)) bs) (length bs)) = as_string_view b @ bs \<and>
         buf_inv (commit (span_write (fst (write_span b 2048)) bs) (length bs))"
proof -
  obtain b' where b': "write_span b 2048 = (b', 2048)" "buf_size b' = buf_size b"
      "length (buf_data b') = buf_size b + 2048" "as_string_view b' = as_string_view b"
    using write_span_2048 [OF assms(1)] by blast
  with append_commit [of b' bs] assms(2) show ?thesis by simp
qed

theorem buffer_append_witness:
  "buf_inv empty_buffer \<and> length ''test'' \<le> 2048 \<and>
   as_string_view (commit (span_write (fst (write_span empty_buffer 2048)) ''test'') (length ''test'')) = ''test''"
proof -
  have h: "buf_inv empty_buffer" "length ''test'' \<le> 2048" by simp_all
  show ?thesis using h buffer_append [OF h] by (simp only: as_string_view_empty append_Nil)
qed

section \<open>Framing over any stream\<close>

text \<open>
  \<open>reads recv s bs s'\<close>: successive successful reads of 2048-byte spans take the stream from
  \<open>s\<close> to \<open>s'\<close> and deliver the bytes \<open>bs\<close>.
\<close>

inductive reads :: "('s \<Rightarrow> nat \<Rightarrow> (read_result \<times> 's) option) \<Rightarrow> 's \<Rightarrow> string \<Rightarrow> 's \<Rightarrow> bool"
  for recv where
  reads_none: "reads recv s [] s"
| reads_more: "recv s 2048 = Some (rc, s') \<Longrightarrow> rd_status rc = Io_ok \<Longrightarrow> reads recv s' bs s'' \<Longrightarrow>
     reads recv s (rd_bytes rc @ bs) s''"

fun error_status :: "header_read_error \<Rightarrow> io_status" where
  "error_status Hdr_closed = Io_closed"
| "error_status Hdr_timeout = Io_timeout"
| "error_status Hdr_io_error = Io_error"
| "error_status Hdr_too_large = Io_ok"

text \<open>
  What the loop may answer when the buffer already shows \<open>v\<close>: it read \<open>bs\<close>, and with
  \<open>v @ bs\<close> in the buffer either the first empty line ends the block returned, or there is
  none and the limit is reached, or there is none and the next read failed.
\<close>

definition frame_outcome ::
  "('s \<Rightarrow> nat \<Rightarrow> (read_result \<times> 's) option) \<Rightarrow> 's \<Rightarrow> string \<Rightarrow> nat \<Rightarrow>
     header_read_error + string \<Rightarrow> string \<Rightarrow> 's \<Rightarrow> bool" where
  "frame_outcome recv s v max_bytes res w s' \<longleftrightarrow>
     (\<exists>bs s1. reads recv s bs s1 \<and> w = v @ bs \<and> (bs \<noteq> [] \<longrightarrow> length w < max_bytes + 2048) \<and>
        (case res of
           Inr h \<Rightarrow> s' = s1 \<and> find_header_end w = Some (length h) \<and> h = take (length h) w
         | Inl e \<Rightarrow> find_header_end w = None \<and>
             (if e = Hdr_too_large then s' = s1 \<and> max_bytes \<le> length w
              else length w < max_bytes \<and>
                (\<exists>rc. recv s1 2048 = Some (rc, s') \<and> rd_status rc = error_status e))))"

lemma find_header_end_index: "find_header_end v = map_option (\<lambda>p. p + 4) (index_sub HEND v)"
  by (simp add: find_header_end_def sv_find_def split: option.splits)

lemma find_header_end_bounds:
  "find_header_end v = Some e \<Longrightarrow> 4 \<le> e \<and> e \<le> length v"
  by (auto simp: find_header_end_index dest!: index_sub_append_take)

lemma find_header_end_append: "find_header_end v = Some e \<Longrightarrow> find_header_end (v @ w) = Some e"
  by (auto simp: find_header_end_index dest: index_sub_append)

lemma find_header_end_append_conv:
  "find_header_end (v @ w) = Some e \<Longrightarrow> e \<le> length v \<Longrightarrow> find_header_end v = Some e"
  by (auto simp: find_header_end_index dest: index_sub_append_conv)

lemma rd_status_cases:
  "st \<noteq> Io_closed \<Longrightarrow> st \<noteq> Io_timeout \<Longrightarrow> st \<noteq> Io_error \<Longrightarrow> st = Io_ok"
  by (cases st) auto

lemma frame_outcome_done:
  assumes "find_header_end v = Some e"
  shows "frame_outcome recv s v max_bytes (Inr (sv_substr v 0 e)) v s"
  using assms find_header_end_bounds [OF assms]
  unfolding frame_outcome_def by (auto simp: sv_substr_def min_def intro!: exI [of _ "[]"] reads_none)

lemma frame_outcome_too_large:
  assumes "find_header_end v = None" and "max_bytes \<le> length v"
  shows "frame_outcome recv s v max_bytes (Inl Hdr_too_large) v s"
  using assms unfolding frame_outcome_def by (auto intro!: exI [of _ "[]"] reads_none)

lemma frame_outcome_failed:
  assumes "find_header_end v = None" and "length v < max_bytes"
    and "recv s 2048 = Some (rc, s')" and "rd_status rc = error_status e" and "e \<noteq> Hdr_too_large"
  shows "frame_outcome recv s v max_bytes (Inl e) v s'"
  using assms unfolding frame_outcome_def by (auto intro!: exI [of _ "[]"] reads_none)

lemma frame_outcome_step:
  assumes "recv s 2048 = Some (rc, s1)" and "rd_status rc = Io_ok"
    and "length v < max_bytes" and "length (rd_bytes rc) \<le> 2048"
    and "frame_outcome recv s1 (v @ rd_bytes rc) max_bytes res w s'"
  shows "frame_outcome recv s v max_bytes res w s'"
proof -
  from assms(5) obtain bs s2 where bs: "reads recv s1 bs s2" "w = (v @ rd_bytes rc) @ bs"
    "bs \<noteq> [] \<longrightarrow> length w < max_bytes + 2048" and
    rest: "case res of
       Inr h \<Rightarrow> s' = s2 \<and> find_header_end w = Some (length h) \<and> h = take (length h) w
     | Inl e \<Rightarrow> find_header_end w = None \<and>
         (if e = Hdr_too_large then s' = s2 \<and> max_bytes \<le> length w
          else length w < max_bytes \<and> (\<exists>rc. recv s2 2048 = Some (rc, s') \<and> rd_status rc = error_status e))"
    unfolding frame_outcome_def by blast
  have "reads recv s (rd_bytes rc @ bs) s2" using assms(1,2) bs(1) by (rule reads_more)
  moreover have "length w < max_bytes + 2048"
    using bs(2,3) assms(3,4) by (cases "bs = []") auto
  ultimately show ?thesis
    unfolding frame_outcome_def using bs(2) rest
    by (intro exI [of _ "rd_bytes rc @ bs"] exI [of _ s2]) simp
qed

context byte_stream
begin

text \<open>One unfolding of the loop, over the view instead of the buffer.\<close>

lemma read_header_block_ok_step:
  assumes "buf_inv b" and "find_header_end (as_string_view b) = None"
    and "length (as_string_view b) < max_bytes"
    and "recv s 2048 = Some (rc, s')" and "rd_status rc = Io_ok"
  obtains b' where "read_header_block recv s b max_bytes = read_header_block recv s' b' max_bytes"
    and "buf_inv b'" and "as_string_view b' = as_string_view b @ rd_bytes rc"
proof -
  obtain b1 where b1: "write_span b 2048 = (b1, 2048)" "length (buf_data b1) = buf_size b1 + 2048"
      "as_string_view b1 = as_string_view b"
    using write_span_2048 [OF assms(1)] by auto
  let ?b' = "commit (span_write b1 (rd_bytes rc)) (bytes_read rc)"
  have len: "length (rd_bytes rc) \<le> 2048" using recv_ok_bounds [OF assms(4,5)] by simp
  have "read_header_block recv s b max_bytes = read_header_block recv s' ?b' max_bytes"
    using assms b1(1) by (subst read_header_block.simps) (simp add: Let_def)
  moreover have "buf_inv ?b'" "as_string_view ?b' = as_string_view b @ rd_bytes rc"
    using append_commit [OF b1(2) len] b1(3) by (simp_all add: bytes_read_def)
  ultimately show thesis by (rule that)
qed

theorem read_header_block_outcome:
  assumes "buf_inv b" and "read_header_block recv s b max_bytes = Some (res, b', s')"
  shows "frame_outcome recv s (as_string_view b) max_bytes res (as_string_view b') s'"
  using assms
proof (induction "max_bytes - length (as_string_view b)" arbitrary: s b rule: less_induct)
  case less
  let ?v = "as_string_view b"
  show ?case
  proof (cases "find_header_end ?v")
    case (Some e)
    with less.prems(2) show ?thesis
      by (subst (asm) read_header_block.simps) (auto simp: Let_def intro: frame_outcome_done)
  next
    case None
    show ?thesis
    proof (cases "max_bytes \<le> length ?v")
      case True
      with None less.prems(2) show ?thesis
        by (subst (asm) read_header_block.simps) (auto simp: Let_def intro: frame_outcome_too_large)
    next
      case False
      then have lt: "length ?v < max_bytes" by simp
      obtain b1 where b1: "write_span b 2048 = (b1, 2048)" "length (buf_data b1) = buf_size b1 + 2048"
          "as_string_view b1 = ?v"
        using write_span_2048 [OF less.prems(1)] by auto
      have view: "as_string_view (span_write b1 bs) = ?v" for bs
        unfolding b1(3) [symmetric] using b1(2) by (simp add: as_string_view_def span_write_def)
      from less.prems(2) None False b1(1) obtain rc s1 where rc: "recv s 2048 = Some (rc, s1)"
        by (subst (asm) read_header_block.simps) (auto simp: Let_def split: option.splits)
      show ?thesis
      proof (cases "rd_status rc = Io_ok")
        case True
        obtain b2 where b2: "read_header_block recv s b max_bytes = read_header_block recv s1 b2 max_bytes"
            "buf_inv b2" "as_string_view b2 = ?v @ rd_bytes rc"
          using read_header_block_ok_step [OF less.prems(1) None lt rc True] by blast
        have bounds: "rd_bytes rc \<noteq> []" "length (rd_bytes rc) \<le> 2048"
          using recv_ok_bounds [OF rc True] by auto
        have "max_bytes - length (as_string_view b2) < max_bytes - length ?v"
        proof -
          have "0 < length (rd_bytes rc)" using bounds(1) by simp
          then show ?thesis using b2(3) lt by (simp only: length_append)
        qed
        from less.hyps [OF this b2(2)] less.prems(2) b2
        have "frame_outcome recv s1 (?v @ rd_bytes rc) max_bytes res (as_string_view b') s'" by simp
        then show ?thesis by (rule frame_outcome_step [where recv = recv, OF rc True lt bounds(2)])
      next
        case False
        with rc None \<open>\<not> max_bytes \<le> length ?v\<close> less.prems(2) b1(1) show ?thesis
          by (subst (asm) read_header_block.simps)
            (auto simp: Let_def view split: if_splits dest: rd_status_cases
              intro!: frame_outcome_failed)
      qed
    qed
  qed
qed

theorem read_header_block_returns:
  assumes "buf_inv b" and "max_bytes - length (as_string_view b) \<le> ready s"
  shows "\<exists>res. read_header_block recv s b max_bytes = Some res"
  using assms
proof (induction "max_bytes - length (as_string_view b)" arbitrary: s b rule: less_induct)
  case less
  let ?v = "as_string_view b"
  show ?case
  proof (cases "find_header_end ?v = None \<and> length ?v < max_bytes")
    case False
    then show ?thesis by (subst read_header_block.simps) (auto simp: Let_def split: option.splits)
  next
    case True
    with less.prems(2) have "0 < ready s" by linarith
    then obtain rc s1 where rc: "recv s 2048 = Some (rc, s1)" "ready s \<le> Suc (ready s1)"
      using recv_ready by blast
    show ?thesis
    proof (cases "rd_status rc = Io_ok")
      case ok: True
      obtain b2 where b2: "read_header_block recv s b max_bytes = read_header_block recv s1 b2 max_bytes"
          "buf_inv b2" "as_string_view b2 = ?v @ rd_bytes rc"
        using read_header_block_ok_step [OF less.prems(1) _ _ rc(1) ok] True by auto
      have "0 < length (rd_bytes rc)" using recv_ok_bounds [OF rc(1) ok] by simp
      moreover have "length (as_string_view b2) = length ?v + length (rd_bytes rc)"
        using b2(3) by simp
      ultimately have "max_bytes - length (as_string_view b2) < max_bytes - length ?v"
        "max_bytes - length (as_string_view b2) \<le> ready s1"
        using True less.prems(2) rc(2) by linarith+
      from less.hyps [OF this(1) b2(2) this(2)] b2(1) show ?thesis by simp
    next
      case False
      with True rc less.prems(1) show ?thesis
        by (subst read_header_block.simps)
          (auto simp: Let_def dest: rd_status_cases dest!: write_span_2048)
    qed
  qed
qed

theorem read_header_block_delivers:
  "reads recv s bs s1 \<Longrightarrow> buf_inv b \<Longrightarrow> find_header_end (as_string_view b @ bs) = Some k \<Longrightarrow>
     k \<le> max_bytes \<Longrightarrow>
     \<exists>b' s'. read_header_block recv s b max_bytes = Some (Inr (take k (as_string_view b @ bs)), b', s')"
proof (induction arbitrary: b rule: reads.induct)
  case (reads_none s)
  then show ?case
    by (subst read_header_block.simps) (auto simp: Let_def sv_substr_def)
next
  case (reads_more s rc s' bs s'')
  let ?v = "as_string_view b"
  show ?case
  proof (cases "find_header_end ?v")
    case (Some e)
    then have "e = k" using find_header_end_append reads_more.prems(2) by fastforce
    with Some find_header_end_bounds [OF Some] show ?thesis
      by (subst read_header_block.simps) (simp add: Let_def sv_substr_def)
  next
    case None
    then have "length ?v < k"
      using find_header_end_append_conv [OF reads_more.prems(2)] by force
    with reads_more.prems(3) have "length ?v < max_bytes" by simp
    then obtain b2 where b2: "read_header_block recv s b max_bytes = read_header_block recv s' b2 max_bytes"
        "buf_inv b2" "as_string_view b2 = ?v @ rd_bytes rc"
      using read_header_block_ok_step [OF reads_more.prems(1) None _ reads_more.hyps(1,2)] by blast
    with reads_more.IH [OF b2(2)] reads_more.prems show ?thesis by simp
  qed
qed

text \<open>When the data ends with the header block, exactly the delivering reads are consumed.\<close>

lemma read_header_block_exact:
  "reads recv s bs s1 \<Longrightarrow> buf_inv b \<Longrightarrow>
     find_header_end (as_string_view b @ bs) = Some (length (as_string_view b @ bs)) \<Longrightarrow>
     length (as_string_view b @ bs) \<le> max_bytes \<Longrightarrow>
     \<exists>b'. read_header_block recv s b max_bytes = Some (Inr (as_string_view b @ bs), b', s1)"
proof (induction arbitrary: b rule: reads.induct)
  case (reads_none s)
  then show ?case by (subst read_header_block.simps) (simp add: Let_def sv_substr_def)
next
  case (reads_more s rc s' bs s'')
  let ?v = "as_string_view b"
  have ne: "rd_bytes rc \<noteq> []" using recv_ok_bounds [OF reads_more.hyps(1,2)] by simp
  have None: "find_header_end ?v = None"
  proof (cases "find_header_end ?v")
    case (Some e)
    then have "length (?v @ rd_bytes rc @ bs) = e"
      using find_header_end_append [OF Some, of "rd_bytes rc @ bs"] reads_more.prems(2) by simp
    with find_header_end_bounds [OF Some] ne show ?thesis by (cases "rd_bytes rc") simp_all
  qed simp
  have "length ?v < max_bytes" using reads_more.prems(3) ne by (cases "rd_bytes rc") simp_all
  then obtain b2 where b2: "read_header_block recv s b max_bytes = read_header_block recv s' b2 max_bytes"
      "buf_inv b2" "as_string_view b2 = ?v @ rd_bytes rc"
    using read_header_block_ok_step [OF reads_more.prems(1) None _ reads_more.hyps(1,2)] by blast
  with reads_more.IH [OF b2(2)] reads_more.prems show ?case by simp
qed

end

section \<open>Framing over TCP and TLS\<close>

text \<open>
  \<^verbatim>\<open>read_header_block\<close> over a TCP stream, for every behaviour of the kernel:
  on success the returned block is the received data up to and including its first empty
  line; \<open>too_large\<close> means at least \<open>max_bytes\<close> bytes without an empty line; any other error
  is the status of the read that failed; interrupted calls are retried. At most
  \<open>max_bytes + 2047\<close> bytes are ever held.
\<close>

theorem framing_outcome:
  "read_header_block socket_recv_some os empty_buffer max_bytes = Some (res, b', os') \<Longrightarrow>
     frame_outcome socket_recv_some os [] max_bytes res (as_string_view b') os'"
  using plain.read_header_block_outcome [OF buf_inv_empty] by simp

theorem framing_outcome_witness:
  "\<exists>b'. read_header_block socket_recv_some [Recv_fail EINTR, Recv_rc ''GET''] empty_buffer 3 =
          Some (Inl Hdr_too_large, b', []) \<and>
        frame_outcome socket_recv_some [Recv_fail EINTR, Recv_rc ''GET''] [] 3 (Inl Hdr_too_large)
          (as_string_view b') []"
proof -
  let ?os = "[Recv_fail EINTR, Recv_rc ''GET'']"
  have f: "find_header_end (as_string_view empty_buffer) = None" "find_header_end ''GET'' = None"
    by (simp_all add: find_header_end_index)
  have rc: "socket_recv_some ?os 2048 = Some (\<lparr>rd_status = Io_ok, rd_bytes = ''GET''\<rparr>, [])" by simp
  obtain b2 where b2: "read_header_block socket_recv_some ?os empty_buffer 3 =
      read_header_block socket_recv_some [] b2 3" "as_string_view b2 = ''GET''"
    using plain.read_header_block_ok_step [OF buf_inv_empty f(1) _ rc, of 3] by auto
  then have h: "read_header_block socket_recv_some ?os empty_buffer 3 = Some (Inl Hdr_too_large, b2, [])"
    using f(2) by (subst b2(1), subst read_header_block.simps) simp
  show ?thesis using h framing_outcome [OF h] by blast
qed

text \<open>
  C34 (termination). The framing loop returns: \<open>max_bytes\<close> answers of the kernel other than
  an interruption are always enough, since every successful read brings at least one byte.
\<close>

theorem framing_returns:
  "max_bytes \<le> answered os \<Longrightarrow>
     \<exists>res. read_header_block socket_recv_some os empty_buffer max_bytes = Some res"
  using plain.read_header_block_returns [OF buf_inv_empty] by simp

theorem framing_returns_witness:
  "3 \<le> answered [Recv_rc ''G'', Recv_fail EINTR, Recv_rc ''E'', Recv_rc ''T''] \<and>
   (\<exists>res. read_header_block socket_recv_some
       [Recv_rc ''G'', Recv_fail EINTR, Recv_rc ''E'', Recv_rc ''T''] empty_buffer 3 = Some res)"
proof -
  have h: "3 \<le> answered [Recv_rc ''G'', Recv_fail EINTR, Recv_rc ''E'', Recv_rc ''T'']"
    by (simp add: answered_def)
  show ?thesis using h framing_returns [OF h] by blast
qed

lemma reads_chunks:
  "(\<forall>c \<in> set chunks. c \<noteq> [] \<and> length c \<le> 2048) \<Longrightarrow>
     reads socket_recv_some (map Recv_rc chunks @ os) (concat chunks) os"
proof (induction chunks)
  case Nil
  then show ?case by (simp add: reads_none)
next
  case (Cons c cs)
  then have "socket_recv_some (map Recv_rc (c # cs) @ os) 2048 =
      Some (\<lparr>rd_status = Io_ok, rd_bytes = c\<rparr>, map Recv_rc cs @ os)" by simp
  from reads_more [where recv = socket_recv_some, OF this _ Cons.IH] Cons.prems show ?case by simp
qed

lemma reads_tls_chunks:
  "(\<forall>c \<in> set chunks. c \<noteq> [] \<and> length c \<le> 2048) \<Longrightarrow>
     reads tls_recv_some (map (\<lambda>c. Ssl_read (hd c) (tl c)) chunks @ os) (concat chunks) os"
proof (induction chunks)
  case Nil
  then show ?case by (simp add: reads_none)
next
  case (Cons c cs)
  then have "tls_recv_some (map (\<lambda>c. Ssl_read (hd c) (tl c)) (c # cs) @ os) 2048 =
      Some (\<lparr>rd_status = Io_ok, rd_bytes = c\<rparr>, map (\<lambda>c. Ssl_read (hd c) (tl c)) cs @ os)" by simp
  from reads_more [where recv = tls_recv_some, OF this _ Cons.IH] Cons.prems show ?case by simp
qed

lemma print_request_header_end:
  assumes "wf_request r"
  shows "find_header_end (print_request r @ rest) = Some (length (print_request r))"
proof -
  let ?ls = "(req_method r @ SP # target r @ SP # version_string r) # map print_header (req_headers r)"
  have v: "CR \<notin> set (version_string r)" "LF \<notin> set (version_string r)"
    by (simp_all add: version_string_def)
  have "line_ok (req_method r @ SP # target r @ SP # version_string r)"
    using assms v target_props [of "target r"] token_string_props [of "req_method r"]
    by (auto simp: wf_request_def line_ok_def is_valid_method_def)
  moreover have "line_ok (print_header h)" if "h \<in> set (req_headers r)" for h
    using that assms header_line_ok print_header_line by (auto simp: wf_request_def list_all_iff)
  ultimately have "\<forall>l \<in> set ?ls. line_ok l" by auto
  from index_sub_HEND [OF _ this, of rest]
  have "index_sub HEND (print_request r @ rest) = Some (length (crlf_lines ?ls) - 2)"
    by (simp add: print_request_def)
  then show ?thesis by (simp add: find_header_end_index print_request_def)
qed

text \<open>
  A well-formed request is received however TCP segments it: for every
  split of its bytes and of whatever follows into non-empty reads, framing returns exactly
  the request's header block, and parsing the block gives the request back.
\<close>

theorem request_received_any_chunking:
  assumes "wf_request r" and "length (print_request r) \<le> max_bytes"
    and "concat chunks = print_request r @ rest"
    and "\<forall>c \<in> set chunks. c \<noteq> [] \<and> length c \<le> 2048"
  shows "\<exists>h b' os'. read_header_block socket_recv_some (map Recv_rc chunks @ os) empty_buffer max_bytes
                      = Some (Inr h, b', os') \<and> h = print_request r \<and> parse h = Inr r"
proof -
  have k: "find_header_end (as_string_view empty_buffer @ concat chunks) = Some (length (print_request r))"
    using print_request_header_end [OF assms(1)] assms(3) by simp
  have "\<exists>b' os'. read_header_block socket_recv_some (map Recv_rc chunks @ os) empty_buffer max_bytes
                    = Some (Inr (print_request r), b', os')"
    using plain.read_header_block_delivers [OF reads_chunks [OF assms(4)] buf_inv_empty k assms(2)] assms(3)
    by simp
  moreover have "parse (print_request r) = Inr r"
    using print_request_grammar [OF assms(1), of "[]"] by (simp add: parse_complete_grammar)
  ultimately show ?thesis by simp
qed

theorem request_received_any_chunking_witness:
  "wf_request sample_request \<and> length (print_request sample_request) \<le> 64 \<and>
   (\<exists>h b' os'. read_header_block socket_recv_some
       (map Recv_rc [take 5 (print_request sample_request), drop 5 (print_request sample_request) @ ''xyz''])
       empty_buffer 64 = Some (Inr h, b', os') \<and> h = print_request sample_request \<and>
     parse h = Inr sample_request)"
proof -
  let ?cs = "[take 5 (print_request sample_request), drop 5 (print_request sample_request) @ ''xyz'']"
  have wf: "wf_request sample_request" by code_simp
  have len: "length (print_request sample_request) \<le> 64" by code_simp
  have cs: "concat ?cs = print_request sample_request @ ''xyz''" by simp
  have ok: "\<forall>c \<in> set ?cs. c \<noteq> [] \<and> length c \<le> 2048" by code_simp
  show ?thesis using wf len request_received_any_chunking [OF wf len cs ok, of "[]"] by simp
qed

text \<open>
  The limit is tested only between reads: a header block that arrives in one
  read is accepted whatever its size, so blocks longer than \<open>max_bytes\<close> (by up to 2047
  bytes) get through although \<^verbatim>\<open>config.h\<close> calls the limit a ceiling.
\<close>

theorem framing_limit_is_soft:
  assumes "0 < max_bytes" and "length c \<le> 2048" and "find_header_end c = Some k"
  shows "\<exists>b' os'. read_header_block socket_recv_some (Recv_rc c # os) empty_buffer max_bytes
                    = Some (Inr (take k c), b', os')"
proof -
  have c: "c \<noteq> []" using find_header_end_bounds [OF assms(3)] by auto
  have rc: "socket_recv_some (Recv_rc c # os) 2048 = Some (\<lparr>rd_status = Io_ok, rd_bytes = c\<rparr>, os)"
    using c assms(2) by simp
  have "find_header_end (as_string_view empty_buffer) = None" by (simp add: find_header_end_index)
  from plain.read_header_block_ok_step [OF buf_inv_empty this _ rc] assms(1)
  obtain b2 where b2: "read_header_block socket_recv_some (Recv_rc c # os) empty_buffer max_bytes =
      read_header_block socket_recv_some os b2 max_bytes" "as_string_view b2 = c" by auto
  show ?thesis
    unfolding b2(1) using b2(2) assms(3)
    by (subst read_header_block.simps) (simp add: Let_def sv_substr_def)
qed

theorem framing_limit_is_soft_witness:
  "(0::nat) < 1 \<and> length sample_block \<le> 2048 \<and> find_header_end sample_block = Some 30 \<and>
   (\<exists>b' os'. read_header_block socket_recv_some [Recv_rc sample_block] empty_buffer 1
               = Some (Inr (take 30 sample_block), b', os'))"
proof -
  have h: "(0::nat) < 1" "length sample_block \<le> 2048" "find_header_end sample_block = Some 30"
    by simp code_simp+
  show ?thesis using h framing_limit_is_soft [OF h, of "[]"] by blast
qed

end
