(* ===== verification/Request_Pipeline.thy ===== *)
theory Request_Pipeline
  imports Http_Response
begin

text \<open>
  The host side of request handling: module outcomes
  (\<^verbatim>\<open>src/src/app/request_module.h\<close>) and the ordered pipeline
  (\<^verbatim>\<open>src/src/app/request_pipeline.cpp\<close>). A module may keep mutable state behind its
  \<^verbatim>\<open>const\<close> interface (the rate limiter does), so a module is a function that threads the
  state of the world through the call.
\<close>

section \<open>Module outcomes (request_module.h)\<close>

datatype module_result =
    Pass_result "header_field list"
  | Respond_result response
  | Upgrade_result "header_field list"
  | Error_result "header_field list"

definition mr_pass :: module_result where "mr_pass = Pass_result []"
definition mr_respond :: "response \<Rightarrow> module_result" where "mr_respond r = Respond_result r"
definition mr_upgrade :: module_result where "mr_upgrade = Upgrade_result []"
definition mr_error :: module_result where "mr_error = Error_result []"

fun mr_add_response_header :: "string \<Rightarrow> string \<Rightarrow> module_result \<Rightarrow> module_result" where
  "mr_add_response_header n v (Respond_result r) =
     Respond_result (r\<lparr>resp_headers := resp_headers r @ [\<lparr>hname = n, hvalue = v\<rparr>]\<rparr>)"
| "mr_add_response_header n v (Pass_result hs) = Pass_result (hs @ [\<lparr>hname = n, hvalue = v\<rparr>])"
| "mr_add_response_header n v (Upgrade_result hs) = Upgrade_result (hs @ [\<lparr>hname = n, hvalue = v\<rparr>])"
| "mr_add_response_header n v (Error_result hs) = Error_result (hs @ [\<lparr>hname = n, hvalue = v\<rparr>])"

type_synonym 'w req_module = "request \<Rightarrow> 'w \<Rightarrow> module_result \<times> 'w"

section \<open>The pipeline (request_pipeline.cpp)\<close>

definition append_response_headers :: "response \<Rightarrow> header_field list \<Rightarrow> response" where
  "append_response_headers r hs = r\<lparr>resp_headers := resp_headers r @ hs\<rparr>"

definition finalize_response :: "response \<Rightarrow> header_field list \<Rightarrow> response" where
  "finalize_response r pending = append_response_headers r pending"

text \<open>\<open>None\<close> is the null \<^verbatim>\<open>unique_ptr\<close>.\<close>

definition add_module :: "'m option \<Rightarrow> 'm list \<Rightarrow> 'm list result" where
  "add_module m ms =
     (case m of
        None \<Rightarrow> Inl (Invalid_Argument ''request pipeline module must not be null'')
      | Some x \<Rightarrow> Inr (ms @ [x]))"

text \<open>The visitor: the response that ends the pipeline, if any, and the pending headers.\<close>

fun visit_result ::
    "header_field list \<Rightarrow> module_result \<Rightarrow> response option \<times> header_field list" where
  "visit_result pending (Pass_result hs) = (None, pending @ hs)"
| "visit_result pending (Respond_result r) = (Some (finalize_response r pending), pending)"
| "visit_result pending (Upgrade_result hs) =
     (Some (finalize_response
        (text_response 501 ''Not Implemented'' (''connection upgrade not implemented'' @ [LF]))
        (pending @ hs)), pending @ hs)"
| "visit_result pending (Error_result hs) =
     (Some (finalize_response
        (text_response 500 ''Internal Server Error'' (''module error'' @ [LF])) (pending @ hs)),
      pending @ hs)"

fun pipeline_loop ::
    "'w req_module list \<Rightarrow> request \<Rightarrow> header_field list \<Rightarrow> 'w \<Rightarrow> response \<times> 'w" where
  "pipeline_loop [] req pending w =
     (finalize_response (text_response 404 ''Not Found'' (''not found'' @ [LF])) pending, w)"
| "pipeline_loop (m # ms) req pending w =
     (case m req w of (res, w') \<Rightarrow>
        (case visit_result pending res of
           (Some r, _) \<Rightarrow> (r, w')
         | (None, pending') \<Rightarrow> pipeline_loop ms req pending' w'))"

definition pipeline_handle :: "'w req_module list \<Rightarrow> request \<Rightarrow> 'w \<Rightarrow> response \<times> 'w" where
  "pipeline_handle ms req w = pipeline_loop ms req [] w"

section \<open>First decisive module wins\<close>

text \<open>All modules of the list pass, in order; \<open>hs\<close> are the headers they ask for.\<close>

inductive passes :: "request \<Rightarrow> 'w req_module list \<Rightarrow> 'w \<Rightarrow> header_field list \<Rightarrow> 'w \<Rightarrow> bool"
  for req where
  passes_nil: "passes req [] w [] w"
| passes_cons: "m req w = (Pass_result hs, w1) \<Longrightarrow> passes req ms w1 hs' w2 \<Longrightarrow>
     passes req (m # ms) w (hs @ hs') w2"

inductive_simps passes_Nil [simp]: "passes req [] w hs w'"
inductive_simps passes_Cons: "passes req (m # ms) w hs w'"

text \<open>What a decisive (not passing) outcome becomes, given the headers of the modules before.\<close>

fun decided :: "header_field list \<Rightarrow> module_result \<Rightarrow> response option" where
  "decided hs (Pass_result _) = None"
| "decided hs (Respond_result r) = Some (append_response_headers r hs)"
| "decided hs (Upgrade_result hs') =
     Some (append_response_headers
       (text_response 501 ''Not Implemented'' (''connection upgrade not implemented'' @ [LF])) (hs @ hs'))"
| "decided hs (Error_result hs') =
     Some (append_response_headers
       (text_response 500 ''Internal Server Error'' (''module error'' @ [LF])) (hs @ hs'))"

lemma pipeline_loop_passes:
  "passes req pre w hs w1 \<Longrightarrow>
     pipeline_loop (pre @ ms) req pending w = pipeline_loop ms req (pending @ hs) w1"
  by (induction arbitrary: pending rule: passes.induct) auto

lemma pipeline_loop_decided:
  "m req w = (res, w') \<Longrightarrow> decided pending res = Some r \<Longrightarrow>
     pipeline_loop (m # ms) req pending w = (r, w')"
  by (cases res) (auto simp: finalize_response_def)

lemma modules_split:
  "(\<exists>hs w'. passes req ms w hs w') \<or>
   (\<exists>pre m post hs w1 res w' r. ms = pre @ m # post \<and> passes req pre w hs w1 \<and>
      m req w1 = (res, w') \<and> decided hs res = Some r)"
proof (induction ms arbitrary: w)
  case Nil
  then show ?case by auto
next
  case (Cons m ms)
  obtain res w1 where m: "m req w = (res, w1)" by fastforce
  show ?case
  proof (cases "decided [] res")
    case (Some r)
    with m show ?thesis
      by (intro disjI2 exI [of _ "[]"] exI [of _ m] exI [of _ ms] exI [of _ w]) auto
  next
    case None
    then obtain hs where hs: "res = Pass_result hs" by (cases res) auto
    from Cons.IH [of w1] show ?thesis
    proof
      assume "\<exists>hs w'. passes req ms w1 hs w'"
      with m hs show ?thesis by (auto simp: passes_Cons)
    next
      assume "\<exists>pre m post hs w1' res w' r. ms = pre @ m # post \<and> passes req pre w1 hs w1' \<and>
        m req w1' = (res, w') \<and> decided hs res = Some r"
      then obtain pre m' post hs' w1' res' w' r where s: "ms = pre @ m' # post"
          "passes req pre w1 hs' w1'" "m' req w1' = (res', w')" "decided hs' res' = Some r" by blast
      then obtain r' where "decided (hs @ hs') res' = Some r'" by (cases res') auto
      moreover have "passes req (m # pre) w (hs @ hs') w1'"
        using m hs s(2) by (auto intro: passes_cons)
      ultimately show ?thesis
        using s(1,3) by (intro disjI2 exI [of _ "m # pre"] exI [of _ m'] exI [of _ post]) auto
    qed
  qed
qed

text \<open>
  \<^verbatim>\<open>request_pipeline::handle\<close> answers with the outcome of the first module
  that does not pass, adds to it the headers every passing module before it asked for, in
  order, and runs no later module (the state is the one this module left); when every
  module passes the answer is 404 with all their headers.
\<close>

theorem pipeline_first_decisive:
  "(\<exists>hs w'. passes req ms w hs w' \<and>
      pipeline_handle ms req w =
        (append_response_headers (text_response 404 ''Not Found'' (''not found'' @ [LF])) hs, w')) \<or>
   (\<exists>pre m post hs w1 res w' r. ms = pre @ m # post \<and> passes req pre w hs w1 \<and>
      m req w1 = (res, w') \<and> decided hs res = Some r \<and> pipeline_handle ms req w = (r, w'))"
  using modules_split [of req ms w]
proof
  assume "\<exists>hs w'. passes req ms w hs w'"
  then obtain hs w' where "passes req ms w hs w'" by blast
  with pipeline_loop_passes [OF this, of "[]" "[]"] show ?thesis
    by (auto simp: pipeline_handle_def finalize_response_def)
next
  assume "\<exists>pre m post hs w1 res w' r. ms = pre @ m # post \<and> passes req pre w hs w1 \<and>
      m req w1 = (res, w') \<and> decided hs res = Some r"
  then obtain pre m post hs w1 res w' r where s: "ms = pre @ m # post" "passes req pre w hs w1"
      "m req w1 = (res, w')" "decided hs res = Some r" by blast
  then have "pipeline_handle ms req w = (r, w')"
    using pipeline_loop_passes [OF s(2), of "m # post" "[]"] pipeline_loop_decided [of m req w1, OF s(3,4)]
    by (simp add: pipeline_handle_def)
  with s show ?thesis by blast
qed

end
