(* ===== verification/Module_Abi.thy ===== *)
theory Module_Abi
  imports Request_Pipeline
begin

text \<open>
  The module ABI and its two ends: the C structures (\<^verbatim>\<open>src/include/garcon/module_abi.h\<close>), the
  C++ authoring layer that exports a module (\<^verbatim>\<open>src/include/garcon/module_cpp.h\<close>) and the host
  adapter that loads it (\<^verbatim>\<open>src/src/app/dynamic_module.cpp\<close>). A string view is
  \<open>None\<close> for a null pointer. The views are copied before the next call on the
  same thread, so values stand for the thread-local storage behind them.
\<close>

section \<open>ABI structures (module_abi.h)\<close>

definition GARCON_MODULE_ABI_VERSION :: nat where
  "GARCON_MODULE_ABI_VERSION = 3"

type_synonym garcon_string_view = "string option"

record garcon_header_view =
  gh_name :: garcon_string_view
  gh_value :: garcon_string_view

record garcon_request_view =
  gr_method :: garcon_string_view
  gr_target :: garcon_string_view
  gr_headers :: "garcon_header_view list"

record garcon_response_view =
  gv_status :: int
  gv_reason :: garcon_string_view
  gv_content_type :: garcon_string_view
  gv_headers :: "garcon_header_view list"
  gv_body :: garcon_string_view
  gv_content_length :: nat
  gv_has_content_length :: bool

record garcon_exchange =
  ex_request :: garcon_request_view
  ex_response :: garcon_response_view

text \<open>An ill-behaved C module may return a value that is no enumerator.\<close>

datatype garcon_module_outcome =
    GARCON_MODULE_PASS | GARCON_MODULE_RESPOND | GARCON_MODULE_UPGRADE | GARCON_MODULE_ERROR
  | Bad_outcome int

text \<open>\<^verbatim>\<open>.response = {}\<close>\<close>

definition zero_response_view :: garcon_response_view where
  "zero_response_view =
     \<lparr>gv_status = 0, gv_reason = None, gv_content_type = None, gv_headers = [], gv_body = None,
      gv_content_length = 0, gv_has_content_length = False\<rparr>"

section \<open>Authoring layer (module_cpp.h)\<close>

datatype outcome = Out_pass | Out_respond | Out_upgrade | Out_error

record mod_result =
  mr_next :: outcome
  mr_response_value :: "response option"
  mr_response_headers :: "header_field list"

definition res_pass :: mod_result where
  "res_pass = \<lparr>mr_next = Out_pass, mr_response_value = None, mr_response_headers = []\<rparr>"

definition res_respond :: "response \<Rightarrow> mod_result" where
  "res_respond r = \<lparr>mr_next = Out_respond, mr_response_value = Some r, mr_response_headers = []\<rparr>"

definition res_upgrade :: mod_result where
  "res_upgrade = \<lparr>mr_next = Out_upgrade, mr_response_value = None, mr_response_headers = []\<rparr>"

definition res_error :: mod_result where
  "res_error = \<lparr>mr_next = Out_error, mr_response_value = None, mr_response_headers = []\<rparr>"

definition res_add_response_header :: "string \<Rightarrow> string \<Rightarrow> mod_result \<Rightarrow> mod_result" where
  "res_add_response_header n v res =
     res\<lparr>mr_response_headers := mr_response_headers res @ [\<lparr>hname = n, hvalue = v\<rparr>]\<rparr>"

text \<open>An implementation's \<^verbatim>\<open>handle\<close>; \<open>Inl\<close> is an exception that leaves it.\<close>

type_synonym 'w implementation = "request \<Rightarrow> 'w \<Rightarrow> mod_result result \<times> 'w"

definition to_abi_view :: "string \<Rightarrow> garcon_string_view" where
  "to_abi_view s = Some s"

definition assign_view :: "garcon_string_view \<Rightarrow> string" where
  "assign_view v = (case v of None \<Rightarrow> [] | Some s \<Rightarrow> s)"

definition to_http_request :: "garcon_request_view \<Rightarrow> request" where
  "to_http_request rv =
     \<lparr>version_major = 1, version_minor = 1,
      req_method = assign_view (gr_method rv), target = assign_view (gr_target rv),
      req_headers = map (\<lambda>h. \<lparr>hname = assign_view (gh_name h), hvalue = assign_view (gh_value h)\<rparr>)
                      (gr_headers rv)\<rparr>"

definition publish_response_headers ::
    "header_field list \<Rightarrow> garcon_response_view \<Rightarrow> garcon_response_view" where
  "publish_response_headers hs rv =
     rv\<lparr>gv_headers := map (\<lambda>h. \<lparr>gh_name = to_abi_view (hname h), gh_value = to_abi_view (hvalue h)\<rparr>) hs\<rparr>"

definition publish_response :: "response \<Rightarrow> garcon_exchange \<Rightarrow> garcon_exchange" where
  "publish_response r x =
     x\<lparr>ex_response :=
        (publish_response_headers (resp_headers r)
          ((ex_response x)\<lparr>gv_status := status r, gv_reason := to_abi_view (reason r),
                           gv_content_type := to_abi_view (content_type r)\<rparr>))
        \<lparr>gv_body := to_abi_view (body r),
         gv_has_content_length := (content_length r \<noteq> None),
         gv_content_length := (case content_length r of None \<Rightarrow> length (body r) | Some n \<Rightarrow> n)\<rparr>\<rparr>"

fun abi_outcome :: "outcome \<Rightarrow> garcon_module_outcome" where
  "abi_outcome Out_pass = GARCON_MODULE_PASS"
| "abi_outcome Out_respond = GARCON_MODULE_RESPOND"
| "abi_outcome Out_upgrade = GARCON_MODULE_UPGRADE"
| "abi_outcome Out_error = GARCON_MODULE_ERROR"

text \<open>\<^verbatim>\<open>detail::handle<Module>\<close> on non-null arguments\<close>

definition export_handle ::
    "'w implementation \<Rightarrow> garcon_exchange \<Rightarrow> 'w \<Rightarrow> garcon_module_outcome \<times> garcon_exchange \<times> 'w" where
  "export_handle impl x w =
     (case impl (to_http_request (ex_request x)) w of
        (Inl e, w') \<Rightarrow> (GARCON_MODULE_ERROR, x, w')
      | (Inr res, w') \<Rightarrow>
          (let x' = (case mr_response_value res of
                       Some r \<Rightarrow>
                         publish_response (r\<lparr>resp_headers := resp_headers r @ mr_response_headers res\<rparr>) x
                     | None \<Rightarrow>
                         if mr_response_headers res \<noteq> []
                         then x\<lparr>ex_response := publish_response_headers (mr_response_headers res) (ex_response x)\<rparr>
                         else x)
           in (abi_outcome (mr_next res), x', w')))"

section \<open>Host adapter (dynamic_module.cpp)\<close>

definition make_string_view :: "string \<Rightarrow> garcon_string_view" where
  "make_string_view s = Some s"

definition copy_string :: "garcon_string_view \<Rightarrow> string" where
  "copy_string v = (case v of None \<Rightarrow> [] | Some s \<Rightarrow> s)"

definition copy_headers :: "garcon_response_view \<Rightarrow> header_field list" where
  "copy_headers rv =
     map (\<lambda>h. \<lparr>hname = copy_string (gh_name h), hvalue = copy_string (gh_value h)\<rparr>) (gv_headers rv)"

definition to_http_response :: "garcon_response_view \<Rightarrow> response" where
  "to_http_response rv =
     \<lparr>status = (if gv_status rv = 0 then 200 else gv_status rv),
      reason = (if copy_string (gv_reason rv) = [] then ''OK'' else copy_string (gv_reason rv)),
      content_type = copy_string (gv_content_type rv),
      resp_headers = copy_headers rv,
      body = copy_string (gv_body rv),
      content_length = (if gv_has_content_length rv then Some (gv_content_length rv) else None)\<rparr>"

definition with_response_headers :: "module_result \<Rightarrow> garcon_response_view \<Rightarrow> module_result" where
  "with_response_headers res rv =
     foldl (\<lambda>acc h. mr_add_response_header (hname h) (hvalue h) acc) res (copy_headers rv)"

definition make_exchange :: "request \<Rightarrow> garcon_exchange" where
  "make_exchange req =
     \<lparr>ex_request =
        \<lparr>gr_method = make_string_view (req_method req), gr_target = make_string_view (target req),
         gr_headers = map (\<lambda>h. \<lparr>gh_name = make_string_view (hname h), gh_value = make_string_view (hvalue h)\<rparr>)
                        (req_headers req)\<rparr>,
      ex_response = zero_response_view\<rparr>"

text \<open>
  A loaded module as the adapter sees it: \<open>None\<close> is a null function pointer, a missing
  descriptor or a missing instance; the call yields \<open>None\<close> when an exception leaves it.
\<close>

type_synonym 'w abi_handle =
  "(garcon_exchange \<Rightarrow> 'w \<Rightarrow> (garcon_module_outcome \<times> garcon_exchange) option \<times> 'w) option"

definition dynamic_module_handle :: "'w abi_handle \<Rightarrow> 'w req_module" where
  "dynamic_module_handle h req w =
     (case h of
        None \<Rightarrow> (mr_error, w)
      | Some f \<Rightarrow>
          (case f (make_exchange req) w of
             (None, w') \<Rightarrow> (mr_error, w')
           | (Some (out, x), w') \<Rightarrow>
               (case out of
                  GARCON_MODULE_PASS \<Rightarrow> (with_response_headers mr_pass (ex_response x), w')
                | GARCON_MODULE_RESPOND \<Rightarrow> (mr_respond (to_http_response (ex_response x)), w')
                | GARCON_MODULE_UPGRADE \<Rightarrow> (with_response_headers mr_upgrade (ex_response x), w')
                | GARCON_MODULE_ERROR \<Rightarrow>
                    (if gv_status (ex_response x) \<noteq> 0
                     then (mr_respond (to_http_response (ex_response x)), w')
                     else (with_response_headers mr_error (ex_response x), w'))
                | Bad_outcome _ \<Rightarrow> (mr_error, w'))))"

text \<open>A C++ module exported by \<^verbatim>\<open>GARCON_EXPORT_MODULE\<close> and loaded by the host.\<close>

definition exported_module :: "'w implementation \<Rightarrow> 'w req_module" where
  "exported_module impl =
     dynamic_module_handle
       (Some (\<lambda>x w. case export_handle impl x w of (out, x', w') \<Rightarrow> (Some (out, x'), w')))"

section \<open>Across the ABI and back\<close>

text \<open>What the host receives of a result, without the detour through the C structures.\<close>

definition normalize_response :: "response \<Rightarrow> response" where
  "normalize_response r =
     r\<lparr>status := (if status r = 0 then 200 else status r),
       reason := (if reason r = [] then ''OK'' else reason r)\<rparr>"

definition carried_response :: "mod_result \<Rightarrow> response" where
  "carried_response res =
     (case mr_response_value res of
        None \<Rightarrow> empty_response\<lparr>resp_headers := mr_response_headers res\<rparr>
      | Some r \<Rightarrow> normalize_response (r\<lparr>resp_headers := resp_headers r @ mr_response_headers res\<rparr>))"

definition carried_headers :: "mod_result \<Rightarrow> header_field list" where
  "carried_headers res =
     (case mr_response_value res of None \<Rightarrow> [] | Some r \<Rightarrow> resp_headers r) @ mr_response_headers res"

definition has_status :: "mod_result \<Rightarrow> bool" where
  "has_status res \<longleftrightarrow> (case mr_response_value res of None \<Rightarrow> False | Some r \<Rightarrow> status r \<noteq> 0)"

fun lift_result :: "mod_result result \<Rightarrow> module_result" where
  "lift_result (Inl e) = Error_result []"
| "lift_result (Inr res) =
     (case mr_next res of
        Out_pass \<Rightarrow> Pass_result (carried_headers res)
      | Out_respond \<Rightarrow> Respond_result (carried_response res)
      | Out_upgrade \<Rightarrow> Upgrade_result (carried_headers res)
      | Out_error \<Rightarrow> if has_status res then Respond_result (carried_response res)
                      else Error_result (carried_headers res))"

definition as_http11 :: "request \<Rightarrow> request" where
  "as_http11 req = req\<lparr>version_major := 1, version_minor := 1\<rparr>"

lemma map_header_eta: "map (\<lambda>h. \<lparr>hname = hname h, hvalue = hvalue h\<rparr>) hs = hs"
  by (induction hs) simp_all

lemma to_http_request_make_exchange: "to_http_request (ex_request (make_exchange req)) = as_http11 req"
  by (simp add: to_http_request_def make_exchange_def as_http11_def assign_view_def
      make_string_view_def comp_def map_header_eta)

lemma fold_add_headers:
  "foldl (\<lambda>acc h. mr_add_response_header (hname h) (hvalue h) acc) (Pass_result hs) ks = Pass_result (hs @ ks)"
  "foldl (\<lambda>acc h. mr_add_response_header (hname h) (hvalue h) acc) (Upgrade_result hs) ks = Upgrade_result (hs @ ks)"
  "foldl (\<lambda>acc h. mr_add_response_header (hname h) (hvalue h) acc) (Error_result hs) ks = Error_result (hs @ ks)"
  by (induction ks arbitrary: hs) simp_all

lemma with_response_headers_simps:
  "with_response_headers mr_pass rv = Pass_result (copy_headers rv)"
  "with_response_headers mr_upgrade rv = Upgrade_result (copy_headers rv)"
  "with_response_headers mr_error rv = Error_result (copy_headers rv)"
  by (simp_all add: with_response_headers_def fold_add_headers mr_pass_def mr_upgrade_def mr_error_def)

lemma copy_headers_publish: "copy_headers (publish_response_headers hs rv) = hs"
  by (simp add: copy_headers_def publish_response_headers_def copy_string_def to_abi_view_def comp_def
      map_header_eta)

lemma zero_view_simps:
  "copy_headers zero_response_view = []"
  "gv_status zero_response_view = 0"
  "gv_status (publish_response_headers hs rv) = gv_status rv"
  "to_http_response zero_response_view = empty_response"
  "empty_response\<lparr>resp_headers := []\<rparr> = empty_response"
  by (simp_all add: copy_headers_def zero_response_view_def publish_response_headers_def
      to_http_response_def copy_string_def empty_response_def)

lemma publish_response_fields:
  "gv_status (ex_response (publish_response r x)) = status r"
  "copy_headers (ex_response (publish_response r x)) = resp_headers r"
  "to_http_response (ex_response (publish_response r x)) = normalize_response r"
  by (simp_all add: publish_response_def publish_response_headers_def copy_headers_def
      to_http_response_def normalize_response_def copy_string_def to_abi_view_def comp_def
      map_header_eta split: option.splits)

lemma to_http_response_zero_headers:
  "to_http_response (publish_response_headers hs zero_response_view) = empty_response\<lparr>resp_headers := hs\<rparr>"
  by (simp add: to_http_response_def copy_headers_publish)
    (simp add: publish_response_headers_def zero_response_view_def copy_string_def empty_response_def)

lemma exported_module_eq:
  "exported_module impl req w =
     (case impl (as_http11 req) w of (res, w') \<Rightarrow> (lift_result res, w'))"
proof -
  obtain res w' where i: "impl (as_http11 req) w = (res, w')" by fastforce
  have x: "ex_response (make_exchange req) = zero_response_view" by (simp add: make_exchange_def)
  show ?thesis
  proof (cases res)
    case (Inl e)
    with i show ?thesis
      by (simp add: exported_module_def dynamic_module_handle_def export_handle_def x
          to_http_request_make_exchange with_response_headers_simps zero_view_simps)
  next
    case (Inr m)
    show ?thesis
    proof (cases "mr_response_value m")
      case None
      with i Inr show ?thesis
        by (cases "mr_next m"; cases "mr_response_headers m = []")
          (simp_all add: exported_module_def dynamic_module_handle_def export_handle_def Let_def x
            to_http_request_make_exchange with_response_headers_simps copy_headers_publish
            to_http_response_zero_headers zero_view_simps carried_headers_def carried_response_def
            has_status_def mr_respond_def)
    next
      case (Some r)
      with i Inr show ?thesis
        by (cases "mr_next m")
          (simp_all add: exported_module_def dynamic_module_handle_def export_handle_def Let_def
            to_http_request_make_exchange with_response_headers_simps publish_response_fields
            carried_headers_def carried_response_def has_status_def mr_respond_def)
    qed
  qed
qed

text \<open>
  C30 (equivalence). Crossing the module ABI changes nothing but the documented defaults: a
  module exported with \<^verbatim>\<open>GARCON_EXPORT_MODULE\<close> and loaded by \<^verbatim>\<open>dynamic_module\<close> behaves for
  every request like its C++ \<^verbatim>\<open>handle\<close>, where the module sees the request as HTTP/1.1 (the
  version does not cross), an exception becomes the error outcome, status 0 and an empty
  reason become 200 and OK, and an error outcome that carries a response answers with it.
\<close>

theorem exported_module_lift:
  "exported_module impl req w =
     (case impl (as_http11 req) w of (res, w') \<Rightarrow> (lift_result res, w'))"
  by (rule exported_module_eq)

end
