(* ===== verification/Config_Text.thy ===== *)
theory Config_Text
  imports Module_Abi
begin

text \<open>
  The configuration text of a module and the rule machinery the shared modules under
  \<^verbatim>\<open>src/lib\<close> repeat: trimming, field splitting, the line loop, target patterns, status
  codes (each module has its own copy of these helpers; the module's name in the error
  messages is a parameter here), \<^verbatim>\<open>key_value_config\<close> of module_cpp.h, and the locale
  \<open>rule_module\<close> for modules that scan an ordered rule list.
\<close>

section \<open>Lines and fields\<close>

definition trim :: "string \<Rightarrow> string" where
  "trim v = trim_with isspace v"

definition split_fields :: "string \<Rightarrow> char \<Rightarrow> string list" where
  "split_fields v d = map trim (segments v d 0)"

text \<open>The lines a configuration loop looks at: trimmed, neither empty nor a comment.\<close>

definition config_lines :: "string \<Rightarrow> string list" where
  "config_lines text = filter (\<lambda>l. l \<noteq> [] \<and> hd l \<noteq> CHR ''#'') (map trim (segments text LF 0))"

definition is_route_line :: "string \<Rightarrow> bool" where
  "is_route_line line \<longleftrightarrow> sv_substr line 0 6 = ''route=''"

definition is_rule_line :: "string \<Rightarrow> bool" where
  "is_rule_line line \<longleftrightarrow> sv_substr line 0 5 = ''rule=''"

text \<open>The loop of \<open>parse_rules\<close> and \<open>parse_routes\<close>: parse the selected lines in order, leave at the
  first exception.\<close>

definition parse_selected :: "(string \<Rightarrow> bool) \<Rightarrow> (string \<Rightarrow> 'r result) \<Rightarrow> string \<Rightarrow> 'r list result" where
  "parse_selected sel parse_line text = traverse parse_line (filter sel (config_lines text))"

section \<open>Key-value settings (key_value_config)\<close>

definition kv_trim :: "string \<Rightarrow> string" where
  "kv_trim v = trim_with isspace v"

lemma kv_trim_eq [simp]: "kv_trim = trim"
  by (simp add: fun_eq_iff kv_trim_def trim_def)

fun get_from :: "string list \<Rightarrow> string \<Rightarrow> string option" where
  "get_from [] key = None"
| "get_from (line # rest) key =
     (case sv_find_char line (CHR ''='') 0 of
        None \<Rightarrow> get_from rest key
      | Some eq \<Rightarrow>
          if kv_trim (sv_substr line 0 eq) = key then Some (kv_trim (drop (eq + 1) line))
          else get_from rest key)"

definition config_get :: "string \<Rightarrow> string \<Rightarrow> string option" where
  "config_get text key = get_from (config_lines text) key"

section \<open>Status codes\<close>

fun status_digits :: "string \<Rightarrow> int \<Rightarrow> string \<Rightarrow> int result" where
  "status_digits m acc [] = Inr acc"
| "status_digits m acc (c # cs) =
     (if \<not> is_digit c then Inl (Runtime_Error (m @ '': invalid status code''))
      else (let v = acc * 10 + int (digit_value c)
            in if v \<ge> 2 ^ 31 then Inl Signed_Overflow else status_digits m v cs))"

definition parse_status_code :: "string \<Rightarrow> string \<Rightarrow> int result" where
  "parse_status_code m v =
     throw_if (v = []) (Runtime_Error (m @ '': empty status code''))
       (bindE (status_digits m 0 v) (\<lambda>s.
          throw_if (s < 100 \<or> s > 999) (Runtime_Error (m @ '': status code out of range''))
            (Inr s)))"

section \<open>Method and target patterns\<close>

datatype pattern_kind = Exact_pattern | Prefix_pattern

text \<open>The kind and what the in-out argument holds afterwards.\<close>

definition classify_target_pattern :: "string \<Rightarrow> pattern_kind \<times> string" where
  "classify_target_pattern p =
     (if p \<noteq> [] \<and> last p = CHR ''*'' then (Prefix_pattern, butlast p) else (Exact_pattern, p))"

definition method_matches :: "string \<Rightarrow> string \<Rightarrow> bool" where
  "method_matches pat actual \<longleftrightarrow> pat = ''*'' \<or> pat = actual"

fun target_matches :: "pattern_kind \<Rightarrow> string \<Rightarrow> string \<Rightarrow> bool" where
  "target_matches Exact_pattern pat actual = (pat = actual)"
| "target_matches Prefix_pattern pat actual = (sv_substr actual 0 (length pat) = pat)"

section \<open>Facts about the helpers\<close>

lemma digits_not_space: "is_digit c \<Longrightarrow> \<not> isspace c \<and> c \<noteq> CHR ''|'' \<and> c \<noteq> LF"
  by (auto simp: is_digit_def in_range_def isspace_def)

lemma trim_strip: "trim v = strip isspace v"
  by (simp add: trim_def trim_with_strip)

lemma trim_id: "stripped isspace v \<Longrightarrow> trim v = v"
  by (simp add: trim_strip strip_id)

lemma split_fields_eq: "split_fields v d = map trim (split_on d v)"
  by (simp add: split_fields_def sv_simps)

text \<open>Fields without the delimiter and without outer whitespace are read back as written.\<close>

lemma split_fields_join:
  assumes "fs \<noteq> []" and "list_all (\<lambda>f. d \<notin> set f \<and> stripped isspace f) fs"
  shows "split_fields (join_with d fs) d = fs"
proof -
  have "split_on d (join_with d fs) = fs"
    using assms by (intro split_on_join) (auto simp: list_all_iff)
  moreover have "map trim fs = fs"
    using assms(2) by (induction fs) (auto simp: trim_id)
  ultimately show ?thesis by (simp add: split_fields_eq)
qed

lemma config_lines_append:
  "LF \<notin> set l \<Longrightarrow>
     config_lines (l @ LF # rest) =
       (if trim l \<noteq> [] \<and> hd (trim l) \<noteq> CHR ''#'' then [trim l] else []) @ config_lines rest"
  by (simp add: config_lines_def sv_simps split_on_append)

lemma set_trim: "set (trim s) \<subseteq> set s"
  by (simp add: trim_strip set_strip_subset)

lemma split_fields_chars: "f \<in> set (split_fields v d) \<Longrightarrow> set f \<subseteq> set v"
  using set_trim split_on_parts unfolding split_fields_eq by fastforce

lemma config_lines_chars: "l \<in> set (config_lines text) \<Longrightarrow> set l \<subseteq> set text \<and> LF \<notin> set l"
  using set_trim split_on_parts [of _ LF "text"] unfolding config_lines_def segments_0 by fastforce

lemma target_matches_prefix:
  "target_matches Prefix_pattern pat actual \<longleftrightarrow> (\<exists>rest. actual = pat @ rest)"
  by (auto simp: sv_substr_def) (metis append_take_drop_id)

lemma classify_target_pattern_star:
  "classify_target_pattern (p @ ''*'') = (Prefix_pattern, p)"
  by (simp add: classify_target_pattern_def)

lemma status_digits_Inr:
  "status_digits m acc v = Inr n \<longleftrightarrow>
     list_all is_digit v \<and> n = foldl (\<lambda>a c. a * 10 + int (digit_value c)) acc v \<and> (v \<noteq> [] \<longrightarrow> n < 2 ^ 31)"
  if "0 \<le> acc"
  using that
proof (induction v arbitrary: acc)
  case Nil
  then show ?case by auto
next
  case (Cons c cs)
  let ?a = "acc * 10 + int (digit_value c)"
  have mono: "0 \<le> a \<Longrightarrow> a \<le> foldl (\<lambda>a c. a * 10 + int (digit_value c)) a cs" for a
    by (induction cs arbitrary: a) (simp, smt (verit) foldl_Cons of_nat_0_le_iff)
  from Cons.prems have a: "0 \<le> ?a" by simp
  with Cons.IH [OF a] mono [OF a] show ?case by (auto simp: Let_def)
qed

lemma int_digits_value:
  "foldl (\<lambda>a c. a * 10 + int (digit_value c)) (int k) v = int (foldl (\<lambda>v c. v * 10 + digit_value c) k v)"
proof (induction v arbitrary: k)
  case (Cons c cs)
  have "int k * 10 + int (digit_value c) = int (k * 10 + digit_value c)" by simp
  with Cons show ?case by (simp only: foldl_Cons)
qed simp

text \<open>
  A status field of a rule is accepted exactly when it consists of digits
  whose decimal value is between 100 and 999 (leading zeros included), and the accepted
  value is that number.
\<close>

theorem parse_status_code_iff:
  "parse_status_code m v = Inr n \<longleftrightarrow>
     v \<noteq> [] \<and> list_all is_digit v \<and> n = int (digits_value v) \<and> 100 \<le> n \<and> n \<le> 999"
  using int_digits_value [of 0 v]
  by (auto simp: parse_status_code_def outcome_simps status_digits_Inr digits_value_def)

lemma config_get_append:
  "get_from (as @ bs) key = (case get_from as key of None \<Rightarrow> get_from bs key | Some v \<Rightarrow> Some v)"
  by (induction as) (auto split: option.splits)

section \<open>Modules that scan a rule list\<close>

text \<open>
  The interface of every rule module: its \<open>handle\<close> walks the rules in file order, answers with
  the action of the first rule that applies to the request and passes when none does.
\<close>

locale rule_module =
  fixes applies :: "'r \<Rightarrow> request \<Rightarrow> bool"
    and act :: "'r \<Rightarrow> request \<Rightarrow> 'o"
    and default :: 'o
    and handle :: "'r list \<Rightarrow> request \<Rightarrow> 'o"
  assumes handle_Nil: "handle [] req = default"
    and handle_Cons: "handle (r # rs) req = (if applies r req then act r req else handle rs req)"
begin

lemma handle_skip: "list_all (\<lambda>r. \<not> applies r req) pre \<Longrightarrow> handle (pre @ rs) req = handle rs req"
  by (induction pre) (auto simp: handle_Cons)

lemma handle_none: "list_all (\<lambda>r. \<not> applies r req) rs \<Longrightarrow> handle rs req = default"
  using handle_skip [of req rs "[]"] by (simp add: handle_Nil)

lemma handle_first:
  "list_all (\<lambda>r. \<not> applies r req) pre \<Longrightarrow> applies r req \<Longrightarrow> handle (pre @ r # post) req = act r req"
  by (simp add: handle_skip handle_Cons)

theorem handle_find:
  "handle rs req = (case find (\<lambda>r. applies r req) rs of None \<Rightarrow> default | Some r \<Rightarrow> act r req)"
  by (induction rs) (auto simp: handle_Nil handle_Cons)

end

text \<open>A guard: the action never is the default, so passing means that no rule applied.\<close>

locale guard_module = rule_module +
  assumes act_not_default: "act r req \<noteq> default"
begin

theorem pass_iff: "handle rs req = default \<longleftrightarrow> list_all (\<lambda>r. \<not> applies r req) rs"
  by (induction rs) (auto simp: handle_Nil handle_Cons act_not_default)

end

end
