(* ===== verification/Module_Helpers.thy ===== *)
theory Module_Helpers
  imports Config_Text
begin

text \<open>
  The helpers in the anonymous namespaces of the modules under \<^verbatim>\<open>src/lib\<close>. Every module repeats
  those it needs, and a change to one copy does not reach the others; so each copy is a definition of its
  own, used by its module, and the bundles \<open>hg_helpers\<close> to \<open>rt_helpers\<close> show that today they agree with
  the route table's in \<open>Config_Text\<close>. (The helpers of header_guard_module.cpp stand in \<open>Config_Text\<close> as well
  where they are the first copy.)
\<close>

section \<open>What the copies have in common\<close>

definition ascii_lowercase :: "string \<Rightarrow> string" where
  "ascii_lowercase v = map ascii_lower v"

lemma target_matches_switch:
  "target_matches kind pat actual =
     (case kind of Exact_pattern \<Rightarrow> pat = actual | Prefix_pattern \<Rightarrow> sv_substr actual 0 (length pat) = pat)"
  by (cases kind) simp_all

lemma ascii_iequals_loop:
  "ascii_iequals left right \<longleftrightarrow> length left = length right \<and>
     list_all (\<lambda>i. ascii_lower (left ! i) = ascii_lower (right ! i)) [0..<length left]"
  by (auto simp: ascii_iequals_def iequals_from_eq list_all_iff)

lemmas shared_helpers = trim_def split_fields_def ascii_lower_def ascii_lowercase_def ascii_iequals_loop is_rule_line_def
  classify_target_pattern_def method_matches_def target_matches_switch parse_status_code_def

section \<open>header_guard_module.cpp\<close>

definition hg_split_fields :: "string \<Rightarrow> char \<Rightarrow> string list" where
  "hg_split_fields v d = map trim (segments v d 0)"

fun hg_status_digits :: "int \<Rightarrow> string \<Rightarrow> int result" where
  "hg_status_digits acc [] = Inr acc"
| "hg_status_digits acc (c # cs) =
     (if \<not> is_digit c then Inl (Runtime_Error ''header_guard: invalid status code'')
      else (let v = acc * 10 + int (digit_value c)
            in if v \<ge> 2 ^ 31 then Inl Signed_Overflow else hg_status_digits v cs))"

definition hg_parse_status_code :: "string \<Rightarrow> int result" where
  "hg_parse_status_code v =
     throw_if (v = []) (Runtime_Error ''header_guard: empty status code'')
       (bindE (hg_status_digits 0 v) (\<lambda>s.
          throw_if (s < 100 \<or> s > 999) (Runtime_Error ''header_guard: status code out of range'') (Inr s)))"

lemma hg_status_digits_eq [simp]: "hg_status_digits acc v = status_digits ''header_guard'' acc v"
  by (induction v arbitrary: acc) (simp_all add: Let_def)

definition hg_classify_target_pattern :: "string \<Rightarrow> pattern_kind \<times> string" where
  "hg_classify_target_pattern p =
     (if p \<noteq> [] \<and> last p = CHR ''*'' then (Prefix_pattern, butlast p) else (Exact_pattern, p))"

definition hg_method_matches :: "string \<Rightarrow> string \<Rightarrow> bool" where
  "hg_method_matches pat actual \<longleftrightarrow> pat = ''*'' \<or> pat = actual"

definition hg_target_matches :: "pattern_kind \<Rightarrow> string \<Rightarrow> string \<Rightarrow> bool" where
  "hg_target_matches kind pat actual =
     (case kind of Exact_pattern \<Rightarrow> pat = actual | Prefix_pattern \<Rightarrow> sv_substr actual 0 (length pat) = pat)"

lemma hg_helpers [simp]:
  "hg_split_fields = split_fields"
  "hg_parse_status_code = parse_status_code ''header_guard''"
  "hg_classify_target_pattern = classify_target_pattern"
  "hg_method_matches = method_matches"
  "hg_target_matches = target_matches"
  by (simp_all add: fun_eq_iff shared_helpers hg_split_fields_def hg_parse_status_code_def hg_classify_target_pattern_def hg_method_matches_def hg_target_matches_def)

section \<open>host_guard_module.cpp\<close>

definition ho_trim :: "string \<Rightarrow> string" where
  "ho_trim v = trim_with isspace v"

definition ho_split_fields :: "string \<Rightarrow> char \<Rightarrow> string list" where
  "ho_split_fields v d = map ho_trim (segments v d 0)"

definition ho_ascii_lower :: "char \<Rightarrow> char" where
  "ho_ascii_lower ch =
     (if byte (CHR ''A'') \<le> byte ch \<and> byte ch \<le> byte (CHR ''Z'')
      then char_of (byte ch - byte (CHR ''A'') + byte (CHR ''a'')) else ch)"

definition ho_ascii_lowercase :: "string \<Rightarrow> string" where
  "ho_ascii_lowercase v = map ho_ascii_lower v"

definition ho_ascii_iequals :: "string \<Rightarrow> string \<Rightarrow> bool" where
  "ho_ascii_iequals left right \<longleftrightarrow> length left = length right \<and>
     list_all (\<lambda>i. ho_ascii_lower (left ! i) = ho_ascii_lower (right ! i)) [0..<length left]"

fun ho_status_digits :: "int \<Rightarrow> string \<Rightarrow> int result" where
  "ho_status_digits acc [] = Inr acc"
| "ho_status_digits acc (c # cs) =
     (if \<not> is_digit c then Inl (Runtime_Error ''host_guard: invalid status code'')
      else (let v = acc * 10 + int (digit_value c)
            in if v \<ge> 2 ^ 31 then Inl Signed_Overflow else ho_status_digits v cs))"

definition ho_parse_status_code :: "string \<Rightarrow> int result" where
  "ho_parse_status_code v =
     throw_if (v = []) (Runtime_Error ''host_guard: empty status code'')
       (bindE (ho_status_digits 0 v) (\<lambda>s.
          throw_if (s < 100 \<or> s > 999) (Runtime_Error ''host_guard: status code out of range'') (Inr s)))"

lemma ho_status_digits_eq [simp]: "ho_status_digits acc v = status_digits ''host_guard'' acc v"
  by (induction v arbitrary: acc) (simp_all add: Let_def)

definition ho_is_rule_line :: "string \<Rightarrow> bool" where
  "ho_is_rule_line line \<longleftrightarrow> sv_substr line 0 5 = ''rule=''"

definition ho_classify_target_pattern :: "string \<Rightarrow> pattern_kind \<times> string" where
  "ho_classify_target_pattern p =
     (if p \<noteq> [] \<and> last p = CHR ''*'' then (Prefix_pattern, butlast p) else (Exact_pattern, p))"

definition ho_method_matches :: "string \<Rightarrow> string \<Rightarrow> bool" where
  "ho_method_matches pat actual \<longleftrightarrow> pat = ''*'' \<or> pat = actual"

definition ho_target_matches :: "pattern_kind \<Rightarrow> string \<Rightarrow> string \<Rightarrow> bool" where
  "ho_target_matches kind pat actual =
     (case kind of Exact_pattern \<Rightarrow> pat = actual | Prefix_pattern \<Rightarrow> sv_substr actual 0 (length pat) = pat)"

lemma ho_helpers [simp]:
  "ho_trim = trim"
  "ho_split_fields = split_fields"
  "ho_ascii_lower = ascii_lower"
  "ho_ascii_lowercase = ascii_lowercase"
  "ho_ascii_iequals = ascii_iequals"
  "ho_parse_status_code = parse_status_code ''host_guard''"
  "ho_is_rule_line = is_rule_line"
  "ho_classify_target_pattern = classify_target_pattern"
  "ho_method_matches = method_matches"
  "ho_target_matches = target_matches"
  by (simp_all add: fun_eq_iff shared_helpers ho_trim_def ho_split_fields_def ho_ascii_lower_def ho_ascii_lowercase_def ho_ascii_iequals_def ho_parse_status_code_def ho_is_rule_line_def ho_classify_target_pattern_def ho_method_matches_def ho_target_matches_def)

section \<open>cors_module.cpp\<close>

definition cors_trim :: "string \<Rightarrow> string" where
  "cors_trim v = trim_with isspace v"

definition cors_split_fields :: "string \<Rightarrow> char \<Rightarrow> string list" where
  "cors_split_fields v d = map cors_trim (segments v d 0)"

definition cors_ascii_lower :: "char \<Rightarrow> char" where
  "cors_ascii_lower ch =
     (if byte (CHR ''A'') \<le> byte ch \<and> byte ch \<le> byte (CHR ''Z'')
      then char_of (byte ch - byte (CHR ''A'') + byte (CHR ''a'')) else ch)"

definition cors_ascii_lowercase :: "string \<Rightarrow> string" where
  "cors_ascii_lowercase v = map cors_ascii_lower v"

definition cors_ascii_iequals :: "string \<Rightarrow> string \<Rightarrow> bool" where
  "cors_ascii_iequals left right \<longleftrightarrow> length left = length right \<and>
     list_all (\<lambda>i. cors_ascii_lower (left ! i) = cors_ascii_lower (right ! i)) [0..<length left]"

definition cors_is_rule_line :: "string \<Rightarrow> bool" where
  "cors_is_rule_line line \<longleftrightarrow> sv_substr line 0 5 = ''rule=''"

definition cors_classify_target_pattern :: "string \<Rightarrow> pattern_kind \<times> string" where
  "cors_classify_target_pattern p =
     (if p \<noteq> [] \<and> last p = CHR ''*'' then (Prefix_pattern, butlast p) else (Exact_pattern, p))"

definition cors_target_matches :: "pattern_kind \<Rightarrow> string \<Rightarrow> string \<Rightarrow> bool" where
  "cors_target_matches kind pat actual =
     (case kind of Exact_pattern \<Rightarrow> pat = actual | Prefix_pattern \<Rightarrow> sv_substr actual 0 (length pat) = pat)"

lemma cors_helpers [simp]:
  "cors_trim = trim"
  "cors_split_fields = split_fields"
  "cors_ascii_lower = ascii_lower"
  "cors_ascii_lowercase = ascii_lowercase"
  "cors_ascii_iequals = ascii_iequals"
  "cors_is_rule_line = is_rule_line"
  "cors_classify_target_pattern = classify_target_pattern"
  "cors_target_matches = target_matches"
  by (simp_all add: fun_eq_iff shared_helpers cors_trim_def cors_split_fields_def cors_ascii_lower_def cors_ascii_lowercase_def cors_ascii_iequals_def cors_is_rule_line_def cors_classify_target_pattern_def cors_target_matches_def)

section \<open>jwt_auth_module.cpp\<close>

definition jwt_trim :: "string \<Rightarrow> string" where
  "jwt_trim v = trim_with isspace v"

definition jwt_split_fields :: "string \<Rightarrow> char \<Rightarrow> string list" where
  "jwt_split_fields v d = map jwt_trim (segments v d 0)"

definition jwt_ascii_lower :: "char \<Rightarrow> char" where
  "jwt_ascii_lower ch =
     (if byte (CHR ''A'') \<le> byte ch \<and> byte ch \<le> byte (CHR ''Z'')
      then char_of (byte ch - byte (CHR ''A'') + byte (CHR ''a'')) else ch)"

definition jwt_ascii_lowercase :: "string \<Rightarrow> string" where
  "jwt_ascii_lowercase v = map jwt_ascii_lower v"

definition jwt_ascii_iequals :: "string \<Rightarrow> string \<Rightarrow> bool" where
  "jwt_ascii_iequals left right \<longleftrightarrow> length left = length right \<and>
     list_all (\<lambda>i. jwt_ascii_lower (left ! i) = jwt_ascii_lower (right ! i)) [0..<length left]"

definition jwt_is_rule_line :: "string \<Rightarrow> bool" where
  "jwt_is_rule_line line \<longleftrightarrow> sv_substr line 0 5 = ''rule=''"

definition jwt_classify_target_pattern :: "string \<Rightarrow> pattern_kind \<times> string" where
  "jwt_classify_target_pattern p =
     (if p \<noteq> [] \<and> last p = CHR ''*'' then (Prefix_pattern, butlast p) else (Exact_pattern, p))"

definition jwt_method_matches :: "string \<Rightarrow> string \<Rightarrow> bool" where
  "jwt_method_matches pat actual \<longleftrightarrow> pat = ''*'' \<or> pat = actual"

lemma jwt_helpers [simp]:
  "jwt_trim = trim"
  "jwt_split_fields = split_fields"
  "jwt_ascii_lower = ascii_lower"
  "jwt_ascii_lowercase = ascii_lowercase"
  "jwt_ascii_iequals = ascii_iequals"
  "jwt_is_rule_line = is_rule_line"
  "jwt_classify_target_pattern = classify_target_pattern"
  "jwt_method_matches = method_matches"
  by (simp_all add: fun_eq_iff shared_helpers jwt_trim_def jwt_split_fields_def jwt_ascii_lower_def jwt_ascii_lowercase_def jwt_ascii_iequals_def jwt_is_rule_line_def jwt_classify_target_pattern_def jwt_method_matches_def)

section \<open>rate_limit_module.cpp\<close>

definition rl_trim :: "string \<Rightarrow> string" where
  "rl_trim v = trim_with isspace v"

definition rl_split_fields :: "string \<Rightarrow> char \<Rightarrow> string list" where
  "rl_split_fields v d = map rl_trim (segments v d 0)"

definition rl_is_rule_line :: "string \<Rightarrow> bool" where
  "rl_is_rule_line line \<longleftrightarrow> sv_substr line 0 5 = ''rule=''"

definition rl_classify_target_pattern :: "string \<Rightarrow> pattern_kind \<times> string" where
  "rl_classify_target_pattern p =
     (if p \<noteq> [] \<and> last p = CHR ''*'' then (Prefix_pattern, butlast p) else (Exact_pattern, p))"

definition rl_method_matches :: "string \<Rightarrow> string \<Rightarrow> bool" where
  "rl_method_matches pat actual \<longleftrightarrow> pat = ''*'' \<or> pat = actual"

lemma rl_helpers [simp]:
  "rl_trim = trim"
  "rl_split_fields = split_fields"
  "rl_is_rule_line = is_rule_line"
  "rl_classify_target_pattern = classify_target_pattern"
  "rl_method_matches = method_matches"
  by (simp_all add: fun_eq_iff shared_helpers rl_trim_def rl_split_fields_def rl_is_rule_line_def rl_classify_target_pattern_def rl_method_matches_def)

section \<open>router_module.cpp\<close>

definition rt_trim :: "string \<Rightarrow> string" where
  "rt_trim v = trim_with isspace v"

definition rt_split_fields :: "string \<Rightarrow> char \<Rightarrow> string list" where
  "rt_split_fields v d = map rt_trim (segments v d 0)"

definition rt_method_matches :: "string \<Rightarrow> string \<Rightarrow> bool" where
  "rt_method_matches pat actual \<longleftrightarrow> pat = ''*'' \<or> pat = actual"

lemma rt_helpers [simp]:
  "rt_trim = trim"
  "rt_split_fields = split_fields"
  "rt_method_matches = method_matches"
  by (simp_all add: fun_eq_iff shared_helpers rt_trim_def rt_split_fields_def rt_method_matches_def)

end
