(* ===== verification/Route_Table.thy ===== *)
theory Route_Table
  imports Config_Text
begin

text \<open>
  The route-table module (\<^verbatim>\<open>src/lib/route_table/route_table_module.cpp\<close>): an ordered table
  whose entries answer a request or pass it on. The parser of a \<^verbatim>\<open>route=\<close> line takes the
  module's name for its messages, since the router module has the same parser under its
  own name.
\<close>

section \<open>Route entries and their parser\<close>

record route_entry =
  method_pattern :: string
  target_pattern :: string
  target_kind :: pattern_kind
  route_outcome :: outcome
  route_response :: "response option"

definition reason_phrase_for_status :: "int \<Rightarrow> string" where
  "reason_phrase_for_status s =
     (if s = 200 then ''OK'' else if s = 201 then ''Created'' else if s = 202 then ''Accepted''
      else if s = 204 then ''No Content'' else if s = 400 then ''Bad Request''
      else if s = 401 then ''Unauthorized'' else if s = 403 then ''Forbidden''
      else if s = 404 then ''Not Found'' else if s = 405 then ''Method Not Allowed''
      else if s = 409 then ''Conflict'' else if s = 429 then ''Too Many Requests''
      else if s = 500 then ''Internal Server Error'' else if s = 501 then ''Not Implemented''
      else if s = 503 then ''Service Unavailable'' else ''OK'')"

definition parse_route_line :: "string \<Rightarrow> string \<Rightarrow> route_entry result" where
  "parse_route_line m line =
     (let fields = split_fields (drop 6 line) (CHR ''|'') in
      throw_if (length fields < 3) (Runtime_Error (m @ '': route requires at least 3 fields''))
       (case classify_target_pattern (fields ! 1) of (kind, pat) \<Rightarrow>
        let entry = \<lparr>method_pattern = fields ! 0, target_pattern = pat, target_kind = kind,
                     route_outcome = Out_pass, route_response = None\<rparr> in
        throw_if (fields ! 0 = []) (Runtime_Error (m @ '': route method pattern must not be empty''))
        (throw_if (pat = []) (Runtime_Error (m @ '': route target pattern must not be empty''))
         (if fields ! 2 = ''pass'' then Inr entry
          else throw_if (fields ! 2 \<noteq> ''respond'') (Runtime_Error (m @ '': unsupported route action''))
           (throw_if (length fields \<noteq> 6) (Runtime_Error (m @ '': respond route requires 6 fields''))
            (bindE (parse_status_code m (fields ! 3)) (\<lambda>s.
               Inr (entry\<lparr>route_outcome := Out_respond,
                          route_response := Some (empty_response
                            \<lparr>status := s, reason := reason_phrase_for_status s,
                             content_type := fields ! 4, body := fields ! 5\<rparr>)\<rparr>))))))))"

definition parse_routes :: "string \<Rightarrow> string \<Rightarrow> route_entry list result" where
  "parse_routes m text = parse_selected is_route_line (parse_route_line m) text"

section \<open>The module\<close>

definition route_table_create :: "string \<Rightarrow> route_entry list result" where
  "route_table_create config_text = parse_routes ''route_table'' config_text"

fun route_table_handle :: "route_entry list \<Rightarrow> request \<Rightarrow> mod_result" where
  "route_table_handle [] req = res_pass"
| "route_table_handle (route # routes) req =
     (if \<not> method_matches (method_pattern route) (req_method req) then route_table_handle routes req
      else if \<not> target_matches (target_kind route) (target_pattern route) (target req)
      then route_table_handle routes req
      else if route_outcome route = Out_pass then res_pass
      else (case route_response route of Some r \<Rightarrow> res_respond r | None \<Rightarrow> res_error))"

section \<open>Well-formed entries\<close>

text \<open>What the parser guarantees of every entry: it passes, or it carries the response to send.\<close>

definition wf_route :: "route_entry \<Rightarrow> bool" where
  "wf_route e \<longleftrightarrow> method_pattern e \<noteq> [] \<and> target_pattern e \<noteq> [] \<and>
     (case route_response e of
        None \<Rightarrow> route_outcome e = Out_pass
      | Some r \<Rightarrow> route_outcome e = Out_respond \<and> 100 \<le> status r \<and> status r \<le> 999 \<and>
          reason r = reason_phrase_for_status (status r) \<and> resp_headers r = [] \<and>
          content_length r = None)"

lemma parse_route_line_wf: "parse_route_line m line = Inr e \<Longrightarrow> wf_route e"
  by (auto simp: parse_route_line_def Let_def outcome_simps parse_status_code_iff wf_route_def
      empty_response_def split: prod.splits if_splits)

lemma parse_routes_wf: "parse_routes m text = Inr rs \<Longrightarrow> list_all wf_route rs"
  unfolding parse_routes_def parse_selected_def list_all_iff
  by (metis parse_route_line_wf traverse_set)

definition route_applies :: "route_entry \<Rightarrow> request \<Rightarrow> bool" where
  "route_applies e req \<longleftrightarrow> method_matches (method_pattern e) (req_method req) \<and>
     target_matches (target_kind e) (target_pattern e) (target req)"

definition route_act :: "route_entry \<Rightarrow> request \<Rightarrow> mod_result" where
  "route_act e req =
     (if route_outcome e = Out_pass then res_pass
      else (case route_response e of Some r \<Rightarrow> res_respond r | None \<Rightarrow> res_error))"

interpretation table: rule_module route_applies route_act res_pass route_table_handle
  by unfold_locales (auto simp: route_applies_def route_act_def)

definition route_answer :: "route_entry \<Rightarrow> mod_result" where
  "route_answer e = (case route_response e of None \<Rightarrow> res_pass | Some r \<Rightarrow> res_respond r)"

lemma route_act_wf: "wf_route e \<Longrightarrow> route_act e req = route_answer e"
  by (auto simp: wf_route_def route_act_def route_answer_def split: option.splits)

lemma find_list_all: "list_all P xs \<Longrightarrow> find Q xs = Some x \<Longrightarrow> P x \<and> Q x \<and> x \<in> set xs"
  by (induction xs) (auto split: if_splits)

text \<open>
  A route table built from a configuration text answers a request with the
  response of the first route, in file order, whose method and target patterns match, if
  that route responds; it passes the request on when that route says so or no route
  matches, and never ends with the error outcome.
\<close>

theorem route_table_first_match:
  assumes "route_table_create text = Inr routes"
  shows "route_table_handle routes req =
           (case find (\<lambda>e. route_applies e req) routes of None \<Rightarrow> res_pass | Some e \<Rightarrow> route_answer e)"
proof -
  have wf: "list_all wf_route routes"
    using assms unfolding route_table_create_def by (rule parse_routes_wf)
  show ?thesis
    using find_list_all [OF wf, of "\<lambda>e. route_applies e req"]
    by (auto simp: table.handle_find route_act_wf split: option.splits)
qed

definition sample_routes :: string where
  "sample_routes =
     ''# health'' @ [LF] @ ''route=GET|/healthz|respond|200|text/plain|ok'' @ [LF]
     @ ''route=GET|/api/*|pass'' @ [LF]"

theorem route_table_first_match_witness:
  "\<exists>routes. route_table_create sample_routes = Inr routes \<and> length routes = 2 \<and>
     route_table_handle routes (sample_request\<lparr>target := ''/healthz''\<rparr>) =
       (case find (\<lambda>e. route_applies e (sample_request\<lparr>target := ''/healthz''\<rparr>)) routes of
          None \<Rightarrow> res_pass | Some e \<Rightarrow> route_answer e)"
proof -
  have "case route_table_create sample_routes of Inr rs \<Rightarrow> length rs = 2 | Inl _ \<Rightarrow> False"
    by code_simp
  then obtain routes where "route_table_create sample_routes = Inr routes" "length routes = 2"
    by (auto split: sum.splits)
  with route_table_first_match [OF this(1)] show ?thesis by blast
qed

section \<open>Printing and reading a table\<close>

definition route_fields :: "route_entry \<Rightarrow> string list" where
  "route_fields e =
     [method_pattern e, target_pattern e @ (if target_kind e = Prefix_pattern then ''*'' else [])] @
     (case route_response e of
        None \<Rightarrow> [''pass'']
      | Some r \<Rightarrow> [''respond'', show_int (status r), content_type r, body r])"

definition print_route :: "route_entry \<Rightarrow> string" where
  "print_route e = ''route='' @ join_with (CHR ''|'') (route_fields e)"

definition print_routes :: "route_entry list \<Rightarrow> string" where
  "print_routes es = concat (map (\<lambda>e. print_route e @ [LF]) es)"

text \<open>A field that can be written: no delimiter, no line break, no outer whitespace.\<close>

definition plain_field :: "string \<Rightarrow> bool" where
  "plain_field f \<longleftrightarrow> CHR ''|'' \<notin> set f \<and> LF \<notin> set f \<and> stripped isspace f"

definition printable_route :: "route_entry \<Rightarrow> bool" where
  "printable_route e \<longleftrightarrow> wf_route e \<and> plain_field (method_pattern e) \<and>
     plain_field (target_pattern e @ (if target_kind e = Prefix_pattern then ''*'' else [])) \<and>
     (target_kind e = Exact_pattern \<longrightarrow> last (target_pattern e) \<noteq> CHR ''*'') \<and>
     (case route_response e of None \<Rightarrow> True | Some r \<Rightarrow> plain_field (content_type r) \<and> plain_field (body r))"

lemma plain_field_show_nat: "plain_field (show_nat n)"
  using show_nat_digits [of _ n] digits_not_space hd_in_set last_in_set show_nat_not_Nil
  unfolding plain_field_def stripped_def by metis

lemma plain_field_show_int: "0 \<le> i \<Longrightarrow> plain_field (show_int i)"
  by (simp add: show_int_def plain_field_show_nat)

lemma plain_words: "plain_field ''pass''" "plain_field ''respond''" "plain_field []"
  by (simp_all add: plain_field_def stripped_def isspace_def)

lemma route_fields_plain: "printable_route e \<Longrightarrow> list_all plain_field (route_fields e)"
  by (auto simp: printable_route_def route_fields_def plain_words plain_field_show_int wf_route_def
      split: option.splits)

lemma parse_status_code_show:
  "100 \<le> i \<Longrightarrow> i \<le> 999 \<Longrightarrow> parse_status_code m (show_int i) = Inr i"
  using show_nat_digits [of _ "nat i"]
  by (auto simp: parse_status_code_iff show_int_def digits_value_show_nat list_all_iff)

lemma join_with_last: "ps \<noteq> [] \<Longrightarrow> last ps \<noteq> [] \<Longrightarrow> last (join_with d ps) = last (last ps) \<and> join_with d ps \<noteq> []"
  by (induction d ps rule: join_with.induct) auto

lemma join_with_last_Nil:
  "length ps \<ge> 2 \<Longrightarrow> last ps = [] \<Longrightarrow> last (join_with d ps) = d \<and> join_with d ps \<noteq> []"
proof (induction d ps rule: join_with.induct)
  case (3 d p q ps)
  then show ?case by (cases ps) auto
qed auto

lemma set_join_with: "set (join_with d ps) \<subseteq> insert d (\<Union> (set (map set ps)))"
  by (induction d ps rule: join_with.induct) auto

lemma stripped_join:
  assumes "length ps \<ge> 2" "stripped isspace (last ps)"
  shows "join_with (CHR ''|'') ps \<noteq> [] \<and> \<not> isspace (last (join_with (CHR ''|'') ps))"
proof (cases "last ps = []")
  case True
  with assms(1) join_with_last_Nil [of ps "CHR ''|''"] show ?thesis by (simp add: isspace_def)
next
  case False
  moreover from assms(1) have "ps \<noteq> []" by auto
  ultimately show ?thesis
    using join_with_last [of ps "CHR ''|''"] assms(2) by (simp add: stripped_def)
qed

text \<open>A printed line survives the line loop and the field splitter.\<close>

lemma printed_line:
  assumes "list_all plain_field fs" "length fs \<ge> 2" "p \<noteq> []" "\<not> isspace (hd p)" "LF \<notin> set p"
  shows "trim (p @ join_with (CHR ''|'') fs) = p @ join_with (CHR ''|'') fs \<and>
         LF \<notin> set (p @ join_with (CHR ''|'') fs) \<and> split_fields (join_with (CHR ''|'') fs) (CHR ''|'') = fs"
proof -
  let ?l = "join_with (CHR ''|'') fs"
  have ne: "fs \<noteq> []" using assms(2) by auto
  then have "plain_field (last fs)" using assms(1) by (auto simp: list_all_iff)
  then have "?l \<noteq> [] \<and> \<not> isspace (last ?l)"
    using stripped_join [OF assms(2)] by (simp add: plain_field_def)
  then have "stripped isspace (p @ ?l)" using assms(3,4) by (simp add: stripped_def)
  moreover have "LF \<notin> set ?l"
    using set_join_with [of "CHR ''|''" fs] assms(1) by (auto simp: list_all_iff plain_field_def)
  moreover have "split_fields ?l (CHR ''|'') = fs"
    using assms(1) ne by (intro split_fields_join) (auto simp: list_all_iff plain_field_def)
  ultimately show ?thesis using assms(5) by (simp add: trim_id)
qed

lemma route_fields_length: "length (route_fields e) = (if route_response e = None then 3 else 6)"
  by (auto simp: route_fields_def split: option.splits)

lemma print_route_line:
  assumes "printable_route e"
  shows "trim (print_route e) = print_route e \<and> LF \<notin> set (print_route e) \<and>
         split_fields (drop 6 (print_route e)) (CHR ''|'') = route_fields e"
  using printed_line [OF route_fields_plain [OF assms], of "''route=''"]
  by (simp add: route_fields_length print_route_def isspace_def)

lemma parse_print_route:
  assumes "printable_route e"
  shows "parse_route_line m (print_route e) = Inr e"
proof -
  have wf: "wf_route e" and f: "split_fields (drop 6 (print_route e)) (CHR ''|'') = route_fields e"
    using assms print_route_line by (auto simp: printable_route_def)
  have k: "classify_target_pattern (route_fields e ! 1) = (target_kind e, target_pattern e)"
    using assms wf
    by (cases "target_kind e")
      (auto simp: route_fields_def printable_route_def classify_target_pattern_def wf_route_def)
  show ?thesis
  proof (cases "route_response e")
    case None
    with wf k show ?thesis
      unfolding parse_route_line_def f
      by (cases e) (auto simp: Let_def route_fields_length wf_route_def, auto simp: route_fields_def)
  next
    case (Some r)
    with wf have "parse_status_code m (show_int (status r)) = Inr (status r)"
      by (simp add: parse_status_code_show wf_route_def)
    with Some wf k show ?thesis
      unfolding parse_route_line_def f
      by (cases e; cases r) (auto simp: Let_def route_fields_length wf_route_def empty_response_def,
          auto simp: route_fields_def)
  qed
qed

lemma config_lines_Nil [simp]: "config_lines [] = []"
  by (simp add: config_lines_def sv_simps trim_strip)

lemma config_lines_print_routes:
  "list_all printable_route es \<Longrightarrow> config_lines (print_routes es) = map print_route es"
proof (induction es)
  case Nil
  then show ?case by (simp add: print_routes_def)
next
  case (Cons e es)
  then have e: "trim (print_route e) = print_route e" "LF \<notin> set (print_route e)"
    using print_route_line [of e] by auto
  have "config_lines (print_route e @ LF # print_routes es) = [print_route e] @ config_lines (print_routes es)"
    using e by (simp add: config_lines_append) (simp add: print_route_def)
  with Cons show ?case by (simp add: print_routes_def)
qed

lemma print_routes_roundtrip:
  assumes "list_all printable_route es"
  shows "parse_routes m (print_routes es) = Inr es"
proof -
  have "filter is_route_line (map print_route es) = map print_route es"
    by (auto simp: filter_id_conv is_route_line_def print_route_def sv_substr_def)
  moreover have "list_all2 (\<lambda>x y. parse_route_line m x = Inr y) (map print_route es) es"
    using assms by (induction es) (auto simp: parse_print_route)
  ultimately show ?thesis
    by (simp add: parse_routes_def parse_selected_def config_lines_print_routes [OF assms]
        traverse_eq_Inr)
qed

text \<open>
  C35 (roundtrip). Writing a table of routes as configuration lines and loading the text
  gives the table back.
\<close>

theorem route_table_config_roundtrip:
  "list_all printable_route es \<Longrightarrow> route_table_create (print_routes es) = Inr es"
  unfolding route_table_create_def by (rule print_routes_roundtrip)

definition sample_entry :: route_entry where
  "sample_entry =
     \<lparr>method_pattern = ''GET'', target_pattern = ''/healthz'', target_kind = Exact_pattern,
      route_outcome = Out_respond,
      route_response = Some (empty_response\<lparr>content_type := ''text/plain'', body := ''ok''\<rparr>)\<rparr>"

theorem route_table_config_roundtrip_witness:
  "list_all printable_route [sample_entry] \<and>
   route_table_create (print_routes [sample_entry]) = Inr [sample_entry]"
proof -
  have "list_all printable_route [sample_entry]" by code_simp
  with route_table_config_roundtrip [OF this] show ?thesis by simp
qed

end
