(* ===== verification/Router.thy ===== *)
theory Router
  imports Route_Table Module_Helpers
begin

text \<open>
  The router module (\<^verbatim>\<open>src/lib/router/router_module.cpp\<close>): a route table whose target
  patterns may hold \<open>{name}\<close> parameters, each matching the rest of a path segment. On a
  passing route the captured values become response headers.
\<close>

section \<open>Matching (router_module.cpp)\<close>

record captured_param =
  cp_name :: string
  cp_value :: string

text \<open>\<^verbatim>\<open>std::toupper\<close> in the default locale.\<close>

definition toupper :: "char \<Rightarrow> char" where
  "toupper c = (if in_range (CHR ''a'') (CHR ''z'') c then char_of (byte c - 32) else c)"

fun route_param_chars :: "bool \<Rightarrow> string \<Rightarrow> string" where
  "route_param_chars next_upper [] = []"
| "route_param_chars next_upper (ch # rest) =
     (if ch = CHR ''_'' then CHR ''-'' # route_param_chars True rest
      else if next_upper then toupper ch # route_param_chars False rest
      else ch # route_param_chars False rest)"

definition make_route_param_header :: "string \<Rightarrow> string" where
  "make_route_param_header param_name =
     (let out = route_param_chars True param_name in if out = [] then ''Param'' else out)"

definition extract_path :: "string \<Rightarrow> string" where
  "extract_path tgt =
     (case sv_find_char tgt (CHR ''?'') 0 of None \<Rightarrow> tgt | Some q \<Rightarrow> sv_substr tgt 0 q)"

text \<open>\<^verbatim>\<open>while (t < path.size() && path[t] != '/') ++t;\<close>\<close>

function segment_end :: "string \<Rightarrow> nat \<Rightarrow> nat" where
  "segment_end path t =
     (if t < length path \<and> path ! t \<noteq> CHR ''/'' then segment_end path (t + 1) else t)"
  by pat_completeness auto
termination
  by (relation "measure (\<lambda>(path, t). length path - t)") auto

declare segment_end.simps [simp del]

text \<open>The loop of \<open>match_target\<close>: the final \<open>t\<close> and the captures, or \<^verbatim>\<open>nullopt\<close>.\<close>

function match_loop ::
    "string \<Rightarrow> string \<Rightarrow> nat \<Rightarrow> nat \<Rightarrow> captured_param list \<Rightarrow> (nat \<times> captured_param list) option" where
  "match_loop pat path p t caps =
     (if p < length pat then
        (if pat ! p = CHR ''{'' then
           (case sv_find_char pat (CHR ''}'') (p + 1) of
              None \<Rightarrow> None
            | Some close \<Rightarrow>
                (let name = sv_substr pat (p + 1) (close - p - 1);
                     t' = segment_end path t;
                     val = sv_substr path t (t' - t)
                 in if name = [] then None
                    else match_loop pat path (close + 1) t' (caps @ [\<lparr>cp_name = name, cp_value = val\<rparr>])))
         else if t \<ge> length path \<or> pat ! p \<noteq> path ! t then None
         else match_loop pat path (p + 1) (t + 1) caps)
      else Some (t, caps))"
  by pat_completeness auto
termination
  by (relation "measure (\<lambda>(pat, path, p, t, caps). length pat - p)")
    (auto dest!: sv_find_char_bounds)

declare match_loop.simps [simp del]

definition match_target :: "pattern_kind \<Rightarrow> string \<Rightarrow> string \<Rightarrow> captured_param list option" where
  "match_target kind pat tgt =
     (let path = extract_path tgt in
      case match_loop pat path 0 0 [] of
        None \<Rightarrow> None
      | Some (t, caps) \<Rightarrow> if t = length path \<or> kind = Prefix_pattern then Some caps else None)"

section \<open>The module\<close>

definition router_create :: "string \<Rightarrow> route_entry list result" where
  "router_create config_text = parse_routes ''router'' config_text"

definition add_captures :: "captured_param list \<Rightarrow> mod_result \<Rightarrow> mod_result" where
  "add_captures caps res =
     foldl (\<lambda>acc cp. res_add_response_header
              (''X-Garcon-Route-Param-'' @ make_route_param_header (cp_name cp)) (cp_value cp) acc) res caps"

fun router_handle :: "route_entry list \<Rightarrow> request \<Rightarrow> mod_result" where
  "router_handle [] req = res_pass"
| "router_handle (route # routes) req =
     (if \<not> rt_method_matches (method_pattern route) (req_method req) then router_handle routes req
      else (case match_target (target_kind route) (target_pattern route) (target req) of
              None \<Rightarrow> router_handle routes req
            | Some caps \<Rightarrow>
                if route_outcome route = Out_pass then add_captures caps res_pass
                else (case route_response route of Some r \<Rightarrow> res_respond r | None \<Rightarrow> res_error)))"

section \<open>The index loop on lists\<close>

fun match_list :: "string \<Rightarrow> string \<Rightarrow> (string \<times> captured_param list) option" where
  "match_list [] path = Some (path, [])"
| "match_list (c # pat) path =
     (if c = CHR ''{'' then
        (case index_of (\<lambda>x. x = CHR ''}'') pat of
           None \<Rightarrow> None
         | Some i \<Rightarrow>
             if i = 0 then None
             else map_option
                 (\<lambda>(rest, caps). (rest, \<lparr>cp_name = take i pat,
                                         cp_value = takeWhile (\<lambda>x. x \<noteq> CHR ''/'') path\<rparr> # caps))
                 (match_list (drop (i + 1) pat) (dropWhile (\<lambda>x. x \<noteq> CHR ''/'') path)))
      else (case path of [] \<Rightarrow> None | d # path' \<Rightarrow> if c = d then match_list pat path' else None))"

lemma segment_end_eq:
  "t \<le> length path \<Longrightarrow>
     segment_end path t = t + length (takeWhile (\<lambda>x. x \<noteq> CHR ''/'') (drop t path))"
proof (induction path t rule: segment_end.induct)
  case (1 path t)
  show ?case
  proof (cases "t < length path \<and> path ! t \<noteq> CHR ''/''")
    case True
    then have "drop t path = path ! t # drop (Suc t) path" by (simp add: Cons_nth_drop_Suc)
    with True "1.IH" show ?thesis by (simp add: segment_end.simps [of path t])
  next
    case False
    with "1.prems" have "takeWhile (\<lambda>x. x \<noteq> CHR ''/'') (drop t path) = []"
      by (cases "t < length path") (auto simp: Cons_nth_drop_Suc [symmetric])
    with False show ?thesis by (auto simp: segment_end.simps [of path t])
  qed
qed

lemma segment_end_views:
  assumes "t \<le> length path"
  shows "segment_end path t \<le> length path \<and>
         sv_substr path t (segment_end path t - t) = takeWhile (\<lambda>x. x \<noteq> CHR ''/'') (drop t path) \<and>
         drop (segment_end path t) path = dropWhile (\<lambda>x. x \<noteq> CHR ''/'') (drop t path)"
proof -
  have "length (takeWhile (\<lambda>x. x \<noteq> CHR ''/'') (drop t path)) \<le> length path - t"
    using length_takeWhile_le [of "\<lambda>x. x \<noteq> CHR ''/''" "drop t path"] by simp
  with assms show ?thesis
    by (simp add: segment_end_eq sv_substr_def dropWhile_eq_drop takeWhile_eq_take [symmetric] add.commute)
qed

lemma match_loop_list:
  "t \<le> length path \<Longrightarrow>
     match_loop pat path p t caps =
       map_option (\<lambda>(rest, cs). (length path - length rest, caps @ cs)) (match_list (drop p pat) (drop t path))
     \<and> (\<forall>rest cs. match_list (drop p pat) (drop t path) = Some (rest, cs) \<longrightarrow> length rest \<le> length path)"
proof (induction pat path p t caps rule: match_loop.induct)
  case (1 pat path p t caps)
  show ?case
  proof (cases "p < length pat")
    case False
    with "1.prems" show ?thesis by (simp add: match_loop.simps [of pat path p t caps])
  next
    case True
    then have d: "drop p pat = pat ! p # drop (Suc p) pat" by (simp add: Cons_nth_drop_Suc)
    show ?thesis
    proof (cases "pat ! p = CHR ''{''")
      case brace: True
      show ?thesis
      proof (cases "sv_find_char pat (CHR ''}'') (p + 1)")
        case None
        then have "index_of (\<lambda>x. x = CHR ''}'') (drop (Suc p) pat) = None"
          by (simp add: sv_find_char_def)
        with True brace None d show ?thesis by (simp add: match_loop.simps [of pat path p t caps])
      next
        case (Some close)
        then obtain i where i: "index_of (\<lambda>x. x = CHR ''}'') (drop (Suc p) pat) = Some i" "close = Suc p + i"
          by (auto simp: sv_find_char_def)
        have name: "sv_substr pat (p + 1) (close - p - 1) = take i (drop (Suc p) pat)"
          using i(2) by (simp add: sv_substr_def)
        have "i < length (drop (Suc p) pat)" using i(1) by (simp add: index_of_eq_Some)
        then have ne: "take i (drop (Suc p) pat) = [] \<longleftrightarrow> i = 0" by auto
        have dr: "drop (close + 1) pat = drop (i + 1) (drop (Suc p) pat)"
          using i(2) by (simp add: ac_simps)
        note v = segment_end_views [OF "1.prems"]
        show ?thesis
        proof (cases "i = 0")
          case True
          with \<open>p < length pat\<close> brace Some d i name ne show ?thesis
            by (simp add: match_loop.simps [of pat path p t caps] Let_def)
        next
          case False
          let ?n = "sv_substr pat (p + 1) (close - p - 1)"
          let ?t = "segment_end path t"
          let ?v = "sv_substr path t (?t - t)"
          have IH: "match_loop pat path (close + 1) ?t (caps @ [\<lparr>cp_name = ?n, cp_value = ?v\<rparr>]) =
              map_option (\<lambda>(rest, cs). (length path - length rest, (caps @ [\<lparr>cp_name = ?n, cp_value = ?v\<rparr>]) @ cs))
                (match_list (drop (close + 1) pat) (drop ?t path)) \<and>
              (\<forall>rest cs. match_list (drop (close + 1) pat) (drop ?t path) = Some (rest, cs) \<longrightarrow>
                length rest \<le> length path)"
            by (rule "1.IH" (1)) (use True brace Some False ne name v \<open>p < length pat\<close> in auto)
          have "match_loop pat path p t caps =
              match_loop pat path (close + 1) ?t (caps @ [\<lparr>cp_name = ?n, cp_value = ?v\<rparr>])"
            using \<open>p < length pat\<close> brace Some False ne name
            by (simp add: match_loop.simps [of pat path p t caps] Let_def)
          with IH v brace d i(1) False name show ?thesis
            unfolding dr
            by (cases "match_list (drop (i + 1) (drop (Suc p) pat)) (drop ?t path)") auto
        qed
      qed
    next
      case lit: False
      show ?thesis
      proof (cases "t \<ge> length path \<or> pat ! p \<noteq> path ! t")
        case False
        then have "drop t path = path ! t # drop (Suc t) path" by (simp add: Cons_nth_drop_Suc)
        with False True lit d "1.IH"(2) show ?thesis
          by (simp add: match_loop.simps [of pat path p t caps])
      next
        case no: True
        then have "match_list (drop p pat) (drop t path) = None"
          using lit d "1.prems" by (cases "t < length path") (auto simp: Cons_nth_drop_Suc [symmetric])
        with no True lit show ?thesis by (simp add: match_loop.simps [of pat path p t caps])
      qed
    qed
  qed
qed


lemma match_target_list:
  "match_target kind pat tgt =
     (case match_list pat (extract_path tgt) of
        None \<Rightarrow> None
      | Some (rest, caps) \<Rightarrow> if rest = [] \<or> kind = Prefix_pattern then Some caps else None)"
proof -
  let ?p = "extract_path tgt"
  have l: "match_loop pat ?p 0 0 [] =
      map_option (\<lambda>(rest, cs). (length ?p - length rest, cs)) (match_list pat ?p)"
    "\<And>rest cs. match_list pat ?p = Some (rest, cs) \<Longrightarrow> length rest \<le> length ?p"
    using match_loop_list [of 0 ?p pat 0 "[]"] by auto
  show ?thesis
  proof (cases "match_list pat ?p")
    case None
    with l(1) show ?thesis by (simp add: match_target_def Let_def)
  next
    case (Some rc)
    obtain rest caps where rc: "rc = (rest, caps)" by fastforce
    with l(2) Some have "length rest \<le> length ?p" by simp
    then have "length ?p - length rest = length ?p \<longleftrightarrow> length rest = 0" by arith
    then have "length ?p - length rest = length ?p \<longleftrightarrow> rest = []" by simp
    with l(1) Some rc show ?thesis by (simp add: match_target_def Let_def)
  qed
qed

section \<open>Routes match segment by segment\<close>

text \<open>
  A route pattern as the configuration files write them: segments that are literal text or one
  parameter.
\<close>

datatype route_seg = Lit string | Param string

fun seg_text :: "route_seg \<Rightarrow> string" where
  "seg_text (Lit l) = l"
| "seg_text (Param n) = CHR ''{'' # n @ ''}''"

fun wf_seg :: "route_seg \<Rightarrow> bool" where
  "wf_seg (Lit l) \<longleftrightarrow> CHR ''/'' \<notin> set l \<and> CHR ''{'' \<notin> set l"
| "wf_seg (Param n) \<longleftrightarrow> n \<noteq> [] \<and> CHR ''}'' \<notin> set n"

definition route_pattern :: "route_seg list \<Rightarrow> string" where
  "route_pattern segs = concat (map (\<lambda>s. CHR ''/'' # seg_text s) segs)"

text \<open>The segments of an absolute path.\<close>

definition path_segments :: "string \<Rightarrow> string list option" where
  "path_segments path =
     (case path of
        [] \<Rightarrow> Some []
      | c # p \<Rightarrow> if c = CHR ''/'' then Some (split_on (CHR ''/'') p) else None)"

fun seg_captures :: "route_seg list \<Rightarrow> string list \<Rightarrow> captured_param list option" where
  "seg_captures [] [] = Some []"
| "seg_captures (Lit l # ss) (p # ps) = (if p = l then seg_captures ss ps else None)"
| "seg_captures (Param n # ss) (p # ps) =
     map_option ((#) \<lparr>cp_name = n, cp_value = p\<rparr>) (seg_captures ss ps)"
| "seg_captures _ _ = None"

definition exact_captures :: "string \<Rightarrow> string \<Rightarrow> captured_param list option" where
  "exact_captures pat path =
     (case match_list pat path of Some ([], caps) \<Rightarrow> Some caps | _ \<Rightarrow> None)"

lemma match_list_lit:
  "CHR ''{'' \<notin> set l \<Longrightarrow>
     match_list (l @ pat) path =
       (if take (length l) path = l then match_list pat (drop (length l) path) else None)"
proof (induction l arbitrary: path)
  case (Cons c l)
  then show ?case by (cases path) auto
qed simp

lemma match_list_param:
  "n \<noteq> [] \<Longrightarrow> CHR ''}'' \<notin> set n \<Longrightarrow>
     match_list (CHR ''{'' # n @ CHR ''}'' # pat) path =
       map_option (\<lambda>(rest, caps). (rest, \<lparr>cp_name = n,
                     cp_value = takeWhile (\<lambda>x. x \<noteq> CHR ''/'') path\<rparr> # caps))
         (match_list pat (dropWhile (\<lambda>x. x \<noteq> CHR ''/'') path))"
  by (simp add: index_of_char)

lemma split_on_takeWhile:
  "split_on d p = takeWhile (\<lambda>x. x \<noteq> d) p #
     (case dropWhile (\<lambda>x. x \<noteq> d) p of [] \<Rightarrow> [] | _ # q \<Rightarrow> split_on d q)"
  by (induction p) auto

lemma path_segments_Cons:
  "path_segments (CHR ''/'' # p) =
     map_option ((#) (takeWhile (\<lambda>x. x \<noteq> CHR ''/'') p))
       (path_segments (dropWhile (\<lambda>x. x \<noteq> CHR ''/'') p))"
proof (cases "dropWhile (\<lambda>x. x \<noteq> CHR ''/'') p")
  case Nil
  moreover from Nil have no: "\<forall>x \<in> set p. x \<noteq> CHR ''/''" by simp
  then have "split_on (CHR ''/'') p = [p]" by (intro split_on_no_delim) blast
  moreover from no have "takeWhile (\<lambda>x. x \<noteq> CHR ''/'') p = p" by (simp add: takeWhile_eq_all_conv)
  ultimately show ?thesis
    by (simp add: path_segments_def del: dropWhile_eq_Nil_conv takeWhile_eq_all_conv)
next
  case (Cons c q)
  then have "c = CHR ''/''" using hd_dropWhile [of "\<lambda>x. x \<noteq> CHR ''/''" p] by auto
  with Cons show ?thesis by (simp add: path_segments_def split_on_takeWhile [of _ p])
qed

lemma literal_segment:
  assumes "CHR ''/'' \<notin> set l"
  shows "if takeWhile (\<lambda>x. x \<noteq> CHR ''/'') p = l
         then take (length l) p = l \<and> drop (length l) p = dropWhile (\<lambda>x. x \<noteq> CHR ''/'') p
         else take (length l) p = l \<longrightarrow> path_segments (drop (length l) p) = None"
proof (cases "take (length l) p = l")
  case True
  then obtain q where p: "p = l @ q" by (metis append_take_drop_id)
  have tw: "takeWhile (\<lambda>x. x \<noteq> CHR ''/'') p = l @ takeWhile (\<lambda>x. x \<noteq> CHR ''/'') q"
    and dw: "dropWhile (\<lambda>x. x \<noteq> CHR ''/'') p = dropWhile (\<lambda>x. x \<noteq> CHR ''/'') q"
    using assms p by (auto simp: takeWhile_append dropWhile_append)
  show ?thesis
  proof (cases q)
    case Nil
    with tw dw p show ?thesis by (simp del: dropWhile_eq_Nil_conv)
  next
    case (Cons c q')
    with tw dw p show ?thesis by (auto simp: path_segments_def)
  qed
next
  case False
  then have "takeWhile (\<lambda>x. x \<noteq> CHR ''/'') p \<noteq> l" by (metis takeWhile_eq_take)
  with False show ?thesis by simp
qed

lemma exact_captures_segments:
  "list_all wf_seg segs \<Longrightarrow>
     exact_captures (route_pattern segs) path = Option.bind (path_segments path) (seg_captures segs)"
proof (induction segs arbitrary: path)
  case Nil
  have "seg_captures [] (split_on (CHR ''/'') p) = None" for p
    by (cases "split_on (CHR ''/'') p") simp_all
  then show ?case
    by (cases path) (auto simp: exact_captures_def route_pattern_def path_segments_def)
next
  case (Cons s segs)
  have pat: "route_pattern (s # segs) = CHR ''/'' # seg_text s @ route_pattern segs"
    by (simp add: route_pattern_def)
  show ?case
  proof (cases "\<exists>p. path = CHR ''/'' # p")
    case False
    then show ?thesis unfolding exact_captures_def pat
      by (cases path; cases s) (auto simp: path_segments_def)
  next
    case True
    then obtain p where p: "path = CHR ''/'' # p" by blast
    let ?tw = "takeWhile (\<lambda>x. x \<noteq> CHR ''/'') p" and ?dw = "dropWhile (\<lambda>x. x \<noteq> CHR ''/'') p"
    have rhs: "Option.bind (path_segments path) (seg_captures (s # segs)) =
        Option.bind (path_segments ?dw) (\<lambda>ps. seg_captures (s # segs) (?tw # ps))"
      using p path_segments_Cons [of p] by (cases "path_segments ?dw") auto
    have lhs: "exact_captures (route_pattern (s # segs)) path =
        exact_captures (seg_text s @ route_pattern segs) p"
      by (simp add: exact_captures_def p pat)
    show ?thesis
    proof (cases s)
      case (Lit l)
      with Cons.prems have "CHR ''/'' \<notin> set l" "CHR ''{'' \<notin> set l" by auto
      with literal_segment [of l p] match_list_lit [of l "route_pattern segs" p]
        Cons.IH [of "drop (length l) p"] Cons.prems Lit
      show ?thesis unfolding lhs rhs
        by (cases "path_segments ?dw") (auto simp: exact_captures_def split: if_splits)
    next
      case (Param n)
      with Cons.prems have n: "n \<noteq> []" "CHR ''}'' \<notin> set n" by auto
      have "exact_captures (seg_text s @ route_pattern segs) p =
          map_option ((#) \<lparr>cp_name = n, cp_value = ?tw\<rparr>) (exact_captures (route_pattern segs) ?dw)"
        using match_list_param [OF n, of "route_pattern segs" p]
        by (auto simp: exact_captures_def Param split: option.splits list.splits prod.splits)
      also have "exact_captures (route_pattern segs) ?dw =
          Option.bind (path_segments ?dw) (seg_captures segs)"
        using Cons.IH [of ?dw] Cons.prems by simp
      finally show ?thesis unfolding lhs rhs
        by (cases "path_segments ?dw") (simp_all add: Param)
    qed
  qed
qed

text \<open>
  C36 (functional). An exact router pattern made of literal and parameter segments matches a
  target exactly when the path of the target (up to the query) has the same number of
  segments and every literal segment is equal; the parameters capture the segments in
  their places.
\<close>

theorem router_matches_segments:
  assumes "list_all wf_seg segs"
  shows "match_target Exact_pattern (route_pattern segs) tgt =
           Option.bind (path_segments (extract_path tgt)) (seg_captures segs)"
  using exact_captures_segments [OF assms, of "extract_path tgt"]
  by (auto simp: match_target_list exact_captures_def split: option.splits list.splits)

theorem router_matches_segments_witness:
  "list_all wf_seg [Lit ''users'', Param ''id''] \<and>
   match_target Exact_pattern (route_pattern [Lit ''users'', Param ''id'']) ''/users/42?x=1'' =
     Some [\<lparr>cp_name = ''id'', cp_value = ''42''\<rparr>]"
proof -
  have wf: "list_all wf_seg [Lit ''users'', Param ''id'']" by simp
  have "Option.bind (path_segments (extract_path ''/users/42?x=1''))
          (seg_captures [Lit ''users'', Param ''id'']) = Some [\<lparr>cp_name = ''id'', cp_value = ''42''\<rparr>]"
    by code_simp
  with wf router_matches_segments [OF wf, of "''/users/42?x=1''"] show ?thesis by simp
qed

section \<open>Captured values\<close>

text \<open>The text a pattern denotes when its parameters are replaced by values.\<close>

fun fill_pattern :: "string \<Rightarrow> string list \<Rightarrow> string" where
  "fill_pattern [] vs = []"
| "fill_pattern (c # pat) vs =
     (if c = CHR ''{'' then
        (case index_of (\<lambda>x. x = CHR ''}'') pat of
           None \<Rightarrow> []
         | Some i \<Rightarrow> (case vs of [] \<Rightarrow> [] | v # vs' \<Rightarrow> v @ fill_pattern (drop (i + 1) pat) vs'))
      else c # fill_pattern pat vs)"

lemma match_list_fill:
  "match_list pat path = Some (rest, caps) \<Longrightarrow>
     path = fill_pattern pat (map cp_value caps) @ rest \<and>
     list_all (\<lambda>cp. CHR ''/'' \<notin> set (cp_value cp) \<and> cp_name cp \<noteq> []) caps"
proof (induction pat path arbitrary: rest caps rule: match_list.induct)
  case (1 path)
  then show ?case by simp
next
  case (2 c pat path)
  show ?case
  proof (cases "c = CHR ''{''")
    case False
    with 2 show ?thesis by (auto split: list.splits if_splits)
  next
    case True
    with "2.prems" obtain i where i: "index_of (\<lambda>x. x = CHR ''}'') pat = Some i" "i \<noteq> 0"
      by (auto split: option.splits if_splits)
    with True "2.prems" obtain caps' where
      m: "match_list (drop (i + 1) pat) (dropWhile (\<lambda>x. x \<noteq> CHR ''/'') path) = Some (rest, caps')"
      and c: "caps = \<lparr>cp_name = take i pat, cp_value = takeWhile (\<lambda>x. x \<noteq> CHR ''/'') path\<rparr> # caps'"
      by auto
    from "2.IH"(1) [OF True i m] have
      "dropWhile (\<lambda>x. x \<noteq> CHR ''/'') path = fill_pattern (drop (i + 1) pat) (map cp_value caps') @ rest"
      "list_all (\<lambda>cp. CHR ''/'' \<notin> set (cp_value cp) \<and> cp_name cp \<noteq> []) caps'" by auto
    moreover have "CHR ''/'' \<notin> set (takeWhile (\<lambda>x. x \<noteq> CHR ''/'') path)"
      by (auto dest: set_takeWhileD)
    moreover have "pat \<noteq> []" using i by auto
    moreover have "path = takeWhile (\<lambda>x. x \<noteq> CHR ''/'') path @ dropWhile (\<lambda>x. x \<noteq> CHR ''/'') path" by simp
    ultimately show ?thesis using True i c by (simp del: takeWhile_dropWhile_id)
  qed
qed

lemma extract_path_prefix: "\<exists>q. tgt = extract_path tgt @ q"
  unfolding extract_path_def sv_substr_def
  by (auto split: option.splits) (metis append_take_drop_id)

text \<open>
  Whatever the pattern, a match means that the path is the pattern with its
  parameters replaced by the captured values (followed by anything for a prefix pattern),
  and no captured value reaches into another path segment.
\<close>

theorem router_captures_fill_pattern:
  assumes "match_target kind pat tgt = Some caps"
  shows "\<exists>rest. extract_path tgt = fill_pattern pat (map cp_value caps) @ rest \<and>
           (kind = Exact_pattern \<longrightarrow> rest = []) \<and>
           list_all (\<lambda>cp. CHR ''/'' \<notin> set (cp_value cp) \<and> cp_name cp \<noteq> []) caps"
proof -
  from assms obtain rest where m: "match_list pat (extract_path tgt) = Some (rest, caps)"
    "rest = [] \<or> kind = Prefix_pattern"
    by (auto simp: match_target_list split: option.splits if_splits)
  from match_list_fill [OF m(1)] m(2) show ?thesis by auto
qed

theorem router_captures_fill_pattern_witness:
  "\<exists>caps rest. match_target Prefix_pattern ''/api/{version}/'' ''/api/v2/items'' = Some caps \<and>
     extract_path ''/api/v2/items'' = fill_pattern ''/api/{version}/'' (map cp_value caps) @ rest \<and>
     list_all (\<lambda>cp. CHR ''/'' \<notin> set (cp_value cp) \<and> cp_name cp \<noteq> []) caps"
proof -
  have "match_target Prefix_pattern ''/api/{version}/'' ''/api/v2/items'' =
          Some [\<lparr>cp_name = ''version'', cp_value = ''v2''\<rparr>]" by code_simp
  with router_captures_fill_pattern [OF this] show ?thesis by blast
qed

section \<open>The router as a rule module\<close>

definition router_applies :: "route_entry \<Rightarrow> request \<Rightarrow> bool" where
  "router_applies e req \<longleftrightarrow> method_matches (method_pattern e) (req_method req) \<and>
     match_target (target_kind e) (target_pattern e) (target req) \<noteq> None"

definition router_act :: "route_entry \<Rightarrow> request \<Rightarrow> mod_result" where
  "router_act e req =
     (if route_outcome e = Out_pass
      then add_captures (the (match_target (target_kind e) (target_pattern e) (target req))) res_pass
      else (case route_response e of Some r \<Rightarrow> res_respond r | None \<Rightarrow> res_error))"

interpretation router: rule_module router_applies router_act res_pass router_handle
  by unfold_locales (auto simp: router_applies_def router_act_def)

definition capture_headers :: "captured_param list \<Rightarrow> header_field list" where
  "capture_headers caps =
     map (\<lambda>cp. \<lparr>hname = ''X-Garcon-Route-Param-'' @ make_route_param_header (cp_name cp),
                hvalue = cp_value cp\<rparr>) caps"

lemma add_captures_headers:
  "add_captures caps res = res\<lparr>mr_response_headers := mr_response_headers res @ capture_headers caps\<rparr>"
  unfolding add_captures_def capture_headers_def
  by (induction caps arbitrary: res) (simp_all add: res_add_response_header_def)

text \<open>
  A router built from a configuration text behaves as its first matching
  route says: it sends that route's response, or passes and adds one response header per
  captured parameter; without a matching route it passes and adds nothing. It never ends
  with the error outcome.
\<close>

theorem router_first_match:
  assumes "router_create text = Inr routes"
  shows "router_handle routes req =
           (case find (\<lambda>e. router_applies e req) routes of
              None \<Rightarrow> res_pass
            | Some e \<Rightarrow>
                (case route_response e of
                   Some r \<Rightarrow> res_respond r
                 | None \<Rightarrow> res_pass\<lparr>mr_response_headers := capture_headers
                     (the (match_target (target_kind e) (target_pattern e) (target req)))\<rparr>))"
proof -
  have wf: "list_all wf_route routes"
    using assms unfolding router_create_def by (rule parse_routes_wf)
  have "wf_route e \<Longrightarrow> router_act e req =
      (case route_response e of
         Some r \<Rightarrow> res_respond r
       | None \<Rightarrow> res_pass\<lparr>mr_response_headers := capture_headers
           (the (match_target (target_kind e) (target_pattern e) (target req)))\<rparr>)" for e
    by (auto simp: router_act_def wf_route_def add_captures_headers res_pass_def split: option.splits)
  then show ?thesis
    using find_list_all [OF wf, of "\<lambda>e. router_applies e req"]
    by (auto simp: router.handle_find split: option.splits)
qed

definition sample_router :: string where
  "sample_router = ''route=GET|/users/{user_id}|pass'' @ [LF]"

theorem router_first_match_witness:
  "\<exists>routes. router_create sample_router = Inr routes \<and>
     router_handle routes (sample_request\<lparr>target := ''/users/7''\<rparr>) =
       res_pass\<lparr>mr_response_headers := [\<lparr>hname = ''X-Garcon-Route-Param-User-Id'', hvalue = ''7''\<rparr>]\<rparr>"
proof -
  let ?r = "\<lparr>method_pattern = ''GET'', target_pattern = ''/users/{user_id}'', target_kind = Exact_pattern,
             route_outcome = Out_pass, route_response = None\<rparr>"
  have c: "router_create sample_router = Inr [?r]" by code_simp
  have a: "router_applies ?r (sample_request\<lparr>target := ''/users/7''\<rparr>)" by code_simp
  have m: "capture_headers (the (match_target Exact_pattern ''/users/{user_id}'' ''/users/7'')) =
      [\<lparr>hname = ''X-Garcon-Route-Param-User-Id'', hvalue = ''7''\<rparr>]" by code_simp
  from router_first_match [OF c, of "sample_request\<lparr>target := ''/users/7''\<rparr>"] a m c
  show ?thesis by simp
qed

end
