(* ===== verification/Header_Guard.thy ===== *)
theory Header_Guard
  imports Module_Helpers
begin

text \<open>
  The header-guard module (\<^verbatim>\<open>src/lib/header_guard/header_guard_module.cpp\<close>): requests for
  selected methods and targets must carry a header, optionally with a given value.
\<close>

record header_rule =
  hr_method_pattern :: string
  hr_target_pattern :: string
  hr_target_kind :: pattern_kind
  hr_header_name :: string
  hr_expected_value :: "string option"
  hr_failure_status :: int
  hr_failure_body :: string

definition hg_reason_phrase :: "int \<Rightarrow> string" where
  "hg_reason_phrase s =
     (if s = 200 then ''OK'' else if s = 400 then ''Bad Request'' else if s = 401 then ''Unauthorized''
      else if s = 403 then ''Forbidden'' else if s = 404 then ''Not Found''
      else if s = 405 then ''Method Not Allowed'' else if s = 429 then ''Too Many Requests''
      else if s = 500 then ''Internal Server Error'' else if s = 503 then ''Service Unavailable''
      else ''Unauthorized'')"

definition hg_parse_rule_line :: "string \<Rightarrow> header_rule result" where
  "hg_parse_rule_line line =
     (let fields = hg_split_fields (drop 5 line) (CHR ''|'') in
      throw_if (length fields \<noteq> 5 \<and> length fields \<noteq> 6)
        (Runtime_Error ''header_guard: rule requires 5 or 6 fields'')
       (case hg_classify_target_pattern (fields ! 1) of (kind, pat) \<Rightarrow>
        throw_if (fields ! 0 = []) (Runtime_Error ''header_guard: method pattern must not be empty'')
        (throw_if (pat = []) (Runtime_Error ''header_guard: target pattern must not be empty'')
         (throw_if (fields ! 2 = []) (Runtime_Error ''header_guard: header name must not be empty'')
          (let expected = (if length fields = 6 then Some (fields ! 3) else None);
               status_index = (if length fields = 6 then 4 else 3)
           in bindE (hg_parse_status_code (fields ! status_index)) (\<lambda>s.
                Inr \<lparr>hr_method_pattern = fields ! 0, hr_target_pattern = pat, hr_target_kind = kind,
                     hr_header_name = fields ! 2, hr_expected_value = expected,
                     hr_failure_status = s, hr_failure_body = fields ! (status_index + 1)\<rparr>))))))"

definition header_guard_create :: "string \<Rightarrow> header_rule list result" where
  "header_guard_create config_text = parse_selected is_rule_line hg_parse_rule_line config_text"

definition hg_request_satisfies_rule :: "header_rule \<Rightarrow> request \<Rightarrow> bool" where
  "hg_request_satisfies_rule rule req =
     (case header_value req (hr_header_name rule) of
        None \<Rightarrow> False
      | Some actual \<Rightarrow> (case hr_expected_value rule of None \<Rightarrow> True | Some e \<Rightarrow> actual = e))"

definition hg_failure_response :: "header_rule \<Rightarrow> response" where
  "hg_failure_response rule =
     text_response (hr_failure_status rule) (hg_reason_phrase (hr_failure_status rule))
       (hr_failure_body rule)"

fun header_guard_handle :: "header_rule list \<Rightarrow> request \<Rightarrow> mod_result" where
  "header_guard_handle [] req = res_pass"
| "header_guard_handle (rule # rules) req =
     (if \<not> hg_method_matches (hr_method_pattern rule) (req_method req) then header_guard_handle rules req
      else if \<not> hg_target_matches (hr_target_kind rule) (hr_target_pattern rule) (target req)
      then header_guard_handle rules req
      else if hg_request_satisfies_rule rule req then header_guard_handle rules req
      else res_respond (hg_failure_response rule))"

section \<open>Enforcement\<close>

definition hg_covers :: "header_rule \<Rightarrow> request \<Rightarrow> bool" where
  "hg_covers rule req \<longleftrightarrow> method_matches (hr_method_pattern rule) (req_method req) \<and>
     target_matches (hr_target_kind rule) (hr_target_pattern rule) (target req)"

definition hg_violated :: "header_rule \<Rightarrow> request \<Rightarrow> bool" where
  "hg_violated rule req \<longleftrightarrow> hg_covers rule req \<and> \<not> hg_request_satisfies_rule rule req"

lemma res_respond_not_pass [simp]: "res_respond r \<noteq> res_pass"
  by (simp add: res_respond_def res_pass_def)

interpretation header_guard:
  guard_module hg_violated "\<lambda>r req. res_respond (hg_failure_response r)" res_pass header_guard_handle
  by unfold_locales (auto simp: hg_violated_def hg_covers_def)

text \<open>
  The header guard lets a request through exactly when the request carries, for
  every rule that covers its method and target, the required header (with the required
  value when the rule has one); otherwise it answers with the status and body of the
  first violated rule. No rule can be bypassed by an earlier one.
\<close>

theorem header_guard_enforces:
  "header_guard_handle rules req =
     (if list_all (\<lambda>rule. case header_value req (hr_header_name rule) of
                             None \<Rightarrow> False
                           | Some v \<Rightarrow> hr_expected_value rule \<in> {None, Some v})
           (filter (\<lambda>rule. hg_covers rule req) rules)
      then res_pass
      else res_respond (hg_failure_response (the (find (\<lambda>rule. hg_violated rule req) rules))))"
proof -
  have sat: "list_all (\<lambda>rule. case header_value req (hr_header_name rule) of
                             None \<Rightarrow> False
                           | Some v \<Rightarrow> hr_expected_value rule \<in> {None, Some v})
           (filter (\<lambda>rule. hg_covers rule req) rules) \<longleftrightarrow> list_all (\<lambda>r. \<not> hg_violated r req) rules"
    by (induction rules)
      (auto simp: hg_violated_def hg_request_satisfies_rule_def split: option.splits)
  show ?thesis
  proof (cases "list_all (\<lambda>rule. \<not> hg_violated rule req) rules")
    case True
    with header_guard.handle_none show ?thesis unfolding sat by simp
  next
    case False
    then have "find (\<lambda>rule. hg_violated rule req) rules \<noteq> None"
      by (auto simp: find_None_iff list_all_iff)
    with False show ?thesis unfolding sat by (auto simp: header_guard.handle_find)
  qed
qed

lemma hg_parse_rule_line_status:
  "hg_parse_rule_line line = Inr r \<Longrightarrow>
     100 \<le> hr_failure_status r \<and> hr_failure_status r \<le> 999 \<and> hr_header_name r \<noteq> []"
  by (auto simp: hg_parse_rule_line_def Let_def outcome_simps parse_status_code_iff
      split: prod.splits if_splits)

lemma header_guard_create_status:
  "header_guard_create text = Inr rules \<Longrightarrow>
     list_all (\<lambda>r. 100 \<le> hr_failure_status r \<and> hr_failure_status r \<le> 999) rules"
  unfolding header_guard_create_def parse_selected_def list_all_iff
  by (metis hg_parse_rule_line_status traverse_set)

end
