(* ===== verification/Host_Guard.thy ===== *)
theory Host_Guard
  imports Header_Guard
begin

text \<open>
  The host-guard module (\<^verbatim>\<open>src/lib/host_guard/host_guard_module.cpp\<close>): an allow list for the
  \<^verbatim>\<open>Host\<close> header, with exact names and \<^verbatim>\<open>*.domain\<close> patterns.
\<close>

datatype host_pattern_kind = Exact_host | Suffix_host

record host_pattern =
  hp_value :: string
  hp_kind :: host_pattern_kind

record host_rule =
  ho_method_pattern :: string
  ho_target_pattern :: string
  ho_target_kind :: pattern_kind
  ho_allowed_hosts :: "host_pattern list"
  ho_failure_status :: int
  ho_failure_body :: string

definition ho_reason_phrase :: "int \<Rightarrow> string" where
  "ho_reason_phrase s =
     (if s = 200 then ''OK'' else if s = 400 then ''Bad Request'' else if s = 404 then ''Not Found''
      else if s = 405 then ''Method Not Allowed'' else if s = 421 then ''Misdirected Request''
      else if s = 429 then ''Too Many Requests'' else if s = 500 then ''Internal Server Error''
      else if s = 503 then ''Service Unavailable'' else ''Misdirected Request'')"

definition parse_host_pattern :: "string \<Rightarrow> host_pattern result" where
  "parse_host_pattern v =
     throw_if (v = []) (Runtime_Error ''host_guard: host pattern must not be empty'')
       (let l = ho_ascii_lowercase v in
        if length l > 2 \<and> l ! 0 = CHR ''*'' \<and> l ! 1 = CHR ''.''
        then Inr \<lparr>hp_value = drop 1 l, hp_kind = Suffix_host\<rparr>
        else Inr \<lparr>hp_value = l, hp_kind = Exact_host\<rparr>)"

definition parse_host_patterns :: "string \<Rightarrow> host_pattern list result" where
  "parse_host_patterns v =
     bindE (traverse parse_host_pattern (filter (\<lambda>f. f \<noteq> []) (ho_split_fields v (CHR '',''))))
       (\<lambda>ps. throw_if (ps = []) (Runtime_Error ''host_guard: rule requires at least one host pattern'')
               (Inr ps))"

definition ho_parse_rule_line :: "string \<Rightarrow> host_rule result" where
  "ho_parse_rule_line line =
     (let fields = ho_split_fields (drop 5 line) (CHR ''|'') in
      throw_if (length fields \<noteq> 5) (Runtime_Error ''host_guard: rule requires 5 fields'')
       (case ho_classify_target_pattern (fields ! 1) of (kind, pat) \<Rightarrow>
        bindE (parse_host_patterns (fields ! 2)) (\<lambda>hosts.
        throw_if (fields ! 0 = []) (Runtime_Error ''host_guard: method pattern must not be empty'')
        (throw_if (pat = []) (Runtime_Error ''host_guard: target pattern must not be empty'')
          (bindE (ho_parse_status_code (fields ! 3)) (\<lambda>s.
             Inr \<lparr>ho_method_pattern = fields ! 0, ho_target_pattern = pat, ho_target_kind = kind,
                  ho_allowed_hosts = hosts, ho_failure_status = s, ho_failure_body = fields ! 4\<rparr>))))))"

definition host_guard_create :: "string \<Rightarrow> host_rule list result" where
  "host_guard_create config_text = parse_selected ho_is_rule_line ho_parse_rule_line config_text"

definition normalize_host_header :: "string \<Rightarrow> string" where
  "normalize_host_header v =
     (let host = ho_trim v in
      if host = [] then []
      else if hd host = CHR ''['' then
        (case sv_find_char host (CHR '']'') 0 of
           None \<Rightarrow> ho_ascii_lowercase host
         | Some close \<Rightarrow> ho_ascii_lowercase (sv_substr host 0 (close + 1)))
      else
        (let host' =
           (case sv_rfind_char host (CHR '':'') of
              None \<Rightarrow> host
            | Some colon \<Rightarrow>
                if sv_find_char host (CHR '':'') 0 = Some colon then
                  (let numeric_port = (colon + 1 < length host \<and> list_all is_digit (drop (colon + 1) host))
                   in if numeric_port then take colon host else host)
                else host)
         in ho_ascii_lowercase host'))"

definition host_matches :: "host_pattern \<Rightarrow> string \<Rightarrow> bool" where
  "host_matches p actual =
     (case hp_kind p of
        Exact_host \<Rightarrow> ho_ascii_iequals (hp_value p) actual
      | Suffix_host \<Rightarrow> length actual > length (hp_value p) \<and>
          drop (length actual - length (hp_value p)) actual = hp_value p)"

definition ho_request_satisfies_rule :: "host_rule \<Rightarrow> request \<Rightarrow> bool" where
  "ho_request_satisfies_rule rule req =
     (case header_value req ''Host'' of
        None \<Rightarrow> False
      | Some h \<Rightarrow>
          (let n = normalize_host_header h in
           if n = [] then False else list_ex (\<lambda>p. host_matches p n) (ho_allowed_hosts rule)))"

definition ho_failure_response :: "host_rule \<Rightarrow> response" where
  "ho_failure_response rule =
     text_response (ho_failure_status rule) (ho_reason_phrase (ho_failure_status rule))
       (ho_failure_body rule)"

fun host_guard_handle :: "host_rule list \<Rightarrow> request \<Rightarrow> mod_result" where
  "host_guard_handle [] req = res_pass"
| "host_guard_handle (rule # rules) req =
     (if \<not> ho_method_matches (ho_method_pattern rule) (req_method req) then host_guard_handle rules req
      else if \<not> ho_target_matches (ho_target_kind rule) (ho_target_pattern rule) (target req)
      then host_guard_handle rules req
      else if ho_request_satisfies_rule rule req then host_guard_handle rules req
      else res_respond (ho_failure_response rule))"

section \<open>What a pattern allows\<close>

text \<open>
  The hosts an entry of the allow list names: \<^verbatim>\<open>*.domain\<close> names every host below the domain
  (not the domain), any other entry names itself, ignoring case.
\<close>

definition host_named :: "string \<Rightarrow> string \<Rightarrow> bool" where
  "host_named entry host \<longleftrightarrow>
     (if length entry > 2 \<and> take 2 entry = ''*.''
      then \<exists>label. label \<noteq> [] \<and> host = label @ CHR ''.'' # ascii_lowercase (drop 2 entry)
      else host = ascii_lowercase entry)"

lemma ascii_lower_idem [simp]: "ascii_lower (ascii_lower c) = ascii_lower c"
  by (simp add: ascii_lower_def of_char_of)

lemma ascii_lowercase_idem [simp]: "ascii_lowercase (ascii_lowercase s) = ascii_lowercase s"
  by (simp add: ascii_lowercase_def comp_def)

lemma ascii_lower_star: "ascii_lower c = CHR ''*'' \<longleftrightarrow> c = CHR ''*''"
  "ascii_lower c = CHR ''.'' \<longleftrightarrow> c = CHR ''.''"
  by (auto simp: ascii_lower_def of_char_of dest!: arg_cong [where f = "of_char :: char \<Rightarrow> nat"])

lemma ascii_lower_dot [simp]: "ascii_lower (CHR ''.'') = CHR ''.''"
  by (simp add: ascii_lower_def)

lemma normalize_lowercase: "ascii_lowercase (normalize_host_header v) = normalize_host_header v"
  by (simp add: normalize_host_header_def Let_def ascii_lowercase_def comp_def split: option.splits)

lemma suffix_iff:
  "length p < length (a :: 'a list) \<and> drop (length a - length p) a = p \<longleftrightarrow> (\<exists>l. l \<noteq> [] \<and> a = l @ p)"
proof
  assume "length p < length a \<and> drop (length a - length p) a = p"
  then show "\<exists>l. l \<noteq> [] \<and> a = l @ p"
    by (intro exI [of _ "take (length a - length p) a"])
      (metis append_Nil append_take_drop_id less_irrefl_nat)
qed auto

lemma parse_host_pattern_named:
  assumes "parse_host_pattern entry = Inr p" and "ascii_lowercase host = host"
  shows "host_matches p host \<longleftrightarrow> host_named entry host"
proof (cases "length entry > 2 \<and> take 2 entry = ''*.''")
  case True
  then obtain d where e: "entry = ''*.'' @ d" "d \<noteq> []"
    by (metis append_take_drop_id drop_eq_Nil not_less)
  with assms(1) have "p = \<lparr>hp_value = CHR ''.'' # ascii_lowercase d, hp_kind = Suffix_host\<rparr>"
    by (simp add: parse_host_pattern_def Let_def ascii_lowercase_def ascii_lower_star outcome_simps)
  with e show ?thesis
    using suffix_iff [of "CHR ''.'' # ascii_lowercase d" host]
    by (simp add: host_matches_def host_named_def)
next
  case False
  have "\<not> (length entry > 2 \<and> ascii_lowercase entry ! 0 = CHR ''*'' \<and> ascii_lowercase entry ! 1 = CHR ''.'')"
  proof
    assume a: "length entry > 2 \<and> ascii_lowercase entry ! 0 = CHR ''*'' \<and> ascii_lowercase entry ! 1 = CHR ''.''"
    then obtain x y z where "entry = x # y # z" by (cases entry; cases "tl entry") auto
    with a False show False by (simp add: ascii_lowercase_def ascii_lower_star)
  qed
  then have "p = \<lparr>hp_value = ascii_lowercase entry, hp_kind = Exact_host\<rparr>"
    using assms(1) by (auto simp: parse_host_pattern_def Let_def ascii_lowercase_def outcome_simps split: if_splits)
  with False assms(2) show ?thesis
    by (auto simp: host_matches_def host_named_def ascii_iequals_header_name_equals
        header_name_equals_map ascii_lowercase_def comp_def)
qed

text \<open>A rule's allow list, read off its third field.\<close>

lemma parse_host_patterns_named:
  assumes "parse_host_patterns field = Inr ps" and "ascii_lowercase host = host"
  shows "list_ex (\<lambda>p. host_matches p host) ps \<longleftrightarrow>
           list_ex (\<lambda>e. e \<noteq> [] \<and> host_named e host) (split_fields field (CHR '',''))"
proof -
  have "list_all2 (\<lambda>e p. parse_host_pattern e = Inr p)
          (filter (\<lambda>f. f \<noteq> []) (split_fields field (CHR '',''))) ps"
    using assms(1) by (auto simp: parse_host_patterns_def outcome_simps)
  then have "list_ex (\<lambda>p. host_matches p host) ps \<longleftrightarrow>
      list_ex (\<lambda>e. host_named e host) (filter (\<lambda>f. f \<noteq> []) (split_fields field (CHR '','')))"
    by (induction rule: list_all2_induct) (auto simp: parse_host_pattern_named [OF _ assms(2)])
  then show ?thesis by (auto simp: list_ex_iff)
qed

section \<open>Enforcement\<close>

definition ho_covers :: "host_rule \<Rightarrow> request \<Rightarrow> bool" where
  "ho_covers rule req \<longleftrightarrow> method_matches (ho_method_pattern rule) (req_method req) \<and>
     target_matches (ho_target_kind rule) (ho_target_pattern rule) (target req)"

definition ho_violated :: "host_rule \<Rightarrow> request \<Rightarrow> bool" where
  "ho_violated rule req \<longleftrightarrow> ho_covers rule req \<and> \<not> ho_request_satisfies_rule rule req"

interpretation host_guard:
  guard_module ho_violated "\<lambda>r req. res_respond (ho_failure_response r)" res_pass host_guard_handle
  by unfold_locales (auto simp: ho_violated_def ho_covers_def)

text \<open>
  C37 (safety). With a host-guard line \<open>rule=M|T|H|S|B\<close> in its configuration the module lets a
  request covered by M and T through only if the request has a \<^verbatim>\<open>Host\<close> header whose
  normalized value is named by an entry of the comma-separated list H: an exact name
  (ignoring case) or, for \<^verbatim>\<open>*.domain\<close>, a host strictly below the domain.
\<close>

theorem host_guard_allows_only_named:
  assumes "host_guard_create text = Inr rules"
    and "line \<in> set (config_lines text)" and "is_rule_line line"
    and "fs = split_fields (drop 5 line) (CHR ''|'')"
    and "classify_target_pattern (fs ! 1) = (kind, pat)"
    and "method_matches (fs ! 0) (req_method req)" and "target_matches kind pat (target req)"
    and "host_guard_handle rules req = res_pass"
  shows "\<exists>h. header_value req ''Host'' = Some h \<and>
           list_ex (\<lambda>e. e \<noteq> [] \<and> host_named e (normalize_host_header h)) (split_fields (fs ! 2) (CHR '',''))"
proof -
  have all: "list_all2 (\<lambda>x y. ho_parse_rule_line x = Inr y) (filter is_rule_line (config_lines text)) rules"
    using assms(1) by (simp add: host_guard_create_def parse_selected_def outcome_simps)
  have "line \<in> set (filter is_rule_line (config_lines text))" using assms(2,3) by simp
  from list_all2_left [OF all this]
  obtain rule where r: "ho_parse_rule_line line = Inr rule" "rule \<in> set rules" by blast
  then obtain hosts where h: "parse_host_patterns (fs ! 2) = Inr hosts"
    "ho_allowed_hosts rule = hosts" "ho_method_pattern rule = fs ! 0"
    "ho_target_pattern rule = pat" "ho_target_kind rule = kind"
    using assms(4,5) by (auto simp: ho_parse_rule_line_def Let_def outcome_simps)
  have "\<not> ho_violated rule req"
    using assms(8) r(2) by (simp add: host_guard.pass_iff list_all_iff)
  then have "ho_request_satisfies_rule rule req"
    using assms(6,7) h by (simp add: ho_violated_def ho_covers_def)
  then obtain v where "header_value req ''Host'' = Some v"
    "list_ex (\<lambda>p. host_matches p (normalize_host_header v)) hosts"
    using h(2) by (auto simp: ho_request_satisfies_rule_def Let_def split: option.splits if_splits)
  with parse_host_patterns_named [OF h(1) normalize_lowercase] show ?thesis by blast
qed

definition sample_host_config :: string where
  "sample_host_config = ''rule=*|/*|localhost,*.example.com|421|unknown host'' @ [LF]"

definition sample_host_request :: request where
  "sample_host_request = sample_request\<lparr>req_headers := [\<lparr>hname = ''host'', hvalue = ''WWW.Example.com:8080''\<rparr>]\<rparr>"

theorem host_guard_allows_only_named_witness:
  "\<exists>h. header_value sample_host_request ''Host'' = Some h \<and>
     list_ex (\<lambda>e. e \<noteq> [] \<and> host_named e (normalize_host_header h))
       (split_fields ''localhost,*.example.com'' (CHR '',''))"
proof -
  let ?line = "''rule=*|/*|localhost,*.example.com|421|unknown host''"
  let ?f = "split_fields (drop 5 ?line) (CHR ''|'')"
  let ?rule = "\<lparr>ho_method_pattern = ''*'', ho_target_pattern = ''/'', ho_target_kind = Prefix_pattern,
                ho_allowed_hosts = [\<lparr>hp_value = ''localhost'', hp_kind = Exact_host\<rparr>,
                                    \<lparr>hp_value = ''.example.com'', hp_kind = Suffix_host\<rparr>],
                ho_failure_status = 421, ho_failure_body = ''unknown host''\<rparr>"
  have c: "host_guard_create sample_host_config = Inr [?rule]" by code_simp
  have l: "config_lines sample_host_config = [?line]" by code_simp
  have r: "is_rule_line ?line" by code_simp
  have k: "classify_target_pattern (?f ! 1) = (Prefix_pattern, ''/'')" by code_simp
  have m: "method_matches (?f ! 0) (req_method sample_host_request)" by code_simp
  have t: "target_matches Prefix_pattern ''/'' (target sample_host_request)" by code_simp
  have p: "host_guard_handle [?rule] sample_host_request = res_pass" by code_simp
  have f: "?f ! 2 = ''localhost,*.example.com''" by code_simp
  have "?line \<in> set (config_lines sample_host_config)" unfolding l by simp
  from host_guard_allows_only_named [OF c this r refl k m t p] show ?thesis unfolding f .
qed

text \<open>
  A port never decides host matching: a \<^verbatim>\<open>Host\<close> value with a numeric port is
  normalized to the lower-case host name alone.
\<close>

theorem normalize_host_strips_port:
  assumes "host \<noteq> []" and "CHR '':'' \<notin> set host" and "hd host \<noteq> CHR ''[''"
    and "\<not> isspace (hd host)" and "port \<noteq> []" and "list_all is_digit port"
  shows "normalize_host_header (host @ CHR '':'' # port) = ascii_lowercase host"
proof -
  let ?v = "host @ CHR '':'' # port"
  have p: "CHR '':'' \<notin> set port"
    using assms(6) by (intro not_in_list_all [of is_digit]) (auto simp: is_digit_def in_range_def)
  have "\<not> isspace (last port)"
    using assms(5,6) digits_not_space by (simp add: list_all_iff)
  then have t: "trim ?v = ?v" using assms by (intro trim_id) (auto simp: stripped_def)
  have "sv_rfind_char ?v (CHR '':'') = Some (length host)"
    using p by (simp add: sv_rfind_char_def index_of_char)
  moreover have "sv_find_char ?v (CHR '':'') 0 = Some (length host)"
    using assms(2) by (simp add: sv_find_char_def index_of_char)
  ultimately show ?thesis
    using assms by (simp add: normalize_host_header_def t Let_def)
qed

theorem normalize_host_strips_port_witness:
  "normalize_host_header (''LocalHost'' @ CHR '':'' # ''8080'') = ascii_lowercase ''LocalHost''"
  by (rule normalize_host_strips_port) (simp_all add: isspace_def is_digit_def in_range_def)

end
