(* ===== verification/Cors.thy ===== *)
theory Cors
  imports Host_Guard
begin

text \<open>
  The CORS module (\<^verbatim>\<open>src/lib/cors/cors_module.cpp\<close>): answers preflight requests, rejects
  disallowed methods and decorates later responses for allowed origins. \<open>set_header\<close> and
  \<open>add_header\<close> may throw, so the handler is fallible.
\<close>

record origin_pattern =
  op_value :: string
  op_allow_any :: bool

record cors_rule =
  co_target_pattern :: string
  co_target_kind :: pattern_kind
  co_allowed_origins :: "origin_pattern list"
  co_allowed_methods :: "string list"
  co_allow_methods_header :: string
  co_allow_headers_header :: string

definition parse_origin_pattern :: "string \<Rightarrow> origin_pattern result" where
  "parse_origin_pattern v =
     throw_if (v = []) (Runtime_Error ''cors: origin pattern must not be empty'')
       (Inr \<lparr>op_value = v, op_allow_any = (v = ''*'')\<rparr>)"

definition parse_origin_patterns :: "string \<Rightarrow> origin_pattern list result" where
  "parse_origin_patterns v =
     bindE (traverse parse_origin_pattern (filter (\<lambda>f. f \<noteq> []) (cors_split_fields v (CHR '',''))))
       (\<lambda>ps. throw_if (ps = []) (Runtime_Error ''cors: rule requires at least one origin'') (Inr ps))"

definition parse_allowed_methods :: "string \<Rightarrow> string list result" where
  "parse_allowed_methods v =
     (let ms = map cors_ascii_lowercase (filter (\<lambda>f. f \<noteq> []) (cors_split_fields v (CHR '','')))
      in throw_if (ms = []) (Runtime_Error ''cors: rule requires at least one method'') (Inr ms))"

definition cors_parse_rule_line :: "string \<Rightarrow> cors_rule result" where
  "cors_parse_rule_line line =
     (let fields = cors_split_fields (drop 5 line) (CHR ''|'') in
      throw_if (length fields \<noteq> 4) (Runtime_Error ''cors: rule requires 4 fields'')
       (case cors_classify_target_pattern (fields ! 0) of (kind, pat) \<Rightarrow>
        bindE (parse_origin_patterns (fields ! 1)) (\<lambda>origins.
        bindE (parse_allowed_methods (fields ! 2)) (\<lambda>methods.
        throw_if (pat = []) (Runtime_Error ''cors: target pattern must not be empty'')
          (Inr \<lparr>co_target_pattern = pat, co_target_kind = kind, co_allowed_origins = origins,
                co_allowed_methods = methods, co_allow_methods_header = fields ! 2,
                co_allow_headers_header = fields ! 3\<rparr>)))))"

definition cors_create :: "string \<Rightarrow> cors_rule list result" where
  "cors_create config_text = parse_selected cors_is_rule_line cors_parse_rule_line config_text"

definition is_preflight_request :: "request \<Rightarrow> bool" where
  "is_preflight_request req \<longleftrightarrow> req_method req = ''OPTIONS'' \<and> header_value req ''Origin'' \<noteq> None \<and>
     header_value req ''Access-Control-Request-Method'' \<noteq> None"

definition origin_matches :: "origin_pattern \<Rightarrow> string \<Rightarrow> bool" where
  "origin_matches p origin \<longleftrightarrow> op_allow_any p \<or> op_value p = origin"

definition origin_allowed :: "cors_rule \<Rightarrow> string \<Rightarrow> bool" where
  "origin_allowed rule origin = list_ex (\<lambda>p. origin_matches p origin) (co_allowed_origins rule)"

definition any_origin_allowed :: "cors_rule \<Rightarrow> bool" where
  "any_origin_allowed rule = list_ex op_allow_any (co_allowed_origins rule)"

definition method_allowed :: "cors_rule \<Rightarrow> string \<Rightarrow> bool" where
  "method_allowed rule m =
     (let normalized = cors_ascii_lowercase m in list_ex (\<lambda>a. a = normalized) (co_allowed_methods rule))"

definition allowed_origin_value :: "cors_rule \<Rightarrow> string \<Rightarrow> string" where
  "allowed_origin_value rule request_origin =
     (if any_origin_allowed rule then ''*'' else request_origin)"

definition add_cors_headers :: "cors_rule \<Rightarrow> string \<Rightarrow> response \<Rightarrow> response result" where
  "add_cors_headers rule request_origin r =
     bindE (set_header ''Access-Control-Allow-Origin'' (allowed_origin_value rule request_origin) r)
       (\<lambda>r. if \<not> any_origin_allowed rule then add_header ''Vary'' ''Origin'' r else Inr r)"

definition make_preflight_response :: "cors_rule \<Rightarrow> string \<Rightarrow> response result" where
  "make_preflight_response rule request_origin =
     bindE (add_cors_headers rule request_origin
              (empty_response\<lparr>status := 204, reason := ''No Content'', content_length := Some 0\<rparr>))
       (\<lambda>r. bindE (set_header ''Access-Control-Allow-Methods'' (co_allow_methods_header rule) r)
         (\<lambda>r. if co_allow_headers_header rule \<noteq> []
               then set_header ''Access-Control-Allow-Headers'' (co_allow_headers_header rule) r
               else Inr r))"

definition make_cors_error :: "int \<Rightarrow> string \<Rightarrow> string \<Rightarrow> response" where
  "make_cors_error s r b = text_response s r b"

fun cors_rules_loop :: "cors_rule list \<Rightarrow> string \<Rightarrow> request \<Rightarrow> mod_result result" where
  "cors_rules_loop [] request_origin req = Inr res_pass"
| "cors_rules_loop (rule # rules) request_origin req =
     (if \<not> cors_target_matches (co_target_kind rule) (co_target_pattern rule) (target req)
      then cors_rules_loop rules request_origin req
      else if \<not> origin_allowed rule request_origin then
        (if is_preflight_request req
         then Inr (res_respond (make_cors_error 403 ''Forbidden'' (''cors origin not allowed'' @ [LF])))
         else Inr res_pass)
      else if is_preflight_request req then
        (let requested_method = (case header_value req ''Access-Control-Request-Method'' of
                                   None \<Rightarrow> [] | Some m \<Rightarrow> m)
         in if \<not> method_allowed rule requested_method
            then Inr (res_respond (make_cors_error 405 ''Method Not Allowed''
                                     (''cors method not allowed'' @ [LF])))
            else bindE (make_preflight_response rule request_origin) (\<lambda>r. Inr (res_respond r)))
      else if \<not> method_allowed rule (req_method req)
      then Inr (res_respond (make_cors_error 405 ''Method Not Allowed''
                               (''cors method not allowed'' @ [LF])))
      else
        (let res = res_add_response_header ''Access-Control-Allow-Origin''
                     (allowed_origin_value rule request_origin) res_pass
         in Inr (if \<not> any_origin_allowed rule then res_add_response_header ''Vary'' ''Origin'' res else res)))"

definition cors_handle :: "cors_rule list \<Rightarrow> request \<Rightarrow> mod_result result" where
  "cors_handle rules req =
     (case header_value req ''Origin'' of
        None \<Rightarrow> Inr res_pass
      | Some request_origin \<Rightarrow> cors_rules_loop rules request_origin req)"

section \<open>The module as a rule list\<close>

definition cors_covers :: "cors_rule \<Rightarrow> request \<Rightarrow> bool" where
  "cors_covers rule req \<longleftrightarrow> target_matches (co_target_kind rule) (co_target_pattern rule) (target req)"

definition cors_act :: "string \<Rightarrow> cors_rule \<Rightarrow> request \<Rightarrow> mod_result result" where
  "cors_act request_origin rule req = cors_rules_loop [rule] request_origin req"

interpretation cors:
  rule_module cors_covers "cors_act orig" "Inr res_pass" "\<lambda>rules. cors_rules_loop rules orig" for orig
  by unfold_locales (simp_all add: cors_act_def cors_covers_def)

text \<open>The headers of the preflight answer.\<close>

definition cors_origin_headers :: "cors_rule \<Rightarrow> string \<Rightarrow> header_field list" where
  "cors_origin_headers rule request_origin =
     \<lparr>hname = ''Access-Control-Allow-Origin'', hvalue = allowed_origin_value rule request_origin\<rparr> #
     (if any_origin_allowed rule then [] else [\<lparr>hname = ''Vary'', hvalue = ''Origin''\<rparr>])"

definition preflight_headers :: "cors_rule \<Rightarrow> string \<Rightarrow> header_field list" where
  "preflight_headers rule request_origin =
     cors_origin_headers rule request_origin @
     [\<lparr>hname = ''Access-Control-Allow-Methods'', hvalue = co_allow_methods_header rule\<rparr>] @
     (if co_allow_headers_header rule = [] then []
      else [\<lparr>hname = ''Access-Control-Allow-Headers'', hvalue = co_allow_headers_header rule\<rparr>])"

lemma cors_header_names:
  "valid_header_name ''Access-Control-Allow-Origin''" "valid_header_name ''Vary''"
  "valid_header_name ''Access-Control-Allow-Methods''" "valid_header_name ''Access-Control-Allow-Headers''"
  "valid_header_value ''Origin''" "valid_header_value ''*''"
  by code_simp+

lemma cors_names_differ:
  "\<not> header_name_equals ''Access-Control-Allow-Origin'' ''Access-Control-Allow-Methods''"
  "\<not> header_name_equals ''Access-Control-Allow-Origin'' ''Access-Control-Allow-Headers''"
  "\<not> header_name_equals ''Access-Control-Allow-Methods'' ''Access-Control-Allow-Headers''"
  "\<not> header_name_equals ''Vary'' ''Access-Control-Allow-Methods''"
  "\<not> header_name_equals ''Vary'' ''Access-Control-Allow-Headers''"
  by code_simp+

lemma make_preflight_response_headers:
  assumes "make_preflight_response rule request_origin = Inr r"
  shows "r = empty_response\<lparr>status := 204, reason := ''No Content'', content_length := Some 0,
                            resp_headers := preflight_headers rule request_origin\<rparr>"
  using assms
  by (auto simp: make_preflight_response_def add_cors_headers_def set_header_def add_header_def
      outcome_simps empty_response_def preflight_headers_def cors_origin_headers_def cors_names_differ
      split: if_splits option.splits)

lemma make_preflight_response_ok:
  assumes "valid_header_value request_origin" "valid_header_value (co_allow_methods_header rule)"
    "valid_header_value (co_allow_headers_header rule)"
  shows "\<exists>r. make_preflight_response rule request_origin = Inr r"
  using assms
  by (auto simp: make_preflight_response_def add_cors_headers_def set_header_def add_header_def
      validate_header_def cors_header_names empty_response_def allowed_origin_value_def cors_names_differ)


lemma cors_handle_find:
  "cors_handle rules req =
     (case header_value req ''Origin'' of
        None \<Rightarrow> Inr res_pass
      | Some orig \<Rightarrow> (case find (\<lambda>r. cors_covers r req) rules of
                       None \<Rightarrow> Inr res_pass | Some rule \<Rightarrow> cors_act orig rule req))"
  by (simp add: cors_handle_def cors.handle_find split: option.split)

lemma find_SomeD: "find P xs = Some x \<Longrightarrow> x \<in> set xs \<and> P x"
  by (induction xs) (auto split: if_splits)

lemma carried_headers_simps [simp]:
  "carried_headers (res_respond r) = resp_headers r"
  "carried_headers res_pass = []"
  "carried_headers (res_add_response_header n v res) = carried_headers res @ [\<lparr>hname = n, hvalue = v\<rparr>]"
  by (simp_all add: carried_headers_def res_respond_def res_pass_def res_add_response_header_def)

lemma error_headers [simp]: "resp_headers (make_cors_error s r b) = []"
  by (simp add: make_cors_error_def text_response_def empty_response_def)

lemma cors_act_origin:
  assumes "cors_covers rule req" and "cors_act orig rule req = Inr res"
    and "\<lparr>hname = ''Access-Control-Allow-Origin'', hvalue = v\<rparr> \<in> set (carried_headers res)"
  shows "origin_allowed rule orig \<and> v = allowed_origin_value rule orig \<and>
         set (cors_origin_headers rule orig) \<subseteq> set (carried_headers res)"
proof (cases "is_preflight_request req")
  case True
  have "origin_allowed rule orig \<and> (\<exists>r. make_preflight_response rule orig = Inr r \<and> res = res_respond r)"
    using assms True
    by (auto simp: cors_act_def cors_covers_def Let_def outcome_simps split: if_splits option.splits)
  then obtain r where r: "origin_allowed rule orig" "make_preflight_response rule orig = Inr r"
    "res = res_respond r" by blast
  then have "carried_headers res = preflight_headers rule orig"
    using make_preflight_response_headers [OF r(2)] by simp
  with assms(3) r(1) show ?thesis
    by (auto simp: preflight_headers_def cors_origin_headers_def split: if_splits)
next
  case False
  with assms show ?thesis
    by (auto simp: cors_act_def cors_covers_def cors_origin_headers_def Let_def split: if_splits)
qed

text \<open>
  C38 (safety). The CORS module never grants cross-origin access that its configuration does
  not allow: an \<^verbatim>\<open>Access-Control-Allow-Origin\<close> header it emits, on a preflight answer or for a
  later response, comes from the first rule that covers the target, this rule allows the
  request's origin, and the value is \<^verbatim>\<open>*\<close> only if the rule has the wildcard and the origin
  itself otherwise, in which case \<^verbatim>\<open>Vary: Origin\<close> goes with it.
\<close>

theorem cors_grants_only_allowed:
  assumes "cors_handle rules req = Inr res"
    and "\<lparr>hname = ''Access-Control-Allow-Origin'', hvalue = v\<rparr> \<in> set (carried_headers res)"
  shows "\<exists>rule orig. header_value req ''Origin'' = Some orig \<and>
           find (\<lambda>r. cors_covers r req) rules = Some rule \<and> origin_allowed rule orig \<and>
           (if any_origin_allowed rule then v = ''*''
            else v = orig \<and> \<lparr>hname = ''Vary'', hvalue = ''Origin''\<rparr> \<in> set (carried_headers res))"
proof -
  obtain orig where o: "header_value req ''Origin'' = Some orig"
    using assms by (cases "header_value req ''Origin''") (auto simp: cors_handle_find)
  obtain rule where r: "find (\<lambda>r. cors_covers r req) rules = Some rule"
    using assms o by (cases "find (\<lambda>r. cors_covers r req) rules") (auto simp: cors_handle_find)
  have "cors_act orig rule req = Inr res" using assms(1) o r by (simp add: cors_handle_find)
  from cors_act_origin [OF _ this assms(2)] find_SomeD [OF r] o r show ?thesis
    by (auto simp: allowed_origin_value_def cors_origin_headers_def split: if_splits)
qed

definition sample_cors_config :: string where
  "sample_cors_config = ''rule=/api/*|http://a.example,http://b.example|GET,HEAD|X-Key'' @ [LF]"

definition sample_cors_request :: request where
  "sample_cors_request = sample_request\<lparr>target := ''/api/x'',
     req_headers := [\<lparr>hname = ''Origin'', hvalue = ''http://b.example''\<rparr>]\<rparr>"

definition sample_cors_rule :: cors_rule where
  "sample_cors_rule =
     \<lparr>co_target_pattern = ''/api/'', co_target_kind = Prefix_pattern,
      co_allowed_origins = [\<lparr>op_value = ''http://a.example'', op_allow_any = False\<rparr>,
                            \<lparr>op_value = ''http://b.example'', op_allow_any = False\<rparr>],
      co_allowed_methods = [''get'', ''head''], co_allow_methods_header = ''GET,HEAD'',
      co_allow_headers_header = ''X-Key''\<rparr>"

lemma sample_cors_create: "cors_create sample_cors_config = Inr [sample_cors_rule]"
  by code_simp

theorem cors_grants_only_allowed_witness:
  "\<exists>rule orig. header_value sample_cors_request ''Origin'' = Some orig \<and>
     find (\<lambda>r. cors_covers r sample_cors_request) [sample_cors_rule] = Some rule \<and>
     origin_allowed rule orig"
proof -
  let ?res = "\<lparr>mr_next = Out_pass, mr_response_value = None, mr_response_headers =
      [\<lparr>hname = ''Access-Control-Allow-Origin'', hvalue = ''http://b.example''\<rparr>,
       \<lparr>hname = ''Vary'', hvalue = ''Origin''\<rparr>]\<rparr>"
  have h: "cors_handle [sample_cors_rule] sample_cors_request = Inr ?res" by code_simp
  have m: "\<lparr>hname = ''Access-Control-Allow-Origin'', hvalue = ''http://b.example''\<rparr> \<in> set (carried_headers ?res)"
    by (simp add: carried_headers_def)
  from cors_grants_only_allowed [OF h m] show ?thesis by blast
qed

section \<open>Preflight requests\<close>

lemma cors_rule_line_values:
  assumes "cors_parse_rule_line line = Inr rule"
  shows "set (co_allow_methods_header rule) \<subseteq> set line \<and> set (co_allow_headers_header rule) \<subseteq> set line"
proof -
  let ?f = "split_fields (drop 5 line) (CHR ''|'')"
  have l: "length ?f = 4" and v: "co_allow_methods_header rule = ?f ! 2" "co_allow_headers_header rule = ?f ! 3"
    using assms by (auto simp: cors_parse_rule_line_def Let_def outcome_simps split: prod.splits)
  have "set (?f ! i) \<subseteq> set line" if "i < 4" for i
  proof -
    have "?f ! i \<in> set ?f" using that l by simp
    then have "set (?f ! i) \<subseteq> set (drop 5 line)" by (rule split_fields_chars)
    then show ?thesis using set_drop_subset [of 5 line] by blast
  qed
  then show ?thesis by (simp add: v)
qed

lemma cors_create_values:
  assumes "cors_create text = Inr rules" and "CR \<notin> set text" and "rule \<in> set rules"
  shows "valid_header_value (co_allow_methods_header rule) \<and> valid_header_value (co_allow_headers_header rule)"
proof -
  obtain line where "line \<in> set (config_lines text)" "cors_parse_rule_line line = Inr rule"
    using traverse_set [OF assms(1) [unfolded cors_create_def parse_selected_def] assms(3)] by auto
  with cors_rule_line_values [of line rule] config_lines_chars [of line "text"] assms(2) show ?thesis
    by (auto simp: valid_header_value_iff)
qed

lemma wf_request_header_value:
  assumes "wf_request req" and "header_value req n = Some v"
  shows "valid_header_value v"
proof -
  from assms(2) obtain h where "h \<in> set (req_headers req)" "hvalue h = v"
    by (auto simp: header_value_def find_header_def find_header_in_def dest!: find_SomeD)
  with assms(1) show ?thesis
    using header_value_props by (auto simp: wf_request_def wf_header_def list_all_iff valid_header_value_iff)
qed

text \<open>
  A preflight request is answered by the first rule that covers its target:
  403 for an origin the rule does not list, 405 for a requested method it does not list,
  otherwise 204 with the allowed origin, methods and headers and an empty body. (The
  configuration has no carriage return inside a line; the request is one the parser
  produced.)
\<close>

theorem cors_preflight_answer:
  assumes "cors_create text = Inr rules" and "CR \<notin> set text" and "wf_request req"
    and "is_preflight_request req"
    and "header_value req ''Origin'' = Some orig"
    and "header_value req ''Access-Control-Request-Method'' = Some m"
    and "find (\<lambda>r. cors_covers r req) rules = Some rule"
  shows "cors_handle rules req = Inr (res_respond
           (if \<not> origin_allowed rule orig
            then text_response 403 ''Forbidden'' (''cors origin not allowed'' @ [LF])
            else if \<not> method_allowed rule m
            then text_response 405 ''Method Not Allowed'' (''cors method not allowed'' @ [LF])
            else empty_response\<lparr>status := 204, reason := ''No Content'', content_length := Some 0,
                                resp_headers := preflight_headers rule orig\<rparr>))"
proof -
  have cov: "cors_covers rule req" "rule \<in> set rules" using find_SomeD [OF assms(7)] by auto
  obtain r where r: "make_preflight_response rule orig = Inr r"
    using make_preflight_response_ok [of orig rule] cors_create_values [OF assms(1,2) cov(2)]
      wf_request_header_value [OF assms(3,5)] by blast
  with make_preflight_response_headers [OF r] cov(1) assms(4-7) show ?thesis
    by (simp add: cors_handle_find cors_act_def cors_covers_def make_cors_error_def)
qed

definition sample_preflight :: request where
  "sample_preflight = sample_cors_request\<lparr>req_method := ''OPTIONS'',
     req_headers := [\<lparr>hname = ''Origin'', hvalue = ''http://b.example''\<rparr>,
                     \<lparr>hname = ''Access-Control-Request-Method'', hvalue = ''Get''\<rparr>]\<rparr>"

theorem cors_preflight_answer_witness:
  "cors_handle [sample_cors_rule] sample_preflight = Inr (res_respond
     (empty_response\<lparr>status := 204, reason := ''No Content'', content_length := Some 0,
        resp_headers := preflight_headers sample_cors_rule ''http://b.example''\<rparr>))"
proof -
  have a: "CR \<notin> set sample_cors_config" by code_simp
  have b: "wf_request sample_preflight" by code_simp
  have c: "is_preflight_request sample_preflight" by code_simp
  have d: "header_value sample_preflight ''Origin'' = Some ''http://b.example''" by code_simp
  have e: "header_value sample_preflight ''Access-Control-Request-Method'' = Some ''Get''" by code_simp
  have f: "find (\<lambda>r. cors_covers r sample_preflight) [sample_cors_rule] = Some sample_cors_rule" by code_simp
  have g: "origin_allowed sample_cors_rule ''http://b.example''" "method_allowed sample_cors_rule ''Get''"
    by code_simp+
  from cors_preflight_answer [OF sample_cors_create a b c d e f] g show ?thesis by simp
qed

end
