(* ===== verification/Work_Queue.thy ===== *)
theory Work_Queue
  imports Net_Stream
begin

text \<open>
  The bounded queue between the accept loop and the workers
  (\<^verbatim>\<open>src/src/app/work_queue.cpp\<close>). Every operation runs under the queue's mutex, so it is
  one atomic step on the state. A blocking operation yields \<open>None\<close> while the caller stays in
  its condition wait; \<open>stop\<close> says whether the caller's stop token is set when the
  condition is evaluated.
\<close>

section \<open>State and operations\<close>

datatype queue_push_result = Push_queued | Push_full | Push_closed

record work_queue =
  wq_capacity :: nat
  wq_sockets :: "socket list"
  wq_closed :: bool

definition work_queue_create :: "nat \<Rightarrow> work_queue result" where
  "work_queue_create cap =
     throw_if (cap = 0) (Invalid_Argument ''work_queue capacity must be greater than zero'')
       (Inr \<lparr>wq_capacity = cap, wq_sockets = [], wq_closed = False\<rparr>)"

definition wq_push :: "socket \<Rightarrow> bool \<Rightarrow> work_queue \<Rightarrow> (queue_push_result \<times> work_queue) option" where
  "wq_push s stop q =
     (let ready = (wq_closed q \<or> length (wq_sockets q) < wq_capacity q) in
      if \<not> ready then (if stop then Some (Push_closed, q) else None)
      else if wq_closed q then Some (Push_closed, q)
      else Some (Push_queued, q\<lparr>wq_sockets := wq_sockets q @ [s]\<rparr>))"

definition wq_try_push :: "socket \<Rightarrow> work_queue \<Rightarrow> queue_push_result \<times> work_queue" where
  "wq_try_push s q =
     (if wq_closed q \<or> length (wq_sockets q) \<ge> wq_capacity q
      then (if wq_closed q then Push_closed else Push_full, q)
      else (Push_queued, q\<lparr>wq_sockets := wq_sockets q @ [s]\<rparr>))"

definition wq_pop :: "bool \<Rightarrow> work_queue \<Rightarrow> (socket option \<times> work_queue) option" where
  "wq_pop stop q =
     (let ready = (wq_closed q \<or> wq_sockets q \<noteq> []) in
      if \<not> ready then (if stop then Some (None, q) else None)
      else (case wq_sockets q of
              [] \<Rightarrow> Some (None, q)
            | s # rest \<Rightarrow> Some (Some s, q\<lparr>wq_sockets := rest\<rparr>)))"

definition wq_close :: "work_queue \<Rightarrow> work_queue" where
  "wq_close q = q\<lparr>wq_closed := True\<rparr>"

definition wq_size :: "work_queue \<Rightarrow> nat" where
  "wq_size q = length (wq_sockets q)"

section \<open>The contract of a bounded queue\<close>

text \<open>
  What the producers and consumers rely on: an accepted element goes to the back, a taken one
  comes from the front, nothing else changes the contents, and the capacity bounds them.
\<close>

locale bounded_queue =
  fixes contents :: "'q \<Rightarrow> 'a list"
    and capacity :: "'q \<Rightarrow> nat"
    and is_closed :: "'q \<Rightarrow> bool"
    and put :: "'a \<Rightarrow> 'q \<Rightarrow> queue_push_result \<times> 'q"
    and take_one :: "bool \<Rightarrow> 'q \<Rightarrow> ('a option \<times> 'q) option"
  assumes put_queued: "put x q = (Push_queued, q') \<Longrightarrow>
      contents q' = contents q @ [x] \<and> capacity q' = capacity q \<and> is_closed q' = is_closed q \<and>
      length (contents q) < capacity q \<and> \<not> is_closed q"
    and put_refused: "put x q = (r, q') \<Longrightarrow> r \<noteq> Push_queued \<Longrightarrow>
      q' = q \<and> (if r = Push_closed then is_closed q else length (contents q) \<ge> capacity q)"
    and take_some: "take_one stop q = Some (Some x, q') \<Longrightarrow>
      contents q = x # contents q' \<and> capacity q' = capacity q \<and> is_closed q' = is_closed q"
    and take_none: "take_one stop q = Some (None, q') \<Longrightarrow>
      q' = q \<and> contents q = [] \<and> (is_closed q \<or> stop)"
    and take_blocks: "take_one stop q = None \<longleftrightarrow> contents q = [] \<and> \<not> is_closed q \<and> \<not> stop"
begin

lemma put_bound:
  assumes "length (contents q) \<le> capacity q" and "put x q = (r, q')"
  shows "length (contents q') \<le> capacity q' \<and> capacity q' = capacity q"
  using assms put_queued [of x q q'] put_refused [of x q r q'] by (cases "r = Push_queued") auto

lemma take_bound:
  assumes "length (contents q) \<le> capacity q" and "take_one stop q = Some (r, q')"
  shows "length (contents q') \<le> capacity q' \<and> capacity q' = capacity q"
  using assms take_some [of stop q _ q'] take_none [of stop q q'] by (cases r) fastforce+

lemma take_nonempty: "contents q = x # xs \<Longrightarrow> \<exists>q'. take_one stop q = Some (Some x, q') \<and> contents q' = xs"
proof -
  assume c: "contents q = x # xs"
  with take_blocks [of stop q] obtain r q' where t: "take_one stop q = Some (r, q')" by fastforce
  with take_none [of stop q q'] c obtain y where "r = Some y" by (cases r) auto
  with take_some [of stop q y q'] t c show ?thesis by auto
qed

lemma take_closed_returns: "is_closed q \<Longrightarrow> \<exists>r. take_one stop q = Some r"
  using take_blocks [of stop q] by (cases "take_one stop q") auto

end

interpretation wq: bounded_queue wq_sockets wq_capacity wq_closed wq_try_push wq_pop
  by unfold_locales
    (auto simp: wq_try_push_def wq_pop_def Let_def split: if_splits list.splits)

section \<open>Any history of operations\<close>

datatype queue_op = Op_push socket bool | Op_try_push socket | Op_pop bool | Op_close

text \<open>Runs the operations; the pushes that were queued and the sockets that were popped, in order.
  A blocked operation changes nothing.\<close>

fun run_op :: "queue_op \<Rightarrow> work_queue \<Rightarrow> socket list \<times> socket list \<times> work_queue" where
  "run_op (Op_push s stop) q =
     (case wq_push s stop q of
        Some (Push_queued, q') \<Rightarrow> ([s], [], q') | Some (_, q') \<Rightarrow> ([], [], q') | None \<Rightarrow> ([], [], q))"
| "run_op (Op_try_push s) q =
     (case wq_try_push s q of (Push_queued, q') \<Rightarrow> ([s], [], q') | (_, q') \<Rightarrow> ([], [], q'))"
| "run_op (Op_pop stop) q =
     (case wq_pop stop q of
        Some (Some s, q') \<Rightarrow> ([], [s], q') | Some (None, q') \<Rightarrow> ([], [], q') | None \<Rightarrow> ([], [], q))"
| "run_op Op_close q = ([], [], wq_close q)"

fun run_ops :: "queue_op list \<Rightarrow> work_queue \<Rightarrow> socket list \<times> socket list \<times> work_queue" where
  "run_ops [] q = ([], [], q)"
| "run_ops (op # ops) q =
     (case run_op op q of (ins, outs, q1) \<Rightarrow>
        (case run_ops ops q1 of (ins', outs', q2) \<Rightarrow> (ins @ ins', outs @ outs', q2)))"

lemma run_op_step:
  assumes "run_op op q = (ins, outs, q')"
  shows "wq_sockets q @ ins = outs @ wq_sockets q' \<and> wq_capacity q' = wq_capacity q \<and>
         (length (wq_sockets q) \<le> wq_capacity q \<longrightarrow> length (wq_sockets q') \<le> wq_capacity q) \<and>
         (wq_closed q \<longrightarrow> ins = [] \<and> wq_closed q')"
  using assms
  by (cases op)
    (auto simp: wq_push_def wq_try_push_def wq_pop_def wq_close_def Let_def
      split: if_splits list.splits)

text \<open>
  C39 (refinement). Under any interleaving of pushes, pops and closes the work queue is a
  bounded FIFO: the sockets taken out, followed by those still queued, are the sockets
  queued before followed by those accepted since, in the same order; no accepted socket
  is lost or duplicated, the capacity is never exceeded, and once the queue is closed it
  accepts nothing.
\<close>

theorem work_queue_fifo:
  assumes "length (wq_sockets q) \<le> wq_capacity q" and "run_ops ops q = (ins, outs, q')"
  shows "outs @ wq_sockets q' = wq_sockets q @ ins \<and> length (wq_sockets q') \<le> wq_capacity q \<and>
         wq_capacity q' = wq_capacity q \<and> (wq_closed q \<longrightarrow> ins = [] \<and> wq_closed q')"
  using assms
proof (induction ops arbitrary: q ins outs q')
  case (Cons op ops)
  obtain i1 o1 q1 where one: "run_op op q = (i1, o1, q1)" by (metis prod_cases3)
  obtain i2 o2 q2 where two: "run_ops ops q1 = (i2, o2, q2)" by (metis prod_cases3)
  have e: "ins = i1 @ i2" "outs = o1 @ o2" "q' = q2" using Cons.prems(2) one two by auto
  note s = run_op_step [OF one]
  have "length (wq_sockets q1) \<le> wq_capacity q1" using s Cons.prems(1) by simp
  from Cons.IH [OF this two] s e show ?case by (metis append.assoc append_Nil)
qed auto

theorem work_queue_fifo_witness:
  "\<exists>outs q'. run_ops [Op_try_push \<lparr>sock_fd = 4, peer_address = ''10.0.0.1''\<rparr>, Op_pop False, Op_close]
       \<lparr>wq_capacity = 2, wq_sockets = [\<lparr>sock_fd = 3, peer_address = ''10.0.0.2''\<rparr>], wq_closed = False\<rparr>
     = ([\<lparr>sock_fd = 4, peer_address = ''10.0.0.1''\<rparr>], outs, q') \<and> length outs = 1 \<and>
     outs @ wq_sockets q' = [\<lparr>sock_fd = 3, peer_address = ''10.0.0.2''\<rparr>] @ [\<lparr>sock_fd = 4, peer_address = ''10.0.0.1''\<rparr>]"
proof -
  let ?q = "\<lparr>wq_capacity = 2, wq_sockets = [\<lparr>sock_fd = 3, peer_address = ''10.0.0.2''\<rparr>], wq_closed = False\<rparr>"
  have r: "run_ops [Op_try_push \<lparr>sock_fd = 4, peer_address = ''10.0.0.1''\<rparr>, Op_pop False, Op_close] ?q =
      ([\<lparr>sock_fd = 4, peer_address = ''10.0.0.1''\<rparr>], [\<lparr>sock_fd = 3, peer_address = ''10.0.0.2''\<rparr>],
       \<lparr>wq_capacity = 2, wq_sockets = [\<lparr>sock_fd = 4, peer_address = ''10.0.0.1''\<rparr>], wq_closed = True\<rparr>)"
    by code_simp
  have "length (wq_sockets ?q) \<le> wq_capacity ?q" by simp
  from work_queue_fifo [OF this r] r show ?thesis by simp
qed

end
