(* ===== verification/Ip_Limiter.thy ===== *)
theory Ip_Limiter
  imports Prelude
begin

text \<open>
  The per-address admission counter (\<^verbatim>\<open>src/src/app/ip_connection_limiter.cpp\<close>). The
  \<^verbatim>\<open>unordered_map\<close> is a map; \<open>try_acquire\<close> and \<open>release\<close> each hold the mutex for their whole body.
\<close>

section \<open>State and operations\<close>

record ip_limiter =
  lim_per_ip :: nat
  lim_inflight :: "string \<rightharpoonup> nat"

definition ip_limiter_create :: "nat \<Rightarrow> ip_limiter result" where
  "ip_limiter_create n =
     throw_if (n = 0) (Invalid_Argument ''ip_connection_limiter limit must be greater than zero'')
       (Inr \<lparr>lim_per_ip = n, lim_inflight = Map.empty\<rparr>)"

text \<open>\<^verbatim>\<open>operator[]\<close> inserts a zero count for a new key.\<close>

definition try_acquire :: "string \<Rightarrow> ip_limiter \<Rightarrow> bool \<times> ip_limiter" where
  "try_acquire peer l =
     (if peer = [] then (True, l)
      else (let count = (case lim_inflight l peer of None \<Rightarrow> 0 | Some c \<Rightarrow> c);
                l1 = l\<lparr>lim_inflight := (lim_inflight l)(peer \<mapsto> count)\<rparr>
            in if count \<ge> lim_per_ip l then (False, l1)
               else (True, l1\<lparr>lim_inflight := (lim_inflight l1)(peer \<mapsto> count + 1)\<rparr>)))"

definition release :: "string \<Rightarrow> ip_limiter \<Rightarrow> ip_limiter" where
  "release peer l =
     (if peer = [] then l
      else (case lim_inflight l peer of
              None \<Rightarrow> l
            | Some c \<Rightarrow>
                if c > 1 then l\<lparr>lim_inflight := (lim_inflight l)(peer \<mapsto> c - 1)\<rparr>
                else l\<lparr>lim_inflight := (lim_inflight l)(peer := None)\<rparr>))"

definition inflight_count :: "ip_limiter \<Rightarrow> string \<Rightarrow> nat" where
  "inflight_count l peer = (case lim_inflight l peer of None \<Rightarrow> 0 | Some c \<Rightarrow> c)"

text \<open>Every stored count is between one and the limit: no entry outlives its connections.\<close>

definition lim_inv :: "ip_limiter \<Rightarrow> bool" where
  "lim_inv l \<longleftrightarrow> 0 < lim_per_ip l \<and> (\<forall>ip c. lim_inflight l ip = Some c \<longrightarrow> 0 < c \<and> c \<le> lim_per_ip l \<and> ip \<noteq> [])"

section \<open>The contract of an admission counter\<close>

text \<open>
  A client holds a list of addresses it acquired and has not released. \<open>balanced l held\<close> says the
  counter agrees with the list; acquiring and releasing keep it so.
\<close>

locale admission =
  fixes acquire :: "string \<Rightarrow> 'l \<Rightarrow> bool \<times> 'l"
    and give_back :: "string \<Rightarrow> 'l \<Rightarrow> 'l"
    and count :: "'l \<Rightarrow> string \<Rightarrow> nat"
    and limit :: "'l \<Rightarrow> nat"
    and inv :: "'l \<Rightarrow> bool"
  assumes acquire_inv: "inv l \<Longrightarrow> acquire ip l = (b, l') \<Longrightarrow> inv l' \<and> limit l' = limit l"
    and acquire_granted: "inv l \<Longrightarrow> ip \<noteq> [] \<Longrightarrow> acquire ip l = (b, l') \<Longrightarrow>
      b = (count l ip < limit l) \<and> count l' = (count l)(ip := count l ip + (if b then 1 else 0))"
    and acquire_unknown: "acquire [] l = (b, l') \<Longrightarrow> b \<and> l' = l"
    and give_back_inv: "inv l \<Longrightarrow> inv (give_back ip l) \<and> limit (give_back ip l) = limit l"
    and give_back_count: "inv l \<Longrightarrow> ip \<noteq> [] \<Longrightarrow> count (give_back ip l) = (count l)(ip := count l ip - 1)"
    and give_back_unknown: "give_back [] l = l"
    and count_limit: "inv l \<Longrightarrow> ip \<noteq> [] \<Longrightarrow> count l ip \<le> limit l"
begin

definition balanced :: "'l \<Rightarrow> string list \<Rightarrow> bool" where
  "balanced l held \<longleftrightarrow> inv l \<and> (\<forall>ip. ip \<noteq> [] \<longrightarrow> count l ip = length (filter ((=) ip) held))"

lemma balanced_acquire:
  assumes "balanced l held" and "acquire ip l = (True, l')"
  shows "balanced l' (ip # held)"
  using assms acquire_inv [of l ip True l'] acquire_granted [of l ip True l'] acquire_unknown [of l True l']
  by (cases "ip = []") (auto simp: balanced_def)

lemma balanced_refused:
  assumes "balanced l held" and "acquire ip l = (False, l')"
  shows "balanced l' held \<and> ip \<noteq> [] \<and> length (filter ((=) ip) held) = limit l"
  using assms acquire_inv [of l ip False l'] acquire_granted [of l ip False l']
    acquire_unknown [of l False l'] count_limit [of l ip]
  by (cases "ip = []") (auto simp: balanced_def)

lemma balanced_release:
  assumes "balanced l (ip # held)"
  shows "balanced (give_back ip l) held"
  using assms give_back_inv [of l ip] give_back_count [of l ip] give_back_unknown [of l]
  by (cases "ip = []") (auto simp: balanced_def)

lemma balanced_inv: "balanced l held \<Longrightarrow> inv l"
  by (simp add: balanced_def)

lemma balanced_perm:
  assumes "balanced l held" and "\<And>ip. length (filter ((=) ip) held') = length (filter ((=) ip) held)"
  shows "balanced l held'"
  using assms by (auto simp: balanced_def)

theorem balanced_bound: "balanced l held \<Longrightarrow> ip \<noteq> [] \<Longrightarrow> length (filter ((=) ip) held) \<le> limit l"
  using count_limit [of l ip] by (auto simp: balanced_def)

end

interpretation lim: admission try_acquire release inflight_count lim_per_ip lim_inv
proof unfold_locales
  fix l ip b l'
  assume i: "lim_inv l"
  show "try_acquire ip l = (b, l') \<Longrightarrow> lim_inv l' \<and> lim_per_ip l' = lim_per_ip l"
    using i by (fastforce simp: lim_inv_def try_acquire_def Let_def split: if_splits option.splits)
  show "ip \<noteq> [] \<Longrightarrow> try_acquire ip l = (b, l') \<Longrightarrow>
      b = (inflight_count l ip < lim_per_ip l) \<and>
      inflight_count l' = (inflight_count l)(ip := inflight_count l ip + (if b then 1 else 0))"
    by (auto simp: try_acquire_def inflight_count_def Let_def fun_eq_iff split: if_splits option.splits)
  show "lim_inv (release ip l) \<and> lim_per_ip (release ip l) = lim_per_ip l"
    using i by (fastforce simp: lim_inv_def release_def split: option.splits if_splits)
  show "ip \<noteq> [] \<Longrightarrow> inflight_count (release ip l) = (inflight_count l)(ip := inflight_count l ip - 1)"
    using i by (auto simp: lim_inv_def release_def inflight_count_def fun_eq_iff split: option.splits)
  show "ip \<noteq> [] \<Longrightarrow> inflight_count l ip \<le> lim_per_ip l"
    using i by (auto simp: lim_inv_def inflight_count_def split: option.splits)
qed (auto simp: try_acquire_def release_def)

lemma balanced_create: "ip_limiter_create n = Inr l \<Longrightarrow> lim.balanced l [] \<and> lim_per_ip l = n"
  by (auto simp: ip_limiter_create_def outcome_simps lim.balanced_def lim_inv_def inflight_count_def)

end
