(* ===== verification/Server_Runtime.thy ===== *)
theory Server_Runtime
  imports Work_Queue Ip_Limiter
begin

text \<open>
  The concurrent runtime (\<^verbatim>\<open>src/src/server.cpp\<close>, \<^verbatim>\<open>src/src/app/worker_pool.cpp\<close>): the accept loop,
  the worker threads, the queue and the per-address limiter they share. Queue and limiter
  have separate mutexes, so the accept loop's acquire, push and release are separate steps
  that workers may interleave with. What a worker does with a connection is not part of
  this state; it starts, and at some point it returns or throws.
\<close>

section \<open>Operations of the server\<close>

definition max_connections_per_ip :: nat where
  "max_connections_per_ip = 8"

datatype runtime_event =
    On_accept_error errno bool
  | On_connection_rejected string
  | On_worker_error string

definition handle_accept_result :: "accept_error \<Rightarrow> runtime_event list \<times> unit result" where
  "handle_accept_result e =
     ([On_accept_error (acc_error e) (acc_fatal e)],
      throw_if (acc_fatal e) (Runtime_Error ''fatal accept() failure'') (Inr ()))"

fun handle_queue_result :: "queue_push_result \<Rightarrow> runtime_event list" where
  "handle_queue_result Push_queued = []"
| "handle_queue_result Push_full = [On_connection_rejected ''accepted-connection queue full'']"
| "handle_queue_result Push_closed = [On_connection_rejected ''accepted-connection queue closed'']"

definition limit_exceeded_event :: "string \<Rightarrow> runtime_event" where
  "limit_exceeded_event peer =
     On_connection_rejected (''per-IP concurrent connection limit exceeded: ''
       @ (if peer = [] then ''<unknown>'' else peer))"

datatype accept_phase =
    Accepting
  | Pushing socket                        \<comment> \<open>after \<open>try_acquire\<close>, before \<open>try_push\<close>\<close>
  | Releasing socket queue_push_result    \<comment> \<open>\<open>try_push\<close> refused, before \<open>release\<close>\<close>
  | Unwinding                             \<comment> \<open>the fatal accept error leaves \<open>run\<close>\<close>
  | Stopped                               \<comment> \<open>the pool's destructor has requested the stop\<close>

datatype worker = W_idle | W_busy socket | W_done

record server_state =
  sv_queue :: work_queue
  sv_limiter :: ip_limiter
  sv_phase :: accept_phase
  sv_workers :: "worker list"

text \<open>\<^verbatim>\<open>server::run\<close> up to the accept loop\<close>

definition server_start :: "nat \<Rightarrow> nat \<Rightarrow> server_state result" where
  "server_start cap worker_count =
     bindE (ip_limiter_create max_connections_per_ip) (\<lambda>l.
     bindE (work_queue_create cap) (\<lambda>q.
     throw_if (worker_count = 0) (Invalid_Argument ''worker_pool must have at least one worker'')
       (Inr \<lparr>sv_queue = q, sv_limiter = l, sv_phase = Accepting,
             sv_workers = replicate worker_count W_idle\<rparr>)))"

text \<open>\<^verbatim>\<open>worker_pool::request_stop\<close>; the stop tokens only matter to a worker that waits on an
  open queue, and the queue is closed first.\<close>

definition pool_request_stop :: "server_state \<Rightarrow> server_state" where
  "pool_request_stop s = s\<lparr>sv_queue := wq_close (sv_queue s), sv_phase := Stopped\<rparr>"

text \<open>The end of a worker's handler: the guard's destructor releases the address.\<close>

definition worker_finish :: "nat \<Rightarrow> socket \<Rightarrow> server_state \<Rightarrow> server_state" where
  "worker_finish i c s =
     s\<lparr>sv_limiter := release (peer_address c) (sv_limiter s), sv_workers := (sv_workers s)[i := W_idle]\<rparr>"

section \<open>Steps\<close>

datatype label =
    L_accept_error accept_error
  | L_refused socket
  | L_acquired socket
  | L_queued socket
  | L_not_queued socket
  | L_dropped socket queue_push_result
  | L_stop
  | L_started nat socket
  | L_finished nat socket "string option"   \<comment> \<open>the message of an exception that left the handler\<close>
  | L_exit nat

inductive srv_step :: "server_state \<Rightarrow> label \<Rightarrow> server_state \<Rightarrow> bool" where
  accept_transient:
    "sv_phase s = Accepting \<Longrightarrow> listener_accept [a] = Some (Inl e, []) \<Longrightarrow>
     snd (handle_accept_result e) = Inr () \<Longrightarrow> srv_step s (L_accept_error e) s"
| accept_fatal:
    "sv_phase s = Accepting \<Longrightarrow> listener_accept [a] = Some (Inl e, []) \<Longrightarrow>
     snd (handle_accept_result e) = Inl x \<Longrightarrow> srv_step s (L_accept_error e) (s\<lparr>sv_phase := Unwinding\<rparr>)"
| ip_refused:
    "sv_phase s = Accepting \<Longrightarrow> listener_accept [a] = Some (Inr c, []) \<Longrightarrow>
     try_acquire (peer_address c) (sv_limiter s) = (False, l) \<Longrightarrow>
     srv_step s (L_refused c) (s\<lparr>sv_limiter := l\<rparr>)"
| ip_acquired:
    "sv_phase s = Accepting \<Longrightarrow> listener_accept [a] = Some (Inr c, []) \<Longrightarrow>
     try_acquire (peer_address c) (sv_limiter s) = (True, l) \<Longrightarrow>
     srv_step s (L_acquired c) (s\<lparr>sv_limiter := l, sv_phase := Pushing c\<rparr>)"
| pushed:
    "sv_phase s = Pushing c \<Longrightarrow> wq_try_push c (sv_queue s) = (Push_queued, q) \<Longrightarrow>
     srv_step s (L_queued c) (s\<lparr>sv_queue := q, sv_phase := Accepting\<rparr>)"
| push_failed:
    "sv_phase s = Pushing c \<Longrightarrow> wq_try_push c (sv_queue s) = (r, q) \<Longrightarrow> r \<noteq> Push_queued \<Longrightarrow>
     srv_step s (L_not_queued c) (s\<lparr>sv_queue := q, sv_phase := Releasing c r\<rparr>)"
| dropped:
    "sv_phase s = Releasing c r \<Longrightarrow>
     srv_step s (L_dropped c r)
       (s\<lparr>sv_limiter := release (peer_address c) (sv_limiter s), sv_phase := Accepting\<rparr>)"
| stopping:
    "sv_phase s = Unwinding \<Longrightarrow> srv_step s L_stop (pool_request_stop s)"
| started:
    "i < length (sv_workers s) \<Longrightarrow> sv_workers s ! i = W_idle \<Longrightarrow>
     wq_pop (sv_phase s = Stopped) (sv_queue s) = Some (Some c, q) \<Longrightarrow>
     srv_step s (L_started i c) (s\<lparr>sv_queue := q, sv_workers := (sv_workers s)[i := W_busy c]\<rparr>)"
| exits:
    "i < length (sv_workers s) \<Longrightarrow> sv_workers s ! i = W_idle \<Longrightarrow>
     wq_pop (sv_phase s = Stopped) (sv_queue s) = Some (None, q) \<Longrightarrow>
     srv_step s (L_exit i) (s\<lparr>sv_queue := q, sv_workers := (sv_workers s)[i := W_done]\<rparr>)"
| finished:
    "i < length (sv_workers s) \<Longrightarrow> sv_workers s ! i = W_busy c \<Longrightarrow>
     srv_step s (L_finished i c err) (worker_finish i c s)"

inductive_cases srv_stepE: "srv_step s l s'"

text \<open>The events the step reports.\<close>

fun events_of :: "label \<Rightarrow> runtime_event list" where
  "events_of (L_accept_error e) = fst (handle_accept_result e)"
| "events_of (L_refused c) = [limit_exceeded_event (peer_address c)]"
| "events_of (L_queued c) = handle_queue_result Push_queued"
| "events_of (L_dropped c r) = handle_queue_result r"
| "events_of (L_finished i c (Some msg)) = [On_worker_error msg]"
| "events_of _ = []"

inductive srv_run :: "server_state \<Rightarrow> label list \<Rightarrow> server_state \<Rightarrow> bool" where
  run_nil: "srv_run s [] s"
| run_snoc: "srv_run s ls s1 \<Longrightarrow> srv_step s1 l s2 \<Longrightarrow> srv_run s (ls @ [l]) s2"

section \<open>The connections a server holds\<close>

fun phase_sockets :: "accept_phase \<Rightarrow> socket list" where
  "phase_sockets (Pushing c) = [c]"
| "phase_sockets (Releasing c r) = [c]"
| "phase_sockets _ = []"

fun worker_sockets :: "worker \<Rightarrow> socket list" where
  "worker_sockets (W_busy c) = [c]"
| "worker_sockets _ = []"

definition active :: "server_state \<Rightarrow> socket list" where
  "active s = concat (map worker_sockets (sv_workers s))"

definition connections :: "server_state \<Rightarrow> socket list" where
  "connections s = phase_sockets (sv_phase s) @ wq_sockets (sv_queue s) @ active s"

definition srv_inv :: "nat \<Rightarrow> nat \<Rightarrow> server_state \<Rightarrow> bool" where
  "srv_inv cap n s \<longleftrightarrow>
     lim.balanced (sv_limiter s) (map peer_address (connections s)) \<and>
     lim_per_ip (sv_limiter s) = max_connections_per_ip \<and>
     length (wq_sockets (sv_queue s)) \<le> wq_capacity (sv_queue s) \<and> wq_capacity (sv_queue s) = cap \<and>
     length (sv_workers s) = n \<and>
     (wq_closed (sv_queue s) \<longleftrightarrow> sv_phase s = Stopped) \<and>
     (\<forall>c. sv_phase s \<noteq> Releasing c Push_queued) \<and>
     (W_done \<in> set (sv_workers s) \<longrightarrow> wq_closed (sv_queue s) \<and> wq_sockets (sv_queue s) = [])"

lemma filter_concat_update:
  "i < length ws \<Longrightarrow>
     length (filter P (map f (concat (map g (ws[i := w]))))) + length (filter P (map f (g (ws ! i)))) =
     length (filter P (map f (concat (map g ws)))) + length (filter P (map f (g w)))"
proof (induction ws arbitrary: i)
  case (Cons v ws)
  then show ?case by (cases i) auto
qed simp

lemma active_update:
  "i < length (sv_workers s) \<Longrightarrow> sv_workers s ! i = w0 \<Longrightarrow>
     length (filter P (map f (concat (map worker_sockets ((sv_workers s)[i := w]))))) +
       length (filter P (map f (worker_sockets w0))) =
     length (filter P (map f (active s))) + length (filter P (map f (worker_sockets w)))"
  using filter_concat_update [of i "sv_workers s" P f worker_sockets w] by (simp add: active_def)

lemma server_start_inv: "server_start cap n = Inr s \<Longrightarrow> srv_inv cap n s"
  using balanced_create [of max_connections_per_ip]
  by (auto simp: server_start_def outcome_simps work_queue_create_def srv_inv_def connections_def active_def)

lemma set_update_done: "W_done \<in> set (ws[i := w]) \<Longrightarrow> w \<noteq> W_done \<Longrightarrow> W_done \<in> set ws"
  using set_update_subset_insert [of ws i w] by auto

lemma conn_perm:
  assumes "srv_inv cap n s"
    and "\<And>ip. length (filter ((=) ip) (map peer_address xs)) =
             length (filter ((=) ip) (map peer_address (connections s)))"
  shows "lim.balanced (sv_limiter s) (map peer_address xs)"
  using assms lim.balanced_perm [of "sv_limiter s" "map peer_address (connections s)" "map peer_address xs"]
  by (simp add: srv_inv_def)

lemma srv_step_inv:
  assumes "srv_step s l s'" and "srv_inv cap n s"
  shows "srv_inv cap n s'"
  using assms
proof (induction rule: srv_step.induct)
  case (ip_refused s a c l)
  then have b: "lim.balanced (sv_limiter s) (map peer_address (connections s))"
    by (simp add: srv_inv_def)
  from lim.balanced_refused [OF b ip_refused(3)] lim.acquire_inv [OF lim.balanced_inv [OF b] ip_refused(3)]
    ip_refused show ?case
    by (auto simp: srv_inv_def connections_def active_def)
next
  case (ip_acquired s a c l)
  then have b: "lim.balanced (sv_limiter s) (map peer_address (connections s))"
    by (simp add: srv_inv_def)
  from lim.balanced_acquire [OF b ip_acquired(3)] lim.acquire_inv [OF lim.balanced_inv [OF b] ip_acquired(3)]
    ip_acquired show ?case
    by (auto simp: srv_inv_def connections_def active_def)
next
  case (pushed s c q)
  have "lim.balanced (sv_limiter s) (map peer_address (wq_sockets (sv_queue s) @ [c] @ active s))"
    by (rule conn_perm [OF pushed(3)]) (simp add: connections_def pushed(1))
  with pushed wq.put_queued [OF pushed(2)] show ?case
    by (auto simp: srv_inv_def connections_def active_def)
next
  case (push_failed s c r q)
  with wq.put_refused [OF push_failed(2,3)] show ?case
    by (auto simp: srv_inv_def connections_def active_def)
next
  case (dropped s c r)
  then have b: "lim.balanced (sv_limiter s) (peer_address c # map peer_address (wq_sockets (sv_queue s) @ active s))"
    by (simp add: srv_inv_def connections_def)
  from lim.balanced_release [OF b] dropped lim.give_back_inv [OF lim.balanced_inv [OF b]] show ?case
    by (auto simp: srv_inv_def connections_def active_def)
next
  case (started i s c q)
  note t = wq.take_some [OF started(3)]
  have "lim.balanced (sv_limiter s)
      (map peer_address (phase_sockets (sv_phase s) @ wq_sockets q @
        concat (map worker_sockets ((sv_workers s)[i := W_busy c]))))"
  proof (rule conn_perm [OF started(4)])
    fix ip
    show "length (filter ((=) ip) (map peer_address (phase_sockets (sv_phase s) @ wq_sockets q @
        concat (map worker_sockets ((sv_workers s)[i := W_busy c]))))) =
      length (filter ((=) ip) (map peer_address (connections s)))"
      using t active_update [OF started(1,2), of "(=) ip" peer_address "W_busy c"]
      by (simp add: connections_def)
  qed
  with started t show ?case
    by (auto simp: srv_inv_def connections_def active_def dest: set_update_done)
next
  case (exits i s q)
  note t = wq.take_none [OF exits(3)]
  have "lim.balanced (sv_limiter s)
      (map peer_address (phase_sockets (sv_phase s) @ wq_sockets q @
        concat (map worker_sockets ((sv_workers s)[i := W_done]))))"
  proof (rule conn_perm [OF exits(4)])
    fix ip
    show "length (filter ((=) ip) (map peer_address (phase_sockets (sv_phase s) @ wq_sockets q @
        concat (map worker_sockets ((sv_workers s)[i := W_done]))))) =
      length (filter ((=) ip) (map peer_address (connections s)))"
      using t active_update [OF exits(1,2), of "(=) ip" peer_address "W_done"]
      by (simp add: connections_def)
  qed
  with exits t show ?case by (auto simp: srv_inv_def connections_def active_def)
next
  case (finished i s c err)
  let ?rest = "phase_sockets (sv_phase s) @ wq_sockets (sv_queue s) @
        concat (map worker_sockets ((sv_workers s)[i := W_idle]))"
  have "lim.balanced (sv_limiter s) (map peer_address (c # ?rest))"
  proof (rule conn_perm [OF finished(3)])
    fix ip
    show "length (filter ((=) ip) (map peer_address (c # ?rest))) =
        length (filter ((=) ip) (map peer_address (connections s)))"
      using active_update [OF finished(1,2), of "(=) ip" peer_address W_idle]
      by (auto simp: connections_def)
  qed
  then have b: "lim.balanced (sv_limiter s) (peer_address c # map peer_address ?rest)" by simp
  from lim.balanced_release [OF b] finished lim.give_back_inv [OF lim.balanced_inv [OF b]] show ?case
    by (auto simp: srv_inv_def connections_def active_def worker_finish_def dest: set_update_done)
qed (auto simp: srv_inv_def connections_def active_def pool_request_stop_def wq_close_def)

lemma srv_run_inv: "srv_run s ls s' \<Longrightarrow> srv_inv cap n s \<Longrightarrow> srv_inv cap n s'"
  by (induction rule: srv_run.induct) (auto intro: srv_step_inv)


section \<open>No connection is lost or served twice\<close>

fun queued_label :: "label \<Rightarrow> socket list" where
  "queued_label (L_queued c) = [c]" | "queued_label _ = []"

fun started_label :: "label \<Rightarrow> socket list" where
  "started_label (L_started i c) = [c]" | "started_label _ = []"

fun finished_label :: "label \<Rightarrow> socket list" where
  "finished_label (L_finished i c e) = [c]" | "finished_label _ = []"

fun admitted_label :: "label \<Rightarrow> socket list" where
  "admitted_label (L_acquired c) = [c]" | "admitted_label _ = []"

fun dropped_label :: "label \<Rightarrow> socket list" where
  "dropped_label (L_dropped c r) = [c]" | "dropped_label _ = []"

definition labelled :: "(label \<Rightarrow> socket list) \<Rightarrow> label list \<Rightarrow> socket list" where
  "labelled f ls = concat (map f ls)"

lemma labelled_simps [simp]: "labelled f [] = []" "labelled f (ls @ [l]) = labelled f ls @ f l"
  by (simp_all add: labelled_def)

lemma active_update_mset:
  assumes "i < length (sv_workers s)" and "sv_workers s ! i = w0"
  shows "length (filter P (concat (map worker_sockets ((sv_workers s)[i := w])))) + length (filter P (worker_sockets w0)) =
         length (filter P (active s)) + length (filter P (worker_sockets w))"
  using active_update [OF assms, of P id] by simp

lemma srv_run_traffic:
  assumes "srv_run s0 ls s" and "connections s0 = []"
  shows "labelled queued_label ls = labelled started_label ls @ wq_sockets (sv_queue s) \<and>
         length (filter P (labelled started_label ls)) =
           length (filter P (labelled finished_label ls)) + length (filter P (active s)) \<and>
         length (filter P (labelled admitted_label ls)) =
           length (filter P (labelled queued_label ls)) + length (filter P (labelled dropped_label ls)) +
           length (filter P (phase_sockets (sv_phase s)))"
  using assms
proof (induction rule: srv_run.induct)
  case (run_nil s)
  then show ?case by (simp add: connections_def)
next
  case (run_snoc s ls s1 l s2)
  note IH = run_snoc.IH [OF run_snoc.prems]
  from run_snoc.hyps(2) show ?case
  proof cases
    case (pushed c q)
    with IH wq.put_queued [OF pushed(4)] show ?thesis by (simp add: active_def)
  next
    case (push_failed c r q)
    with IH wq.put_refused [OF push_failed(4,5)] show ?thesis by (simp add: active_def)
  next
    case (started i c q)
    with IH wq.take_some [OF started(5)] active_update_mset [OF started(3,4), of P "W_busy c"] show ?thesis
      by (simp add: active_def)
  next
    case (exits i q)
    with IH wq.take_none [OF exits(5)] active_update_mset [OF exits(3,4), of P W_done] show ?thesis
      by (simp add: active_def)
  next
    case (finished i c err)
    with IH active_update_mset [OF finished(3,4), of P W_idle] show ?thesis
      by (simp add: active_def worker_finish_def)
  qed (use IH in \<open>simp_all add: active_def pool_request_stop_def wq_close_def\<close>)
qed

section \<open>Admission bounds\<close>

lemma filter_peer:
  "length (filter ((=) ip) (map peer_address cs)) = length (filter (\<lambda>c. peer_address c = ip) cs)"
  by (induction cs) auto

text \<open>Every connection comes from an IPv4 host, whose text is its key in the limiter.\<close>

definition from_host :: "socket \<Rightarrow> bool" where
  "from_host c \<longleftrightarrow> (\<exists>a. peer_address c = format_client_address a)"

lemma admitted_from_host: "srv_run s0 ls s \<Longrightarrow> c \<in> set (labelled admitted_label ls) \<Longrightarrow> from_host c"
proof (induction rule: srv_run.induct)
  case (run_snoc s ls s1 l s2)
  from run_snoc.hyps(2) have "d \<in> set (admitted_label l) \<Longrightarrow> from_host d" for d
    by cases (auto simp: from_host_def dest: accepted_peer)
  with run_snoc show ?case by auto
qed simp

lemma server_start_connections: "server_start cap n = Inr s0 \<Longrightarrow> connections s0 = []"
  by (auto simp: server_start_def outcome_simps work_queue_create_def connections_def active_def)

lemma connections_from_host:
  assumes "server_start cap n = Inr s0" and "srv_run s0 ls s" and "c \<in> set (connections s)"
  shows "from_host c"
proof -
  let ?P = "\<lambda>c. \<not> from_host c"
  have "filter ?P (labelled admitted_label ls) = []"
    using admitted_from_host [OF assms(2)] by (auto simp: filter_empty_conv)
  then have none: "length (filter ?P (labelled admitted_label ls)) = 0" by simp
  note traffic = srv_run_traffic [OF assms(2) server_start_connections [OF assms(1)], of ?P]
  then have "length (filter ?P (labelled queued_label ls)) =
      length (filter ?P (labelled started_label ls)) + length (filter ?P (wq_sockets (sv_queue s)))" by simp
  with none traffic have "length (filter ?P (connections s)) = 0" unfolding connections_def filter_append length_append
    by linarith
  with assms(3) show ?thesis by (simp add: filter_empty_conv)
qed

text \<open>
  C4 (invariant). In every reachable state of the server each connection comes from exactly one
  IPv4 host, as the text of its address tells; for every host, the limiter's count is the
  number of connections from it that are queued, being handled or between admission and
  the queue, and this number never exceeds eight; the queue never exceeds its capacity,
  and no thread is ever added or lost.
\<close>

theorem server_admission_invariant:
  assumes "server_start cap n = Inr s0" and "srv_run s0 ls s"
  shows "(\<forall>c \<in> set (connections s). \<exists>!h. peer_address c = format_client_address h) \<and>
         inflight_count (sv_limiter s) (format_client_address host) =
           length (filter (\<lambda>c. peer_address c = format_client_address host) (connections s)) \<and>
         length (filter (\<lambda>c. peer_address c = format_client_address host) (connections s)) \<le> 8 \<and>
         length (wq_sockets (sv_queue s)) \<le> cap \<and> length (sv_workers s) = n"
proof -
  let ?ip = "format_client_address host"
  have ip: "?ip \<noteq> []" by (rule format_client_address_text)
  have i: "srv_inv cap n s" using srv_run_inv [OF assms(2)] server_start_inv [OF assms(1)] .
  then have b: "lim.balanced (sv_limiter s) (map peer_address (connections s))" by (simp add: srv_inv_def)
  have "inflight_count (sv_limiter s) ?ip = length (filter ((=) ?ip) (map peer_address (connections s)))"
    using b ip unfolding lim.balanced_def by blast
  moreover have "length (filter ((=) ?ip) (map peer_address (connections s))) \<le> 8"
    using lim.balanced_bound [OF b ip] i by (simp add: srv_inv_def max_connections_per_ip_def)
  moreover have "length (wq_sockets (sv_queue s)) \<le> cap" "length (sv_workers s) = n"
    using i by (auto simp: srv_inv_def)
  moreover have "\<exists>!h. peer_address c = format_client_address h" if "c \<in> set (connections s)" for c
    using connections_from_host [OF assms that] by (auto simp: from_host_def)
  ultimately show ?thesis unfolding filter_peer by simp
qed

definition sample_host :: in_addr where
  "sample_host = 0x0A000001"

lemma sample_host_text: "format_client_address sample_host = ''10.0.0.1''"
  by code_simp

definition sample_socket :: "nat \<Rightarrow> socket" where
  "sample_socket fd = \<lparr>sock_fd = fd, peer_address = ''10.0.0.1''\<rparr>"

definition sample_start :: server_state where
  "sample_start =
     \<lparr>sv_queue = \<lparr>wq_capacity = 1, wq_sockets = [], wq_closed = False\<rparr>,
      sv_limiter = \<lparr>lim_per_ip = 8, lim_inflight = Map.empty\<rparr>, sv_phase = Accepting, sv_workers = [W_idle]\<rparr>"

lemma sample_start: "server_start 1 1 = Inr sample_start"
  by (simp add: server_start_def sample_start_def ip_limiter_create_def work_queue_create_def
      max_connections_per_ip_def)

definition sample_queued :: server_state where
  "sample_queued =
     \<lparr>sv_queue = \<lparr>wq_capacity = 1, wq_sockets = [sample_socket 5], wq_closed = False\<rparr>,
      sv_limiter = \<lparr>lim_per_ip = 8, lim_inflight = [''10.0.0.1'' \<mapsto> 1]\<rparr>, sv_phase = Accepting,
      sv_workers = [W_idle]\<rparr>"

lemma sample_run: "srv_run sample_start [L_acquired (sample_socket 5), L_queued (sample_socket 5)] sample_queued"
proof -
  let ?l = "\<lparr>lim_per_ip = 8, lim_inflight = [''10.0.0.1'' \<mapsto> 1]\<rparr>"
  let ?s = "sample_start\<lparr>sv_limiter := ?l, sv_phase := Pushing (sample_socket 5)\<rparr>"
  have a: "srv_step sample_start (L_acquired (sample_socket 5)) ?s"
    by (rule ip_acquired [where a = "Accepted 5 sample_host"])
      (simp_all add: sample_host_text sample_start_def sample_socket_def try_acquire_def)
  have b: "srv_step ?s (L_queued (sample_socket 5))
      (?s\<lparr>sv_queue := \<lparr>wq_capacity = 1, wq_sockets = [sample_socket 5], wq_closed = False\<rparr>, sv_phase := Accepting\<rparr>)"
    by (rule pushed) (simp_all add: sample_start_def wq_try_push_def)
  have "srv_run sample_start ([] @ [L_acquired (sample_socket 5)]) ?s"
    by (rule run_snoc [OF run_nil a])
  from run_snoc [OF this b] show ?thesis by (simp add: sample_start_def sample_queued_def)
qed

theorem server_admission_invariant_witness:
  "srv_run sample_start [L_acquired (sample_socket 5), L_queued (sample_socket 5)] sample_queued \<and>
   inflight_count (sv_limiter sample_queued) ''10.0.0.1'' =
     length (filter (\<lambda>c. peer_address c = ''10.0.0.1'') (connections sample_queued)) \<and>
   length (wq_sockets (sv_queue sample_queued)) \<le> 1"
  using server_admission_invariant [OF sample_start sample_run, of sample_host] sample_run
  by (simp add: sample_host_text)

section \<open>Order\<close>

text \<open>
  C22 (safety). Connections are handled in the order in which they were queued, each once:
  the connections workers took, followed by those still in the queue, are exactly the
  queued ones in order; every connection taken is either still being handled or was
  finished (normally or by an exception, which does not stop the worker); and every
  admitted connection was queued, dropped with its admission released, or is the one the
  accept loop holds.
\<close>

theorem server_serves_in_order:
  assumes "server_start cap n = Inr s0" and "srv_run s0 ls s"
  shows "labelled started_label ls @ wq_sockets (sv_queue s) = labelled queued_label ls \<and>
         length (filter P (labelled started_label ls)) =
           length (filter P (labelled finished_label ls)) + length (filter P (active s)) \<and>
         length (filter P (labelled admitted_label ls)) =
           length (filter P (labelled queued_label ls)) + length (filter P (labelled dropped_label ls)) +
           length (filter P (phase_sockets (sv_phase s)))"
proof -
  have "connections s0 = []" using server_start_connections [OF assms(1)] .
  from srv_run_traffic [OF assms(2) this, of P] show ?thesis by simp
qed

theorem server_serves_in_order_witness:
  "labelled started_label [L_acquired (sample_socket 5), L_queued (sample_socket 5)] @
     wq_sockets (sv_queue sample_queued) =
   labelled queued_label [L_acquired (sample_socket 5), L_queued (sample_socket 5)]"
  using server_serves_in_order [OF sample_start sample_run, of "\<lambda>_. True"] by simp

section \<open>Shutdown\<close>

text \<open>Each step after the stop consumes this budget: queued connections, running handlers, idle
  threads.\<close>

fun worker_budget :: "worker \<Rightarrow> nat" where
  "worker_budget W_idle = 1" | "worker_budget (W_busy c) = 2" | "worker_budget W_done = 0"

definition shutdown_budget :: "server_state \<Rightarrow> nat" where
  "shutdown_budget s = 2 * length (wq_sockets (sv_queue s)) + sum_list (map worker_budget (sv_workers s))"

lemma sum_list_update_nat:
  "i < length ws \<Longrightarrow>
     sum_list (map f (ws[i := w])) + (f (ws ! i) :: nat) = sum_list (map f ws) + f w"
proof (induction ws arbitrary: i)
  case (Cons v ws)
  then show ?case by (cases i) auto
qed simp

lemma stopped_step:
  assumes "srv_step s l s'" and "sv_phase s = Stopped"
  shows "sv_phase s' = Stopped \<and> shutdown_budget s' + 1 = shutdown_budget s"
  using assms(1)
proof cases
  case (started i c q)
  with assms(2) wq.take_some [OF started(5)] sum_list_update_nat [OF started(3), of worker_budget "W_busy c"]
  show ?thesis by (simp add: shutdown_budget_def)
next
  case (exits i q)
  with assms(2) wq.take_none [OF exits(5)] sum_list_update_nat [OF exits(3), of worker_budget W_done]
  show ?thesis by (simp add: shutdown_budget_def)
next
  case (finished i c err)
  with assms(2) sum_list_update_nat [OF finished(3), of worker_budget W_idle]
  show ?thesis by (simp add: shutdown_budget_def worker_finish_def)
qed (use assms(2) in simp_all)

lemma stopped_run:
  assumes "srv_run s ls s'" and "sv_phase s = Stopped"
  shows "sv_phase s' = Stopped \<and> shutdown_budget s' + length ls = shutdown_budget s"
  using assms by (induction rule: srv_run.induct) (auto dest: stopped_step)

lemma stopped_progress:
  assumes "sv_phase s = Stopped" and "wq_closed (sv_queue s)" and "w \<in> set (sv_workers s)" and "w \<noteq> W_done"
  shows "\<exists>l s'. srv_step s l s'"
proof -
  obtain i where i: "i < length (sv_workers s)" "sv_workers s ! i = w"
    using assms(3) by (metis in_set_conv_nth)
  show ?thesis
  proof (cases w)
    case W_idle
    obtain r q where "wq_pop (sv_phase s = Stopped) (sv_queue s) = Some (r, q)"
      using wq.take_closed_returns [OF assms(2), of "sv_phase s = Stopped"] by auto
    with i W_idle show ?thesis by (cases r) (blast intro: srv_step.exits, blast intro: srv_step.started)
  next
    case (W_busy c)
    with i show ?thesis by (blast intro: srv_step.finished)
  qed (use assms(4) in simp)
qed

text \<open>When every thread has returned, nothing is queued and nothing is being handled.\<close>

lemma all_done_drained:
  assumes "srv_inv cap n s" and "0 < n" and "sv_phase s = Stopped" and "list_all (\<lambda>w. w = W_done) (sv_workers s)"
  shows "connections s = []"
proof -
  have "W_done \<in> set (sv_workers s)" using assms(1,2,4) by (cases "sv_workers s") (auto simp: srv_inv_def)
  then have "wq_sockets (sv_queue s) = []" using assms(1) by (simp add: srv_inv_def)
  moreover have "active s = []" using assms(4) by (auto simp: active_def list_all_iff)
  ultimately show ?thesis using assms(3) by (simp add: connections_def)
qed

text \<open>
  C21 (liveness). After a fatal accept error the server shuts down completely: from the stop
  on every schedule ends after at most two steps per queued connection and per thread; as
  long as a thread is left some step is possible; and when no step is possible all
  threads have returned, every queued connection has been taken and finished, and no
  address is counted any more.
\<close>

theorem server_shutdown_drains:
  assumes "server_start cap n = Inr s0" and "srv_run s0 ls s" and "sv_phase s = Stopped"
    and "srv_run s ls' s'"
  shows "length ls' \<le> 2 * length (wq_sockets (sv_queue s)) + 2 * n \<and>
         ((\<exists>l s''. srv_step s' l s'') \<or>
          (list_all (\<lambda>w. w = W_done) (sv_workers s') \<and> connections s' = [] \<and>
           (\<forall>ip. ip = [] \<or> inflight_count (sv_limiter s') ip = 0)))"
proof -
  have i: "srv_inv cap n s" using srv_run_inv [OF assms(2)] server_start_inv [OF assms(1)] .
  have i': "srv_inv cap n s'" using srv_run_inv [OF assms(4) i] .
  have st: "sv_phase s' = Stopped" "shutdown_budget s' + length ls' = shutdown_budget s"
    using stopped_run [OF assms(4,3)] by auto
  have "sum_list (map worker_budget ws) \<le> 2 * length ws" for ws
  proof (induction ws)
    case (Cons w ws)
    then show ?case by (cases w) auto
  qed simp
  from this [of "sv_workers s"] have "shutdown_budget s \<le> 2 * length (wq_sockets (sv_queue s)) + 2 * n"
    using i by (simp add: shutdown_budget_def srv_inv_def)
  then have len: "length ls' \<le> 2 * length (wq_sockets (sv_queue s)) + 2 * n" using st by simp
  show ?thesis
  proof (cases "list_all (\<lambda>w. w = W_done) (sv_workers s')")
    case False
    then obtain w where "w \<in> set (sv_workers s')" "w \<noteq> W_done" by (auto simp: list_all_iff)
    moreover have "wq_closed (sv_queue s')" using i' st by (simp add: srv_inv_def)
    ultimately show ?thesis using stopped_progress st len by blast
  next
    case True
    have "n > 0" using assms(1) by (auto simp: server_start_def outcome_simps)
    then have c: "connections s' = []" using all_done_drained [OF i' _ st(1) True] by simp
    then have "\<forall>ip. ip = [] \<or> inflight_count (sv_limiter s') ip = 0"
      using i' by (auto simp: srv_inv_def lim.balanced_def)
    with True c len show ?thesis by blast
  qed
qed

definition sample_stopped :: server_state where
  "sample_stopped = pool_request_stop (sample_start\<lparr>sv_phase := Unwinding\<rparr>)"

theorem server_shutdown_drains_witness:
  "srv_run sample_start [L_accept_error (make_accept_error EBADF), L_stop] sample_stopped \<and>
   sv_phase sample_stopped = Stopped \<and> (\<exists>l s''. srv_step sample_stopped l s'')"
proof -
  have a: "srv_step sample_start (L_accept_error (make_accept_error EBADF)) (sample_start\<lparr>sv_phase := Unwinding\<rparr>)"
    by (rule accept_fatal [where a = "Accept_fail EBADF"])
      (simp_all add: sample_start_def handle_accept_result_def make_accept_error_def is_fatal_accept_error_def)
  have b: "srv_step (sample_start\<lparr>sv_phase := Unwinding\<rparr>) L_stop sample_stopped"
    unfolding sample_stopped_def by (rule stopping) simp
  have "srv_run sample_start ([] @ [L_accept_error (make_accept_error EBADF)]) (sample_start\<lparr>sv_phase := Unwinding\<rparr>)"
    by (rule run_snoc [OF run_nil a])
  from run_snoc [OF this b] have r:
    "srv_run sample_start [L_accept_error (make_accept_error EBADF), L_stop] sample_stopped" by simp
  have p: "sv_phase sample_stopped = Stopped" by (simp add: sample_stopped_def pool_request_stop_def)
  have "\<not> list_all (\<lambda>w. w = W_done) (sv_workers sample_stopped)"
    by (simp add: sample_stopped_def pool_request_stop_def sample_start_def)
  with server_shutdown_drains [OF sample_start r p run_nil] r p show ?thesis by blast
qed

section \<open>Refusals\<close>

text \<open>
  C40 (error). The server turns a connection away only for one of the reasons it reports: its
  address already holds eight connections, or the queue is full (or closed); and each
  refusal is reported.
\<close>

theorem server_refuses_with_reason:
  assumes "server_start cap n = Inr s0" and "srv_run s0 ls s" and "srv_step s l s'"
  shows "case l of
           L_refused c \<Rightarrow> length (filter (\<lambda>d. peer_address d = peer_address c) (connections s)) = 8 \<and>
             connections s' = connections s \<and> events_of l = [limit_exceeded_event (peer_address c)]
         | L_not_queued c \<Rightarrow> wq_closed (sv_queue s) \<or> length (wq_sockets (sv_queue s)) = cap
         | L_dropped c r \<Rightarrow> length (events_of l) = 1
         | _ \<Rightarrow> True"
proof -
  have i: "srv_inv cap n s" using srv_run_inv [OF assms(2)] server_start_inv [OF assms(1)] .
  then have b: "lim.balanced (sv_limiter s) (map peer_address (connections s))" by (simp add: srv_inv_def)
  from assms(3) show ?thesis
  proof cases
    case (ip_refused a c l')
    have "length (filter (\<lambda>d. peer_address d = peer_address c) (connections s)) = 8"
      using lim.balanced_refused [OF b ip_refused(5)] i
      unfolding filter_peer by (simp add: srv_inv_def max_connections_per_ip_def)
    with ip_refused(1,2) show ?thesis by (simp add: connections_def active_def)
  next
    case (push_failed c r q)
    with wq.put_refused [OF push_failed(4,5)] i show ?thesis
      by (auto simp: srv_inv_def split: if_splits)
  next
    case (dropped c r)
    with i have "r \<noteq> Push_queued" by (auto simp: srv_inv_def)
    with dropped show ?thesis by (cases r) auto
  qed simp_all
qed

theorem server_refuses_with_reason_witness:
  "\<exists>s'. srv_step (sample_queued\<lparr>sv_limiter := \<lparr>lim_per_ip = 8, lim_inflight = [''10.0.0.1'' \<mapsto> 2]\<rparr>,
            sv_phase := Pushing (sample_socket 6)\<rparr>) (L_not_queued (sample_socket 6)) s' \<and>
     length (wq_sockets (sv_queue sample_queued)) = 1"
proof -
  let ?l = "\<lparr>lim_per_ip = 8, lim_inflight = [''10.0.0.1'' \<mapsto> 2]\<rparr>"
  let ?s = "sample_queued\<lparr>sv_limiter := ?l, sv_phase := Pushing (sample_socket 6)\<rparr>"
  have a: "srv_step sample_queued (L_acquired (sample_socket 6)) ?s"
    by (rule ip_acquired [where a = "Accepted 6 sample_host"])
      (simp_all add: sample_host_text sample_queued_def sample_socket_def try_acquire_def numeral_2_eq_2)
  have b: "srv_step ?s (L_not_queued (sample_socket 6))
      (?s\<lparr>sv_queue := sv_queue ?s, sv_phase := Releasing (sample_socket 6) Push_full\<rparr>)"
    by (rule push_failed) (simp_all add: sample_queued_def wq_try_push_def)
  from server_refuses_with_reason [OF sample_start run_snoc [OF sample_run a] b]
  have "length (wq_sockets (sv_queue sample_queued)) = 1" by (simp add: sample_queued_def)
  with b show ?thesis by blast
qed

end
