(* ===== verification/Connection_Handler.thy ===== *)
theory Connection_Handler
  imports Http_Framing Request_Pipeline
begin

text \<open>
  One connection from hand-over to close (\<^verbatim>\<open>src/src/app/connection_handler.cpp\<close>) and the
  access log and event lines it writes (access_log.cpp, runtime_events.cpp). The virtual
  interface \<^verbatim>\<open>net::stream\<close> is a record of operations on a stream state; the plain and the TLS
  stream are two such records. Clock readings (timestamp, elapsed time) are inputs of the
  line formatter only.
\<close>

section \<open>Streams (net/stream.h)\<close>

record 's stream =
  st_set_receive_timeout :: "int \<Rightarrow> 's \<Rightarrow> bool \<times> 's"
  st_set_send_timeout :: "int \<Rightarrow> 's \<Rightarrow> bool \<times> 's"
  st_handshake :: "'s \<Rightarrow> io_status \<times> 's"
  st_recv :: "'s \<Rightarrow> nat \<Rightarrow> (read_result \<times> 's) option"
  st_send :: "string \<Rightarrow> 's \<Rightarrow> (io_status \<times> 's) option"

text \<open>
  A plain stream over a descriptor: the kernel's pending answers, whether \<^verbatim>\<open>setsockopt\<close> accepts
  the options of this descriptor, the timeouts in force and the bytes the kernel took so far.
\<close>

record plain_state =
  ps_recv :: "recv_answer list"
  ps_send :: "send_answer list"
  ps_sockopt :: bool
  ps_rcvtimeo :: "int \<times> int"
  ps_sndtimeo :: "int \<times> int"
  ps_out :: string

text \<open>\<^verbatim>\<open>setsockopt\<close> with \<^verbatim>\<open>SO_RCVTIMEO\<close> and \<^verbatim>\<open>SO_SNDTIMEO\<close>.\<close>

definition socket_set_receive_timeout :: "int \<Rightarrow> plain_state \<Rightarrow> bool \<times> plain_state" where
  "socket_set_receive_timeout ms s =
     (ps_sockopt s, if ps_sockopt s then s\<lparr>ps_rcvtimeo := to_timeval ms\<rparr> else s)"

definition socket_set_send_timeout :: "int \<Rightarrow> plain_state \<Rightarrow> bool \<times> plain_state" where
  "socket_set_send_timeout ms s =
     (ps_sockopt s, if ps_sockopt s then s\<lparr>ps_sndtimeo := to_timeval ms\<rparr> else s)"

definition plain_recv :: "plain_state \<Rightarrow> nat \<Rightarrow> (read_result \<times> plain_state) option" where
  "plain_recv s n =
     map_option (\<lambda>(rr, os). (rr, s\<lparr>ps_recv := os\<rparr>)) (socket_recv_some (ps_recv s) n)"

definition plain_send :: "string \<Rightarrow> plain_state \<Rightarrow> (io_status \<times> plain_state) option" where
  "plain_send data s =
     map_option (\<lambda>(st, k, os). (st, s\<lparr>ps_send := os, ps_out := ps_out s @ take k data\<rparr>))
       (socket_send_all (ps_send s) data)"

definition plain_stream :: "plain_state stream" where
  "plain_stream =
     \<lparr>st_set_receive_timeout = socket_set_receive_timeout,
      st_set_send_timeout = socket_set_send_timeout,
      st_handshake = (\<lambda>s. (Io_ok, s)),
      st_recv = plain_recv,
      st_send = plain_send\<rparr>"

record tls_state =
  ts_accept :: "ssl_error option"
  ts_read :: "ssl_read_answer list"
  ts_write :: "ssl_write_answer list"
  ts_sockopt :: bool
  ts_rcvtimeo :: "int \<times> int"
  ts_sndtimeo :: "int \<times> int"
  ts_out :: string

definition tls_stream :: "tls_state stream" where
  "tls_stream =
     \<lparr>st_set_receive_timeout =
        (\<lambda>ms s. (ts_sockopt s, if ts_sockopt s then s\<lparr>ts_rcvtimeo := to_timeval ms\<rparr> else s)),
      st_set_send_timeout =
        (\<lambda>ms s. (ts_sockopt s, if ts_sockopt s then s\<lparr>ts_sndtimeo := to_timeval ms\<rparr> else s)),
      st_handshake = (\<lambda>s. (tls_handshake (ts_accept s), s)),
      st_recv = (\<lambda>s n. map_option (\<lambda>(rr, os). (rr, s\<lparr>ts_read := os\<rparr>)) (tls_recv_some (ts_read s) n)),
      st_send = (\<lambda>data s. map_option (\<lambda>(st, k, os). (st, s\<lparr>ts_write := os, ts_out := ts_out s @ take k data\<rparr>))
                   (tls_send_all (ts_write s) data))\<rparr>"

section \<open>Log lines (access_log.cpp, runtime_events.cpp)\<close>

record access_record =
  ar_client_ip :: string
  ar_method :: string
  ar_target :: string
  ar_version :: string
  ar_status :: int
  ar_response_bytes :: nat

definition access_line :: "string \<Rightarrow> int \<Rightarrow> access_record \<Rightarrow> string" where
  "access_line timestamp elapsed_us r =
     (if ar_client_ip r = [] then ''-'' else ar_client_ip r) @ '' - - ['' @ timestamp @ ''] '' @ [CHR 0x22]
     @ ar_method r @ '' '' @ ar_target r @ '' '' @ ar_version r @ [CHR 0x22] @ '' ''
     @ show_int (ar_status r) @ '' '' @ show_nat (ar_response_bytes r) @ '' rt_us='' @ show_int elapsed_us"

definition make_connection_message :: "string \<Rightarrow> string \<Rightarrow> string" where
  "make_connection_message stage detail = ''connection error during '' @ stage @ '': '' @ detail"

definition event_line :: "string \<Rightarrow> string \<Rightarrow> nat \<Rightarrow> string \<Rightarrow> string" where
  "event_line level file_name line_no msg =
     ''['' @ level @ ''] '' @ file_name @ '':'' @ show_nat line_no @ '' '' @ msg @ [LF]"

section \<open>The handler (connection_handler.cpp)\<close>

definition io_timeout :: int where "io_timeout = 5000"
definition keep_alive_idle_timeout :: int where "keep_alive_idle_timeout = 15000"

text \<open>What a connection changes: the stream, the handler's state, reported events, the access log.\<close>

record ('s, 'w) conn =
  cn_stream :: 's
  cn_world :: 'w
  cn_events :: "(string \<times> string) list"
  cn_log :: "access_record list"

type_synonym 'w request_handler = "request \<Rightarrow> 'w \<Rightarrow> response result \<times> 'w"

definition on_connection_error :: "string \<Rightarrow> string \<Rightarrow> ('s, 'w) conn \<Rightarrow> ('s, 'w) conn" where
  "on_connection_error stage detail c = c\<lparr>cn_events := cn_events c @ [(stage, detail)]\<rparr>"

definition prepare_stream :: "'s stream \<Rightarrow> ('s, 'w) conn \<Rightarrow> bool \<times> ('s, 'w) conn" where
  "prepare_stream ops c =
     (case st_set_receive_timeout ops io_timeout (cn_stream c) of (ok1, s1) \<Rightarrow>
      (case (if ok1 then st_set_send_timeout ops io_timeout s1 else (False, s1)) of (ok2, s2) \<Rightarrow>
       if \<not> ok1 \<or> \<not> ok2
       then (False, on_connection_error ''configure-stream'' ''failed to apply socket timeouts''
                      (c\<lparr>cn_stream := s2\<rparr>))
       else (case st_handshake ops s2 of (st, s3) \<Rightarrow>
         let c3 = c\<lparr>cn_stream := s3\<rparr> in
         if st = Io_ok then (True, c3)
         else if st = Io_timeout then (False, on_connection_error ''handshake'' ''handshake timed out'' c3)
         else if st = Io_error then (False, on_connection_error ''handshake'' ''handshake failed'' c3)
         else (False, c3))))"

definition send_response ::
    "'s stream \<Rightarrow> string \<Rightarrow> ('s, 'w) conn \<Rightarrow> (bool \<times> ('s, 'w) conn) option" where
  "send_response ops wire c =
     (case st_send ops wire (cn_stream c) of
        None \<Rightarrow> None
      | Some (st, s') \<Rightarrow>
          let c' = c\<lparr>cn_stream := s'\<rparr> in
          if st = Io_ok \<or> st = Io_closed then Some (True, c')
          else Some (False, on_connection_error ''write-response''
                       (if st = Io_timeout then ''response write timed out'' else ''response write failed'') c'))"

definition log_access ::
    "string \<Rightarrow> request option \<Rightarrow> response \<Rightarrow> nat \<Rightarrow> ('s, 'w) conn \<Rightarrow> ('s, 'w) conn" where
  "log_access client_ip req resp wire_bytes c =
     c\<lparr>cn_log := cn_log c @
        [\<lparr>ar_client_ip = client_ip,
          ar_method = (case req of None \<Rightarrow> ''-'' | Some r \<Rightarrow> req_method r),
          ar_target = (case req of None \<Rightarrow> ''-'' | Some r \<Rightarrow> target r),
          ar_version = (case req of None \<Rightarrow> ''HTTP/1.1'' | Some r \<Rightarrow> version_string r),
          ar_status = status resp, ar_response_bytes = wire_bytes\<rparr>]\<rparr>"

text \<open>The replies that end the connection: serialize for close, log without a request, send.\<close>

definition error_reply ::
    "'s stream \<Rightarrow> string \<Rightarrow> response \<Rightarrow> ('s, 'w) conn \<Rightarrow> ('s, 'w) conn option" where
  "error_reply ops client_ip resp c =
     (let wire = serialize resp Close in
      map_option snd (send_response ops wire (log_access client_ip None resp (length wire) c)))"

definition request_timeout :: response where
  "request_timeout = text_response 408 ''Request Timeout'' (''request timeout'' @ [LF])"

definition header_too_large :: response where
  "header_too_large =
     text_response 431 ''Request Header Fields Too Large'' (''request header too large'' @ [LF])"

definition bad_request :: response where
  "bad_request = text_response 400 ''Bad Request'' (''bad request'' @ [LF])"

definition add_hsts :: "bool \<Rightarrow> response \<Rightarrow> response result" where
  "add_hsts https_enabled resp =
     (if https_enabled \<and> resp_find_header resp ''Strict-Transport-Security'' = None
      then set_header ''Strict-Transport-Security'' ''max-age=31536000'' resp else Inr resp)"

definition request_policy :: "request \<Rightarrow> connection_policy" where
  "request_policy req = (if keep_alive_requested req then Keep_alive else Close)"

text \<open>From a parsed request to its answer; \<open>True\<close> when the loop goes on. An exception is reported
  and ends the connection.\<close>

definition serve_request ::
    "'s stream \<Rightarrow> bool \<Rightarrow> 'w request_handler \<Rightarrow> string \<Rightarrow> request \<Rightarrow> ('s, 'w) conn \<Rightarrow>
       (bool \<times> ('s, 'w) conn) option" where
  "serve_request ops https h client_ip req c =
     (case h req (cn_world c) of (res, w') \<Rightarrow>
      let c1 = c\<lparr>cn_world := w'\<rparr> in
      case bindE res (add_hsts https) of
        Inl e \<Rightarrow> Some (False, on_connection_error ''connection-handler'' (what_of e) c1)
      | Inr resp \<Rightarrow>
          let policy = request_policy req;
              wire = serialize resp policy
          in (case send_response ops wire (log_access client_ip (Some req) resp (length wire) c1) of
                None \<Rightarrow> None
              | Some (ok, c2) \<Rightarrow> Some (ok \<and> policy \<noteq> Close, c2)))"

definition handle_read_error ::
    "'s stream \<Rightarrow> string \<Rightarrow> bool \<Rightarrow> header_read_error \<Rightarrow> buffer \<Rightarrow> ('s, 'w) conn \<Rightarrow> ('s, 'w) conn option" where
  "handle_read_error ops client_ip first_request e b c =
     (case e of
        Hdr_timeout \<Rightarrow>
          if \<not> first_request \<and> as_string_view b = [] then Some c
          else error_reply ops client_ip request_timeout c
      | Hdr_too_large \<Rightarrow> error_reply ops client_ip header_too_large c
      | Hdr_closed \<Rightarrow> Some c
      | Hdr_io_error \<Rightarrow> Some (on_connection_error ''read-header'' ''request read failed'' c))"

partial_function (option) connection_loop ::
    "'s stream \<Rightarrow> bool \<Rightarrow> 'w request_handler \<Rightarrow> string \<Rightarrow> bool \<Rightarrow> ('s, 'w) conn \<Rightarrow> ('s, 'w) conn option" where
  "connection_loop ops https h client_ip first_request c =
     (case st_set_receive_timeout ops (if first_request then io_timeout else keep_alive_idle_timeout)
             (cn_stream c) of (ok, s1) \<Rightarrow>
      if \<not> ok then Some (on_connection_error ''configure-stream'' ''failed to update receive timeout''
                           (c\<lparr>cn_stream := s1\<rparr>))
      else (case read_header_block (st_recv ops) s1 empty_buffer max_request_header_bytes of
              None \<Rightarrow> None
            | Some (res, b, s2) \<Rightarrow>
                (case res of
                   Inl e \<Rightarrow> handle_read_error ops client_ip first_request e b (c\<lparr>cn_stream := s2\<rparr>)
                 | Inr header \<Rightarrow>
                     (case parse header of
                        Inl _ \<Rightarrow> error_reply ops client_ip bad_request (c\<lparr>cn_stream := s2\<rparr>)
                      | Inr req \<Rightarrow>
                          (case serve_request ops https h client_ip req (c\<lparr>cn_stream := s2\<rparr>) of
                             None \<Rightarrow> None
                           | Some (again, c') \<Rightarrow>
                               if again then connection_loop ops https h client_ip False c'
                               else Some c')))))"

text \<open>
  \<open>created\<close> is what the stream factory yields for the client's socket: an exception, no valid
  stream, or the stream's state. Without a stream only the reported event is left.
\<close>

definition handle_connection ::
    "'s stream \<Rightarrow> bool \<Rightarrow> 'w request_handler \<Rightarrow> string \<Rightarrow> 's option result \<Rightarrow> 'w \<Rightarrow>
       ((string \<times> string) + ('s, 'w) conn) option" where
  "handle_connection ops https h client_ip created w =
     (case created of
        Inl e \<Rightarrow> Some (Inl (''connection-handler'', what_of e))
      | Inr None \<Rightarrow> Some (Inl (''create-stream'', ''stream creation failed''))
      | Inr (Some s) \<Rightarrow>
          (case prepare_stream ops \<lparr>cn_stream = s, cn_world = w, cn_events = [], cn_log = []\<rparr> of (ok, c) \<Rightarrow>
             if \<not> ok then Some (Inr c)
             else map_option Inr (connection_loop ops https h client_ip True c)))"

text \<open>The request pipeline as the handler of a connection.\<close>

definition pipeline_handler :: "'w req_module list \<Rightarrow> 'w request_handler" where
  "pipeline_handler ms req w = (case pipeline_handle ms req w of (r, w') \<Rightarrow> (Inr r, w'))"


section \<open>Only well-formed requests reach the handler\<close>

lemma connection_loop_agree:
  assumes "connection_loop ops https h ip first c = Some c'"
    and "\<And>r w. wf_request r \<Longrightarrow> h r w = h' r w"
  shows "connection_loop ops https h' ip first c = Some c'"
proof -
  let ?P = "\<lambda>ops https h ip first c r.
      (\<forall>r w. wf_request r \<longrightarrow> h r w = h' r w) \<longrightarrow> connection_loop ops https h' ip first c = Some r"
  have "?P ops https h ip first c c'"
  proof (rule connection_loop.raw_induct [where P = ?P, OF _ assms(1)], intro impI)
    fix f ops https h ip first c r
    assume IH: "\<And>ops https h ip first c r. f ops https h ip first c = Some r \<Longrightarrow> ?P ops https h ip first c r"
      and eq: "(case st_set_receive_timeout ops (if first then io_timeout else keep_alive_idle_timeout)
             (cn_stream c) of (ok, s1) \<Rightarrow>
      if \<not> ok then Some (on_connection_error ''configure-stream'' ''failed to update receive timeout''
                           (c\<lparr>cn_stream := s1\<rparr>))
      else (case read_header_block (st_recv ops) s1 empty_buffer max_request_header_bytes of
              None \<Rightarrow> None
            | Some (res, b, s2) \<Rightarrow>
                (case res of
                   Inl e \<Rightarrow> handle_read_error ops ip first e b (c\<lparr>cn_stream := s2\<rparr>)
                 | Inr header \<Rightarrow>
                     (case parse header of
                        Inl _ \<Rightarrow> error_reply ops ip bad_request (c\<lparr>cn_stream := s2\<rparr>)
                      | Inr req \<Rightarrow>
                          (case serve_request ops https h ip req (c\<lparr>cn_stream := s2\<rparr>) of
                             None \<Rightarrow> None
                           | Some (again, c') \<Rightarrow>
                               if again then f ops https h ip False c'
                               else Some c'))))) = Some r"
      and agree: "\<forall>r w. wf_request r \<longrightarrow> h r w = h' r w"
    have serve: "serve_request ops https h' ip req c2 = serve_request ops https h ip req c2"
      if "parse header = Inr req" for header req c2
    proof -
      have "wf_request req" using that grammar_wf parse_sound_grammar by blast
      with agree have "h' req (cn_world c2) = h req (cn_world c2)" by simp
      then show ?thesis unfolding serve_request_def by (simp only:)
    qed
    note unfold = connection_loop.simps [of ops https h' ip first c]
    obtain ok s1 where t: "st_set_receive_timeout ops (if first then io_timeout else keep_alive_idle_timeout)
        (cn_stream c) = (ok, s1)" by fastforce
    show "connection_loop ops https h' ip first c = Some r"
    proof (cases ok)
      case False
      with eq t show ?thesis by (simp add: unfold)
    next
      case True
      with eq t obtain res b s2 where
        rd: "read_header_block (st_recv ops) s1 empty_buffer max_request_header_bytes = Some (res, b, s2)"
        by (auto split: option.splits)
      show ?thesis
      proof (cases "\<exists>header req. res = Inr header \<and> parse header = Inr req")
        case False
        with eq t True rd show ?thesis
          by (cases res; cases "parse (projr res)") (auto simp: unfold)
      next
        case ok: True
        then obtain header req where p: "res = Inr header" "parse header = Inr req" by blast
        with eq t True rd obtain again c' where
          sv: "serve_request ops https h ip req (c\<lparr>cn_stream := s2\<rparr>) = Some (again, c')"
          by (auto split: option.splits)
        show ?thesis
        proof (cases again)
          case again: True
          with eq t True rd p sv have "f ops https h ip False c' = Some r" by simp
          from IH [OF this] agree have "connection_loop ops https h' ip False c' = Some r" by blast
          with t True rd p sv again serve [OF p(2)] show ?thesis by (simp add: unfold)
        next
          case False
          with eq t True rd p sv serve [OF p(2)] show ?thesis by (simp add: unfold)
        qed
      qed
    qed
  qed
  with assms(2) show ?thesis by blast
qed

text \<open>
  C20 (safety). Whatever bytes a client sends, over any transport, the request handler only
  ever sees well-formed requests (a valid method token, an origin-form target without
  control characters, valid header fields): two handlers that agree on well-formed
  requests give the same connection, with the same bytes sent, events and log.
\<close>

theorem handler_sees_only_wf_requests:
  assumes "\<And>r w. wf_request r \<Longrightarrow> h r w = h' r w"
  shows "handle_connection ops https h ip created w = handle_connection ops https h' ip created w"
proof -
  have eq: "connection_loop ops https h ip first c = connection_loop ops https h' ip first c" for first c
  proof (cases "connection_loop ops https h ip first c")
    case (Some c')
    from connection_loop_agree [OF this assms] Some show ?thesis by simp
  next
    case None
    have "connection_loop ops https h' ip first c \<noteq> Some c'" for c'
      using connection_loop_agree [of ops https h' ip first c c' h] assms None by auto
    with None show ?thesis by (cases "connection_loop ops https h' ip first c") auto
  qed
  show ?thesis unfolding handle_connection_def eq by (rule refl)
qed

definition sample_handler :: "unit request_handler" where
  "sample_handler req w = (Inr (text_response 200 ''OK'' ''hi''), w)"

definition guarded_handler :: "unit request_handler" where
  "guarded_handler req w =
     (if is_valid_target (target req) then sample_handler req w else (Inl (Runtime_Error ''bad target''), w))"

definition sample_tcp :: plain_state where
  "sample_tcp = \<lparr>ps_recv = [Recv_rc sample_block], ps_send = [], ps_sockopt = True, ps_rcvtimeo = (0, 0), ps_sndtimeo = (0, 0),
                 ps_out = []\<rparr>"

theorem handler_sees_only_wf_requests_witness:
  "handle_connection plain_stream False guarded_handler ''10.0.0.1'' (Inr (Some sample_tcp)) () =
   handle_connection plain_stream False sample_handler ''10.0.0.1'' (Inr (Some sample_tcp)) ()"
  by (rule handler_sees_only_wf_requests) (simp add: guarded_handler_def wf_request_def)

text \<open>The records the access log gets.\<close>

definition access_of :: "string \<Rightarrow> request \<Rightarrow> response \<Rightarrow> access_record" where
  "access_of ip r a =
     \<lparr>ar_client_ip = ip, ar_method = req_method r, ar_target = target r, ar_version = version_string r,
      ar_status = status a, ar_response_bytes = length (serialize a (request_policy r))\<rparr>"

section \<open>Response policy and log lines\<close>

text \<open>
  What HTTPS mode promises about a response: the handler's response with the field
  \<^verbatim>\<open>Strict-Transport-Security: max-age=31536000\<close> at the end of its header list, or the response as it is
  when the handler has set the field, in any spelling of its name.
\<close>

definition hsts_field :: header_field where
  "hsts_field = \<lparr>hname = ''Strict-Transport-Security'', hvalue = ''max-age=31536000''\<rparr>"

definition with_hsts :: "response \<Rightarrow> response" where
  "with_hsts r =
     (if named ''Strict-Transport-Security'' (resp_headers r) = []
      then r\<lparr>resp_headers := resp_headers r @ [hsts_field]\<rparr> else r)"

lemma find_none_named: "find_header_in hs n = None \<longleftrightarrow> named n hs = []"
  by (auto simp: find_header_in_def find_None_iff named_def filter_empty_conv)

lemma add_hsts_meets: "add_hsts True r = Inr (with_hsts r)"
proof -
  have v: "valid_header_name ''Strict-Transport-Security''" "valid_header_value ''max-age=31536000''"
    by code_simp+
  show ?thesis
  proof (cases "named ''Strict-Transport-Security'' (resp_headers r) = []")
    case True
    then have "find_header_in (resp_headers r) ''Strict-Transport-Security'' = None" by (simp add: find_none_named)
    with v True show ?thesis
      by (simp add: add_hsts_def resp_find_header_def set_header_def validate_header_def add_header_def
          assign_first_None [THEN iffD2] with_hsts_def hsts_field_def)
  next
    case False
    then have "find_header_in (resp_headers r) ''Strict-Transport-Security'' \<noteq> None" by (simp add: find_none_named)
    with False show ?thesis by (auto simp: add_hsts_def resp_find_header_def with_hsts_def)
  qed
qed

text \<open>The field the server adds reaches the wire, once.\<close>

lemma with_hsts_on_the_wire:
  assumes "named ''Strict-Transport-Security'' (resp_headers r) = []"
  shows "named ''Strict-Transport-Security'' (wire_headers (with_hsts r) p) = [hsts_field]"
proof -
  have v: "valid_header_name ''Strict-Transport-Security''" "valid_header_value ''max-age=31536000''"
    by code_simp+
  let ?r = "r\<lparr>resp_headers := resp_headers r @ [hsts_field]\<rparr>"
  have "filter (\<lambda>h. header_name_equals (hname h) ''Strict-Transport-Security'')
      (filter (forwarded ?r) (resp_headers r)) = []"
    using assms by (auto simp: filter_empty_conv named_def)
  moreover have "forwarded ?r hsts_field"
    using v by (simp add: forwarded_def is_reserved_header_def header_name_equals_length hsts_field_def)
  ultimately show ?thesis
    using assms by (simp add: with_hsts_def wire_headers_def named_def header_name_equals_length)
      (simp add: hsts_field_def)
qed

text \<open>The bytes of a response that carries it.\<close>

lemma with_hsts_bytes:
  assumes "named ''Strict-Transport-Security'' (resp_headers r) = []"
  shows "\<exists>before after. serialize (with_hsts r) p =
           crlf_lines before @ ''Strict-Transport-Security: max-age=31536000'' @ CRLF @ crlf_lines after @ CRLF @ body r"
proof -
  have "hsts_field \<in> set (wire_headers (with_hsts r) p)"
    using with_hsts_on_the_wire [OF assms, of p] by (auto simp: named_def filter_eq_Cons_iff)
  then obtain xs ys where "wire_headers (with_hsts r) p = xs @ hsts_field # ys" by (meson split_list)
  then have "head_lines (with_hsts r) p =
      (status_line (with_hsts r) # map print_header xs) @ [print_header hsts_field] @ map print_header ys"
    by (simp add: head_lines_def)
  moreover have "print_header hsts_field = ''Strict-Transport-Security: max-age=31536000''" by code_simp
  moreover have "body (with_hsts r) = body r" by (simp add: with_hsts_def)
  ultimately have "serialize (with_hsts r) p = crlf_lines (status_line (with_hsts r) # map print_header xs) @
      ''Strict-Transport-Security: max-age=31536000'' @ CRLF @ crlf_lines (map print_header ys) @ CRLF @ body r"
    by (simp add: serialize_lines)
  then show ?thesis by blast
qed

text \<open>
  A request cannot forge access-log lines: the record of any parsed request is
  written as a single line.
\<close>

theorem access_log_one_line:
  assumes "parse block = Inr req" and "LF \<notin> set ip" and "LF \<notin> set timestamp"
  shows "LF \<notin> set (access_line timestamp us (access_of ip req resp))"
proof -
  have "wf_request req" using assms(1) grammar_wf parse_sound_grammar by blast
  then have "LF \<notin> set (req_method req)" "LF \<notin> set (target req)" "LF \<notin> set (version_string req)"
    using target_props [of "target req"] token_string_props [of "req_method req"]
    by (auto simp: wf_request_def is_valid_method_def version_string_def)
  with assms(2,3) show ?thesis by (simp add: access_line_def access_of_def)
qed

theorem access_log_one_line_witness:
  "parse sample_block = Inr sample_request \<and>
   LF \<notin> set (access_line ''01/Jan/2025:00:00:00 +0000'' 12 (access_of ''10.0.0.1'' sample_request bad_request))"
  using access_log_one_line [OF parse_sample, of "''10.0.0.1''" "''01/Jan/2025:00:00:00 +0000''" 12 bad_request]
    parse_sample by simp

section \<open>Invariants of a connection\<close>

text \<open>What every part of the handler keeps holds when the connection ends.\<close>

locale connection_invariant =
  fixes ip :: string and P :: "('s, 'w) conn \<Rightarrow> bool"
  assumes stream: "P c \<Longrightarrow> P (c\<lparr>cn_stream := s\<rparr>)"
    and world: "P c \<Longrightarrow> P (c\<lparr>cn_world := w\<rparr>)"
    and event: "P c \<Longrightarrow> P (on_connection_error stage detail c)"
    and log_error: "P c \<Longrightarrow> P (log_access ip None resp n c)"
    and log_request: "P c \<Longrightarrow> wf_request req \<Longrightarrow> P (log_access ip (Some req) resp n c)"
begin

lemma send_response: "send_response ops wire c = Some (ok, c') \<Longrightarrow> P c \<Longrightarrow> P c'"
  by (auto simp: send_response_def Let_def intro: stream event split: option.splits prod.splits if_splits)

lemma error_reply: "error_reply ops ip resp c = Some c' \<Longrightarrow> P c \<Longrightarrow> P c'"
  by (auto simp: error_reply_def Let_def dest: send_response intro: log_error)

lemma handle_read_error: "handle_read_error ops ip first e b c = Some c' \<Longrightarrow> P c \<Longrightarrow> P c'"
  by (auto simp: handle_read_error_def intro: error_reply event split: header_read_error.splits if_splits)

lemma serve_request:
  assumes "serve_request ops https h ip req c = Some (again, c')" and "P c" and "wf_request req"
  shows "P c'"
proof -
  obtain res w where h: "h req (cn_world c) = (res, w)" by fastforce
  have w: "P (c\<lparr>cn_world := w\<rparr>)" using assms(2) by (rule world)
  show ?thesis
  proof (cases "bindE res (add_hsts https)")
    case (Inl e)
    with assms(1) h event [OF w] show ?thesis by (auto simp: serve_request_def Let_def)
  next
    case (Inr resp)
    with assms(1) h obtain ok where
      "send_response ops (serialize resp (request_policy req))
         (log_access ip (Some req) resp (length (serialize resp (request_policy req))) (c\<lparr>cn_world := w\<rparr>)) = Some (ok, c')"
      by (auto simp: serve_request_def Let_def split: option.splits)
    from send_response [OF this] log_request [OF w assms(3)] show ?thesis by blast
  qed
qed

lemma prepare_stream:
  assumes "prepare_stream ops c = (ok, c')" and "P c"
  shows "P c'"
  using assms stream [OF assms(2)] event [OF stream [OF assms(2)]]
  by (auto simp: prepare_stream_def Let_def split: prod.splits if_splits)

lemma connection_loop:
  assumes "connection_loop ops https h ip first c = Some c'" and "P c"
  shows "P c'"
proof -
  let ?Q = "\<lambda>ops https h client_ip first c r. client_ip = ip \<longrightarrow> P c \<longrightarrow> P r"
  have "?Q ops https h ip first c c'"
  proof (rule connection_loop.raw_induct [where P = ?Q, OF _ assms(1)], intro impI)
    fix f ops https h client_ip first c r
    assume IH: "\<And>ops https h client_ip first c r. f ops https h client_ip first c = Some r \<Longrightarrow>
        client_ip = ip \<longrightarrow> P c \<longrightarrow> P r"
      and eq: "(case st_set_receive_timeout ops (if first then io_timeout else keep_alive_idle_timeout)
             (cn_stream c) of (ok, s1) \<Rightarrow>
      if \<not> ok then Some (on_connection_error ''configure-stream'' ''failed to update receive timeout''
                           (c\<lparr>cn_stream := s1\<rparr>))
      else (case read_header_block (st_recv ops) s1 empty_buffer max_request_header_bytes of
              None \<Rightarrow> None
            | Some (res, b, s2) \<Rightarrow>
                (case res of
                   Inl e \<Rightarrow> handle_read_error ops client_ip first e b (c\<lparr>cn_stream := s2\<rparr>)
                 | Inr header \<Rightarrow>
                     (case parse header of
                        Inl _ \<Rightarrow> error_reply ops client_ip bad_request (c\<lparr>cn_stream := s2\<rparr>)
                      | Inr req \<Rightarrow>
                          (case serve_request ops https h client_ip req (c\<lparr>cn_stream := s2\<rparr>) of
                             None \<Rightarrow> None
                           | Some (again, c') \<Rightarrow>
                               if again then f ops https h client_ip False c'
                               else Some c'))))) = Some r"
      and ip: "client_ip = ip" and c: "P c"
    have s: "P (c\<lparr>cn_stream := s2\<rparr>)" for s2 using c by (rule stream)
    have sv: "P c2" if "parse header = Inr req" "serve_request ops https h ip req (c\<lparr>cn_stream := s2\<rparr>) = Some (again, c2)"
      for header req s2 again c2
      using serve_request [OF that(2) s] that(1) grammar_wf parse_sound_grammar by blast
    from eq show "P r"
      unfolding ip
      by (auto split: prod.splits if_splits option.splits sum.splits intro: event s
          dest: IH handle_read_error [OF _ s] error_reply [OF _ s] sv)
  qed
  with assms(2) show ?thesis by blast
qed

lemma handle_connection:
  assumes "handle_connection ops https h ip created w = Some (Inr c)"
    and "\<And>s. P \<lparr>cn_stream = s, cn_world = w, cn_events = [], cn_log = []\<rparr>"
  shows "P c"
proof -
  from assms(1) obtain s ok c1 where
    p: "prepare_stream ops \<lparr>cn_stream = s, cn_world = w, cn_events = [], cn_log = []\<rparr> = (ok, c1)" and
    c: "c1 = c \<or> connection_loop ops https h ip True c1 = Some c"
    by (auto simp: handle_connection_def split: sum.splits option.splits prod.splits if_splits)
  from prepare_stream [OF p assms(2)] c show ?thesis by (auto dest: connection_loop)
qed

end

end
