(* ===== verification/Stream_Timeouts.thy ===== *)
theory Stream_Timeouts
  imports Connection_Handler
begin

text \<open>
  Timeouts of a connection. A stream can be replaced by one that behaves alike without the connection
  handler (\<^verbatim>\<open>src/src/app/connection_handler.cpp\<close>) noticing, which the locale \<open>stream_simulation\<close> makes precise. It is applied to
  a stream that also records, for each blocking call, the socket options \<^verbatim>\<open>SO_RCVTIMEO\<close> and
  \<^verbatim>\<open>SO_SNDTIMEO\<close> in force when it is made.
\<close>

section \<open>Simulation of streams\<close>

definition with_stream :: "'t \<Rightarrow> ('s, 'w) conn \<Rightarrow> ('t, 'w) conn" where
  "with_stream t c = \<lparr>cn_stream = t, cn_world = cn_world c, cn_events = cn_events c, cn_log = cn_log c\<rparr>"

lemma with_stream_simps [simp]:
  "cn_stream (with_stream t c) = t"
  "cn_world (with_stream t c) = cn_world c"
  "(with_stream t c)\<lparr>cn_stream := u\<rparr> = with_stream u c"
  "with_stream t (c\<lparr>cn_stream := s\<rparr>) = with_stream t c"
  "with_stream t (c\<lparr>cn_world := w\<rparr>) = (with_stream t c)\<lparr>cn_world := w\<rparr>"
  "with_stream t (on_connection_error stage detail c) = on_connection_error stage detail (with_stream t c)"
  "with_stream t (log_access ip req resp n c) = log_access ip req resp n (with_stream t c)"
  "(on_connection_error stage detail d)\<lparr>cn_stream := u\<rparr> = on_connection_error stage detail (d\<lparr>cn_stream := u\<rparr>)"
  "(log_access ip req resp n d)\<lparr>cn_stream := u\<rparr> = log_access ip req resp n (d\<lparr>cn_stream := u\<rparr>)"
  "(d\<lparr>cn_world := w\<rparr>)\<lparr>cn_stream := u\<rparr> = (d\<lparr>cn_stream := u\<rparr>)\<lparr>cn_world := w\<rparr>"
  by (simp_all add: with_stream_def on_connection_error_def log_access_def)

lemma cn_stream_kept [simp]:
  "cn_stream (on_connection_error stage detail c) = cn_stream c"
  "cn_stream (log_access ip req resp n c) = cn_stream c"
  by (simp_all add: on_connection_error_def log_access_def)


section \<open>Watching the timeouts\<close>























end
