(* ===== verification/Conversations.thy ===== *)
theory Conversations
  imports Connection_Handler
begin

text \<open>
  Whole conversations on one connection. The locale \<open>duplex\<close> is a stream of which it is known what
  it will deliver and that it will take the answers; the request loop's behaviour is proved
  once in it, for plain and for TLS streams, whatever the segmentation of the input, the
  interrupted calls and the partial writes.
\<close>

section \<open>Streams with a known future\<close>

text \<open>
  From \<open>s\<close>, the next reads deliver the chunks \<open>ins\<close> and the next writes take each of \<open>outs\<close>; \<open>sent\<close> is
  what the peer has got so far.
\<close>

locale duplex = byte_stream "st_recv ops" ready for ops :: "'s stream" and ready +
  fixes future :: "'s \<Rightarrow> string list \<Rightarrow> string list \<Rightarrow> bool" and sent :: "'s \<Rightarrow> string"
  assumes receive_timeout:
      "future s ins outs \<Longrightarrow> \<exists>s'. st_set_receive_timeout ops ms s = (True, s') \<and> future s' ins outs \<and> sent s' = sent s"
    and send_timeout:
      "future s ins outs \<Longrightarrow> \<exists>s'. st_set_send_timeout ops ms s = (True, s') \<and> future s' ins outs \<and> sent s' = sent s"
    and handshake: "future s ins outs \<Longrightarrow> \<exists>s'. st_handshake ops s = (Io_ok, s') \<and> future s' ins outs \<and> sent s' = sent s"
    and recv: "future s (c # ins) outs \<Longrightarrow>
        \<exists>s'. st_recv ops s 2048 = Some (\<lparr>rd_status = Io_ok, rd_bytes = c\<rparr>, s') \<and> future s' ins outs \<and> sent s' = sent s"
    and send: "future s ins (x # outs) \<Longrightarrow> \<exists>s'. st_send ops x s = Some (Io_ok, s') \<and> future s' ins outs \<and> sent s' = sent s @ x"

text \<open>The answers to a sequence of requests, in order, with the handler's state threaded through;
  \<open>None\<close> when an exception ends the connection.\<close>

fun answers :: "bool \<Rightarrow> 'w request_handler \<Rightarrow> request list \<Rightarrow> 'w \<Rightarrow> (response list \<times> 'w) option" where
  "answers https h [] w = Some ([], w)"
| "answers https h (r # rs) w =
     (case h r w of (res, w1) \<Rightarrow>
        (case bindE res (add_hsts https) of
           Inl _ \<Rightarrow> None
         | Inr resp \<Rightarrow> map_option (\<lambda>(as, w2). (resp # as, w2)) (answers https h rs w1)))"

definition wires :: "request list \<Rightarrow> response list \<Rightarrow> string list" where
  "wires rs as = map2 (\<lambda>r a. serialize a (request_policy r)) rs as"

text \<open>Requests of one connection, all but the last asking to keep it alive, each cut into chunks.\<close>

definition conversation :: "request list \<Rightarrow> string list list \<Rightarrow> bool" where
  "conversation reqs chunks \<longleftrightarrow>
     reqs \<noteq> [] \<and>
     list_all (\<lambda>r. wf_request r \<and> length (print_request r) \<le> max_request_header_bytes) reqs \<and>
     list_all keep_alive_requested (butlast reqs) \<and> \<not> keep_alive_requested (last reqs) \<and>
     list_all2 (\<lambda>r cs. concat cs = print_request r) reqs chunks"

lemma conversation_Cons:
  assumes "conversation (r # reqs) chunks"
  obtains cs chunks' where "chunks = cs # chunks'" and "concat cs = print_request r" and "wf_request r"
    and "length (print_request r) \<le> max_request_header_bytes" and "keep_alive_requested r \<longleftrightarrow> reqs \<noteq> []"
    and "reqs \<noteq> [] \<Longrightarrow> conversation reqs chunks'" and "reqs = [] \<Longrightarrow> chunks' = []"
  using assms by (auto simp: conversation_def list_all2_Cons1 split: if_splits)

context duplex
begin

lemma future_reads:
  "future s (cs @ ins) outs \<Longrightarrow> \<exists>s'. reads (st_recv ops) s (concat cs) s' \<and> future s' ins outs \<and> sent s' = sent s"
proof (induction cs arbitrary: s)
  case Nil
  then show ?case using reads_none by fastforce
next
  case (Cons c cs)
  then obtain s1 where s1: "st_recv ops s 2048 = Some (\<lparr>rd_status = Io_ok, rd_bytes = c\<rparr>, s1)"
      "future s1 (cs @ ins) outs" "sent s1 = sent s" using recv [of s c "cs @ ins" outs] by auto
  from Cons.IH [OF s1(2)] obtain s2 where s2: "reads (st_recv ops) s1 (concat cs) s2" "future s2 ins outs" "sent s2 = sent s1"
    by blast
  from reads_more [where recv = "st_recv ops", OF s1(1) _ s2(1)] s2 s1(3) show ?case by auto
qed

text \<open>A header block that arrives complete.\<close>

lemma read_block:
  assumes "future s (cs @ ins) outs" and "find_header_end (concat cs) = Some (length (concat cs))"
    and "length (concat cs) \<le> max_request_header_bytes"
  shows "\<exists>b s'. read_header_block (st_recv ops) s empty_buffer max_request_header_bytes = Some (Inr (concat cs), b, s') \<and>
           future s' ins outs \<and> sent s' = sent s"
proof -
  obtain s' where "reads (st_recv ops) s (concat cs) s'" "future s' ins outs" "sent s' = sent s"
    using future_reads [OF assms(1)] by blast
  with read_header_block_exact [OF _ buf_inv_empty] assms(2,3) show ?thesis by fastforce
qed

lemma serve:
  assumes "h r (cn_world c) = (res, w1)" and "bindE res (add_hsts https) = Inr a"
    and "future (cn_stream c) ins (serialize a (request_policy r) # outs)"
  shows "\<exists>s'. serve_request ops https h ip r c =
           Some (keep_alive_requested r, c\<lparr>cn_stream := s', cn_world := w1, cn_log := cn_log c @ [access_of ip r a]\<rparr>) \<and>
           future s' ins outs \<and> sent s' = sent (cn_stream c) @ serialize a (request_policy r)"
proof -
  obtain s' where "st_send ops (serialize a (request_policy r)) (cn_stream c) = Some (Io_ok, s')" "future s' ins outs"
      "sent s' = sent (cn_stream c) @ serialize a (request_policy r)" using send [OF assms(3)] by blast
  with assms(1,2) show ?thesis
    by (intro exI [of _ s'])
      (simp add: serve_request_def send_response_def log_access_def access_of_def Let_def request_policy_def)
qed

lemma loop_conversation:
  "answers https h reqs (cn_world c) = Some (resps, w') \<Longrightarrow> conversation reqs chunks \<Longrightarrow>
   future (cn_stream c) (concat chunks @ ins) (wires reqs resps @ outs) \<Longrightarrow>
   \<exists>s'. connection_loop ops https h ip first c =
          Some (c\<lparr>cn_stream := s', cn_world := w', cn_log := cn_log c @ map2 (access_of ip) reqs resps\<rparr>) \<and>
        future s' ins outs \<and> sent s' = sent (cn_stream c) @ concat (wires reqs resps)"
proof (induction reqs arbitrary: c resps chunks first)
  case Nil
  then show ?case by (simp add: conversation_def)
next
  case (Cons r reqs)
  obtain res w1 where h: "h r (cn_world c) = (res, w1)" by fastforce
  with Cons.prems(1) obtain a as where a: "bindE res (add_hsts https) = Inr a"
      "answers https h reqs w1 = Some (as, w')" "resps = a # as"
    by (auto split: sum.splits)
  obtain cs chunks' where ch: "chunks = cs # chunks'" "concat cs = print_request r" "wf_request r"
      "length (print_request r) \<le> max_request_header_bytes" "keep_alive_requested r \<longleftrightarrow> reqs \<noteq> []"
      "reqs \<noteq> [] \<Longrightarrow> conversation reqs chunks'" "reqs = [] \<Longrightarrow> chunks' = []"
    using conversation_Cons [OF Cons.prems(2)] by blast
  let ?wire = "serialize a (request_policy r)"
  have w: "wires (r # reqs) resps = ?wire # wires reqs as" by (simp add: a(3) wires_def)
  obtain s1 where s1: "st_set_receive_timeout ops (if first then io_timeout else keep_alive_idle_timeout) (cn_stream c) = (True, s1)"
      "future s1 (cs @ concat chunks' @ ins) (?wire # wires reqs as @ outs)" "sent s1 = sent (cn_stream c)"
    using receive_timeout [OF Cons.prems(3)] w ch(1) by auto
  have hend: "find_header_end (concat cs) = Some (length (concat cs))"
    using print_request_header_end [OF ch(3), of "[]"] ch(2) by simp
  obtain b s2 where s2: "read_header_block (st_recv ops) s1 empty_buffer max_request_header_bytes = Some (Inr (print_request r), b, s2)"
      "future s2 (concat chunks' @ ins) (?wire # wires reqs as @ outs)" "sent s2 = sent s1"
    using read_block [OF s1(2) hend] ch(2,4) by auto
  have pr: "parse (print_request r) = Inr r" 
    using parse_complete_grammar [OF print_request_grammar [OF ch(3), of "[]"]] by simp
  let ?c2 = "c\<lparr>cn_stream := s2\<rparr>"
  have h2: "h r (cn_world ?c2) = (res, w1)" and f2: "future (cn_stream ?c2) (concat chunks' @ ins) (?wire # wires reqs as @ outs)"
    using h s2(2) by simp_all
  obtain s3 where s3: "serve_request ops https h ip r ?c2 = Some (keep_alive_requested r,
        ?c2\<lparr>cn_stream := s3, cn_world := w1, cn_log := cn_log c @ [access_of ip r a]\<rparr>)"
      "future s3 (concat chunks' @ ins) (wires reqs as @ outs)" "sent s3 = sent s2 @ ?wire"
    using serve [of h r ?c2, OF h2 a(1) f2, of ip] by auto
  let ?c3 = "c\<lparr>cn_stream := s3, cn_world := w1, cn_log := cn_log c @ [access_of ip r a]\<rparr>"
  have step: "connection_loop ops https h ip first c =
      (if keep_alive_requested r then connection_loop ops https h ip False ?c3 else Some ?c3)"
    using s1(1) s2(1) pr s3(1) by (subst connection_loop.simps) simp
  show ?case
  proof (cases "reqs = []")
    case True
    with a ch(5,7) step w s3(2,3) s2(3) s1(3) show ?thesis by (auto simp: wires_def)
  next
    case False
    have "\<exists>s'. connection_loop ops https h ip False ?c3 =
          Some (?c3\<lparr>cn_stream := s', cn_world := w', cn_log := cn_log ?c3 @ map2 (access_of ip) reqs as\<rparr>) \<and>
        future s' ins outs \<and> sent s' = sent (cn_stream ?c3) @ concat (wires reqs as)"
      by (rule Cons.IH) (use False a(2) ch(6) s3(2) in simp_all)
    with False ch(5) step w a(3) s3(3) s2(3) s1(3) show ?thesis by auto
  qed
qed

text \<open>The timeouts are set and the handshake succeeds.\<close>

lemma prepared:
  assumes "future s ins outs"
  shows "\<exists>s'. prepare_stream ops \<lparr>cn_stream = s, cn_world = w, cn_events = [], cn_log = []\<rparr> =
             (True, \<lparr>cn_stream = s', cn_world = w, cn_events = [], cn_log = []\<rparr>) \<and> future s' ins outs \<and> sent s' = sent s"
proof -
  obtain s1 where s1: "st_set_receive_timeout ops io_timeout s = (True, s1)" "future s1 ins outs" "sent s1 = sent s"
    using receive_timeout [OF assms] by blast
  obtain s2 where s2: "st_set_send_timeout ops io_timeout s1 = (True, s2)" "future s2 ins outs" "sent s2 = sent s1"
    using send_timeout [OF s1(2)] by blast
  obtain s3 where "st_handshake ops s2 = (Io_ok, s3)" "future s3 ins outs" "sent s3 = sent s2"
    using handshake [OF s2(2)] by blast
  with s1 s2 show ?thesis by (auto simp: prepare_stream_def Let_def)
qed

lemma handle_conversation:
  assumes "answers https h reqs w = Some (resps, w')" and "conversation reqs chunks"
    and "future s (concat chunks @ ins) (wires reqs resps @ outs)"
  shows "\<exists>c. handle_connection ops https h ip (Inr (Some s)) w = Some (Inr c) \<and>
           sent (cn_stream c) = sent s @ concat (wires reqs resps) \<and> cn_world c = w' \<and>
           cn_events c = [] \<and> cn_log c = map2 (access_of ip) reqs resps \<and> future (cn_stream c) ins outs"
proof -
  obtain s1 where p: "prepare_stream ops \<lparr>cn_stream = s, cn_world = w, cn_events = [], cn_log = []\<rparr> =
        (True, \<lparr>cn_stream = s1, cn_world = w, cn_events = [], cn_log = []\<rparr>)"
      "future s1 (concat chunks @ ins) (wires reqs resps @ outs)" "sent s1 = sent s"
    using prepared [OF assms(3), of w] by (elim exE conjE)
  let ?c = "\<lparr>cn_stream = s1, cn_world = w, cn_events = [], cn_log = []\<rparr>"
  have "answers https h reqs (cn_world ?c) = Some (resps, w')"
    and "future (cn_stream ?c) (concat chunks @ ins) (wires reqs resps @ outs)" using assms(1) p(2) by simp_all
  from loop_conversation [OF this(1) assms(2) this(2), of ip True] p(1,3) show ?thesis
    by (auto simp: handle_connection_def)
qed

text \<open>A header block that is no request is answered with 400, and the connection ends.\<close>

lemma handle_bad_request:
  assumes "find_header_end (concat cs) = Some (length (concat cs))" and "parse (concat cs) = Inl e"
    and "length (concat cs) \<le> max_request_header_bytes"
    and "future s (cs @ ins) (serialize bad_request Close # outs)"
  shows "\<exists>c. handle_connection ops https h ip (Inr (Some s)) w = Some (Inr c) \<and>
           sent (cn_stream c) = sent s @ serialize bad_request Close \<and> cn_world c = w \<and>
           cn_events c = [] \<and> map ar_status (cn_log c) = [400] \<and> map ar_target (cn_log c) = [''-'']"
proof -
  obtain s1 where s1: "prepare_stream ops \<lparr>cn_stream = s, cn_world = w, cn_events = [], cn_log = []\<rparr> =
        (True, \<lparr>cn_stream = s1, cn_world = w, cn_events = [], cn_log = []\<rparr>)"
      "future s1 (cs @ ins) (serialize bad_request Close # outs)" "sent s1 = sent s"
    using prepared [OF assms(4), of w] by (elim exE conjE)
  obtain s2 where s2: "st_set_receive_timeout ops io_timeout s1 = (True, s2)"
      "future s2 (cs @ ins) (serialize bad_request Close # outs)" "sent s2 = sent s1"
    using receive_timeout [OF s1(2)] by blast
  obtain b s3 where s3: "read_header_block (st_recv ops) s2 empty_buffer max_request_header_bytes = Some (Inr (concat cs), b, s3)"
      "future s3 ins (serialize bad_request Close # outs)" "sent s3 = sent s2"
    using read_block [OF s2(2) assms(1,3)] by blast
  obtain s4 where s4: "st_send ops (serialize bad_request Close) s3 = Some (Io_ok, s4)"
      "sent s4 = sent s3 @ serialize bad_request Close" using send [OF s3(2)] by blast
  have "status bad_request = 400" by (simp add: bad_request_def text_response_def)
  with s1 s2 s3 s4 assms(2) show ?thesis
    by (subst handle_connection_def, subst connection_loop.simps)
      (simp add: error_reply_def send_response_def log_access_def Let_def)
qed

end

section \<open>Plain and TLS streams\<close>

text \<open>What a list of answers to reads delivers, and what a list of answers to writes takes.\<close>

fun delivers :: "('o \<Rightarrow> nat \<Rightarrow> (read_result \<times> 'o) option) \<Rightarrow> 'o \<Rightarrow> string list \<Rightarrow> bool" where
  "delivers recv os [] \<longleftrightarrow> True"
| "delivers recv os (c # cs) \<longleftrightarrow>
     (case recv os 2048 of
        None \<Rightarrow> False
      | Some (rr, os') \<Rightarrow> rd_status rr = Io_ok \<and> rd_bytes rr = c \<and> delivers recv os' cs)"

fun takes :: "('o \<Rightarrow> string \<Rightarrow> (io_status \<times> nat \<times> 'o) option) \<Rightarrow> 'o \<Rightarrow> string list \<Rightarrow> bool" where
  "takes send os [] \<longleftrightarrow> True"
| "takes send os (x # xs) \<longleftrightarrow>
     (case send os x of
        None \<Rightarrow> False
      | Some (st, k, os') \<Rightarrow> st = Io_ok \<and> k = length x \<and> takes send os' xs)"

definition plain_future :: "plain_state \<Rightarrow> string list \<Rightarrow> string list \<Rightarrow> bool" where
  "plain_future s ins outs \<longleftrightarrow>
     ps_sockopt s \<and> delivers socket_recv_some (ps_recv s) ins \<and> takes socket_send_all (ps_send s) outs"

definition tls_future :: "tls_state \<Rightarrow> string list \<Rightarrow> string list \<Rightarrow> bool" where
  "tls_future s ins outs \<longleftrightarrow>
     ts_sockopt s \<and> ts_accept s = None \<and> delivers tls_recv_some (ts_read s) ins \<and> takes tls_send_all (ts_write s) outs"

lemma plain_recv_ready:
  "0 < answered (ps_recv s) \<Longrightarrow>
     \<exists>rr s'. plain_recv s n = Some (rr, s') \<and> answered (ps_recv s) \<le> Suc (answered (ps_recv s'))"
  using plain.recv_ready [of "ps_recv s" n] by (auto simp: plain_recv_def)

lemma plain_recv_ok:
  "plain_recv s n = Some (rr, s') \<Longrightarrow> rd_status rr = Io_ok \<Longrightarrow> 0 < n \<Longrightarrow>
     rd_bytes rr \<noteq> [] \<and> length (rd_bytes rr) \<le> n"
  using plain.recv_ok_bounds [of "ps_recv s" n rr] by (auto simp: plain_recv_def)

lemma plain_stream_simps [simp]:
  "st_recv plain_stream = plain_recv" "st_send plain_stream = plain_send" "st_handshake plain_stream s = (Io_ok, s)"
  "st_set_send_timeout plain_stream ms s =
     (ps_sockopt s, if ps_sockopt s then s\<lparr>ps_sndtimeo := to_timeval ms\<rparr> else s)"
  "st_set_receive_timeout plain_stream ms s =
     (ps_sockopt s, if ps_sockopt s then s\<lparr>ps_rcvtimeo := to_timeval ms\<rparr> else s)"
  by (simp_all add: plain_stream_def socket_set_receive_timeout_def socket_set_send_timeout_def)

interpretation tcp: duplex plain_stream "\<lambda>s. answered (ps_recv s)" plain_future ps_out
proof unfold_locales
  fix s c ins outs
  assume f: "plain_future s (c # ins) outs"
  then obtain os where "socket_recv_some (ps_recv s) 2048 = Some (\<lparr>rd_status = Io_ok, rd_bytes = c\<rparr>, os)"
      "delivers socket_recv_some os ins"
    by (auto simp: plain_future_def split: option.splits prod.splits)
  with f show "\<exists>s'. st_recv plain_stream s 2048 = Some (\<lparr>rd_status = Io_ok, rd_bytes = c\<rparr>, s') \<and>
      plain_future s' ins outs \<and> ps_out s' = ps_out s"
    by (intro exI [of _ "s\<lparr>ps_recv := os\<rparr>"]) (auto simp: plain_recv_def plain_future_def)
qed (auto simp: plain_future_def plain_send_def dest: plain_recv_ok plain_recv_ready split: option.splits)

lemma tls_stream_simps [simp]:
  "st_recv tls_stream s n = map_option (\<lambda>(rr, os). (rr, s\<lparr>ts_read := os\<rparr>)) (tls_recv_some (ts_read s) n)"
  "st_send tls_stream data s =
     map_option (\<lambda>(st, k, os). (st, s\<lparr>ts_write := os, ts_out := ts_out s @ take k data\<rparr>)) (tls_send_all (ts_write s) data)"
  "st_handshake tls_stream s = (tls_handshake (ts_accept s), s)"
  "st_set_send_timeout tls_stream ms s =
     (ts_sockopt s, if ts_sockopt s then s\<lparr>ts_sndtimeo := to_timeval ms\<rparr> else s)"
  "st_set_receive_timeout tls_stream ms s =
     (ts_sockopt s, if ts_sockopt s then s\<lparr>ts_rcvtimeo := to_timeval ms\<rparr> else s)"
  by (simp_all add: tls_stream_def)

interpretation https: duplex tls_stream "\<lambda>s. length (ts_read s)" tls_future ts_out
proof unfold_locales
  fix s c ins outs
  assume f: "tls_future s (c # ins) outs"
  then obtain os where "tls_recv_some (ts_read s) 2048 = Some (\<lparr>rd_status = Io_ok, rd_bytes = c\<rparr>, os)"
      "delivers tls_recv_some os ins"
    by (auto simp: tls_future_def split: option.splits prod.splits)
  with f show "\<exists>s'. st_recv tls_stream s 2048 = Some (\<lparr>rd_status = Io_ok, rd_bytes = c\<rparr>, s') \<and>
      tls_future s' ins outs \<and> ts_out s' = ts_out s"
    by (intro exI [of _ "s\<lparr>ts_read := os\<rparr>"]) (auto simp: tls_future_def)
next
  fix s :: tls_state and n
  assume "0 < length (ts_read s)"
  then show "\<exists>rr s'. st_recv tls_stream s n = Some (rr, s') \<and> length (ts_read s) \<le> Suc (length (ts_read s'))"
    using tls.recv_ready [of "ts_read s" n] by auto
qed (auto simp: tls_future_def tls_handshake_def dest: tls_recv_some_ok split: option.splits)

lemma delivers_chunks:
  "list_all (\<lambda>c. c \<noteq> [] \<and> length c \<le> 2048) cs \<Longrightarrow> delivers socket_recv_some (map Recv_rc cs @ os) cs"
  by (induction cs) auto

lemma send_whole: "x \<noteq> [] \<Longrightarrow> socket_send_all (Send_rc (length x) # os) x = Some (Io_ok, length x, os)"
  by (cases os) (simp_all add: socket_send_all_def Let_def)

lemma serialize_not_Nil [simp]: "serialize r p \<noteq> []"
  by (simp add: serialize_def)

lemma tcp_conversation_run:
  assumes "answers https h reqs w = Some (resps, w')" and "conversation reqs chunks"
    and "ps_sockopt s" and "delivers socket_recv_some (ps_recv s) (concat chunks)"
    and "takes socket_send_all (ps_send s) (wires reqs resps)"
  shows "\<exists>c. handle_connection plain_stream https h ip (Inr (Some s)) w = Some (Inr c) \<and>
           ps_out (cn_stream c) = ps_out s @ concat (wires reqs resps) \<and> cn_world c = w' \<and>
           cn_events c = [] \<and> cn_log c = map2 (access_of ip) reqs resps"
proof -
  have "plain_future s (concat chunks @ []) (wires reqs resps @ [])" using assms(3-5) by (simp add: plain_future_def)
  from tcp.handle_conversation [OF assms(1,2) this] show ?thesis by blast
qed

text \<open>
  C1 (functional). End to end over TCP: a client that sends well-formed requests one after
  another on one connection, all but the last asking to keep it alive, gets exactly the
  responses of the handler (with the HTTPS policy header when enabled), in order and each
  serialized with the connection policy its request asked for, however TCP segments the
  requests, whichever calls are interrupted and whatever parts of the responses the kernel
  takes at a time; the connection then ends without an error event, the handler's state is
  the one after all requests in order, and the access log has one record per request with
  the status and the number of bytes sent.
\<close>

theorem tcp_conversation:
  assumes "answers https h reqs w = Some (resps, w')" and "conversation reqs chunks"
    and "ps_sockopt s" and "delivers socket_recv_some (ps_recv s) (concat chunks)"
    and "takes socket_send_all (ps_send s) (wires reqs resps)"
  shows "\<exists>c. handle_connection plain_stream https h ip (Inr (Some s)) w = Some (Inr c) \<and>
           ps_out (cn_stream c) = ps_out s @ concat (wires reqs resps) \<and> cn_world c = w' \<and>
           cn_events c = [] \<and> cn_log c = map2 (access_of ip) reqs resps"
  by (rule tcp_conversation_run [OF assms])

text \<open>
  The responses of the handler alone, with its state threaded through; \<open>None\<close> when an exception ends
  the connection.
\<close>

fun handled :: "'w request_handler \<Rightarrow> request list \<Rightarrow> 'w \<Rightarrow> (response list \<times> 'w) option" where
  "handled h [] w = Some ([], w)"
| "handled h (r # rs) w =
     (case h r w of (res, w1) \<Rightarrow>
        (case res of Inl _ \<Rightarrow> None | Inr a \<Rightarrow> map_option (\<lambda>(as, w2). (a # as, w2)) (handled h rs w1)))"

lemma handled_answers: "handled h reqs w = Some (as, w') \<Longrightarrow> answers True h reqs w = Some (map with_hsts as, w')"
proof (induction reqs arbitrary: w as)
  case (Cons r reqs)
  then obtain a w1 as1 where h: "h r w = (Inr a, w1)" "handled h reqs w1 = Some (as1, w')" "as = a # as1"
    by (auto split: prod.splits sum.splits)
  from Cons.IH [OF h(2)] h(1,3) show ?case by (simp add: add_hsts_meets)
qed simp

text \<open>
  C2 (functional). The same over TLS, once the handshake has succeeded: the plaintext the client
  sends, in whatever records, is answered with exactly the responses of the handler in order,
  each with \<^verbatim>\<open>Strict-Transport-Security: max-age=31536000\<close> added unless the handler has set
  that field itself. An answer to which it was added carries the field exactly once,
  and the line is among the header lines of the bytes that are sent, whatever the status.
\<close>

theorem tls_conversation:
  assumes "handled h reqs w = Some (as, w')" and "conversation reqs chunks"
    and "ts_sockopt s" and "tls_handshake (ts_accept s) = Io_ok" and "delivers tls_recv_some (ts_read s) (concat chunks)"
    and "takes tls_send_all (ts_write s) (wires reqs (map with_hsts as))"
  shows "(\<exists>c. handle_connection tls_stream True h ip (Inr (Some s)) w = Some (Inr c) \<and>
           ts_out (cn_stream c) = ts_out s @ concat (wires reqs (map with_hsts as)) \<and> cn_world c = w' \<and>
           cn_events c = [] \<and> cn_log c = map2 (access_of ip) reqs (map with_hsts as)) \<and>
         (\<forall>a \<in> set as. named ''Strict-Transport-Security'' (resp_headers a) = [] \<longrightarrow>
            named ''Strict-Transport-Security'' (wire_headers (with_hsts a) p) = [hsts_field] \<and>
            (\<exists>before after. serialize (with_hsts a) p = crlf_lines before @
               ''Strict-Transport-Security: max-age=31536000'' @ CRLF @ crlf_lines after @ CRLF @ body a))"
proof -
  have "ts_accept s = None" using assms(4) by (simp add: tls_handshake_def split: option.splits)
  then have "tls_future s (concat chunks @ []) (wires reqs (map with_hsts as) @ [])" using assms(3,5,6)
    by (simp add: tls_future_def)
  from https.handle_conversation [OF handled_answers [OF assms(1)] assms(2) this] with_hsts_on_the_wire with_hsts_bytes
  show ?thesis by blast
qed

definition sample_close :: request where
  "sample_close = sample_request\<lparr>req_headers := [\<lparr>hname = ''Connection'', hvalue = ''close''\<rparr>]\<rparr>"

definition sample_answer :: response where
  "sample_answer = (text_response 200 ''OK'' ''hi'')
     \<lparr>resp_headers := [\<lparr>hname = ''Strict-Transport-Security'', hvalue = ''max-age=31536000''\<rparr>]\<rparr>"

definition sample_chunks :: "string list list" where
  "sample_chunks = [[print_request sample_request],
                    [take 7 (print_request sample_close), drop 7 (print_request sample_close)]]"

lemma sample_conversation:
  "answers True sample_handler [sample_request, sample_close] () = Some ([sample_answer, sample_answer], ())"
  "conversation [sample_request, sample_close] sample_chunks"
  "wires [sample_request, sample_close] [sample_answer, sample_answer] =
     [serialize sample_answer Keep_alive, serialize sample_answer Close]"
proof -
  show "answers True sample_handler [sample_request, sample_close] () = Some ([sample_answer, sample_answer], ())"
    by code_simp
  have "list_all (\<lambda>r. wf_request r \<and> length (print_request r) \<le> 100) [sample_request, sample_close]" by code_simp
  moreover have "keep_alive_requested sample_request" "\<not> keep_alive_requested sample_close" by code_simp+
  ultimately show "conversation [sample_request, sample_close] sample_chunks"
    by (simp add: conversation_def sample_chunks_def max_request_header_bytes_def)
  show "wires [sample_request, sample_close] [sample_answer, sample_answer] =
     [serialize sample_answer Keep_alive, serialize sample_answer Close]"
    by code_simp
qed

text \<open>The reads are interrupted once, the first response is taken in two parts.\<close>

theorem tcp_conversation_witness:
  "\<exists>s c. ps_recv s = Recv_fail EINTR # map Recv_rc (concat sample_chunks) \<and>
     ps_send s = [Send_rc 10, Send_fail EINTR, Send_rc 4096, Send_rc 4096] \<and>
     handle_connection plain_stream True sample_handler ''10.0.0.1'' (Inr (Some s)) () = Some (Inr c) \<and>
     ps_out (cn_stream c) = serialize sample_answer Keep_alive @ serialize sample_answer Close \<and>
     map ar_status (cn_log c) = [200, 200]"
proof -
  let ?rs = "[sample_request, sample_close]" and ?as = "[sample_answer, sample_answer]"
  let ?out = "[Send_rc 10, Send_fail EINTR, Send_rc 4096, Send_rc 4096]"
  let ?s = "sample_tcp\<lparr>ps_recv := Recv_fail EINTR # map Recv_rc (concat sample_chunks), ps_send := ?out\<rparr>"
  have d: "delivers socket_recv_some (Recv_fail EINTR # map Recv_rc (concat sample_chunks)) (concat sample_chunks)"
    by code_simp
  have t: "takes socket_send_all ?out (wires ?rs ?as)" by code_simp
  have st: "status sample_answer = 200" by (simp add: sample_answer_def text_response_def)
  have "ps_sockopt ?s" "delivers socket_recv_some (ps_recv ?s) (concat sample_chunks)" "takes socket_send_all (ps_send ?s) (wires ?rs ?as)"
    using d t by (simp_all add: sample_tcp_def)
  from tcp_conversation [OF sample_conversation(1,2) this, of "''10.0.0.1''"] obtain c where
    c: "handle_connection plain_stream True sample_handler ''10.0.0.1'' (Inr (Some ?s)) () = Some (Inr c)"
      "ps_out (cn_stream c) = ps_out ?s @ concat (wires ?rs ?as)" "cn_log c = map2 (access_of ''10.0.0.1'') ?rs ?as" by blast
  have "ps_out (cn_stream c) = serialize sample_answer Keep_alive @ serialize sample_answer Close"
    unfolding c(2) sample_conversation(3) by (simp add: sample_tcp_def)
  moreover have "map ar_status (cn_log c) = [200, 200]" unfolding c(3) by (simp add: access_of_def st)
  ultimately show ?thesis using c(1) by (intro exI [of _ ?s] exI [of _ c]) simp
qed

definition sample_tls :: tls_state where
  "sample_tls =
     \<lparr>ts_accept = None, ts_read = map (\<lambda>c. Ssl_read (hd c) (tl c)) (concat sample_chunks),
      ts_write = [Ssl_write 100, Ssl_write 4096, Ssl_write 4096], ts_sockopt = True,
      ts_rcvtimeo = (0, 0), ts_sndtimeo = (0, 0), ts_out = []\<rparr>"

text \<open>A handler that finds the resource once and reports it missing afterwards.\<close>

definition once_handler :: "nat request_handler" where
  "once_handler req n =
     (Inr (if n = 0 then text_response 200 ''OK'' ''hi'' else text_response 404 ''Not Found'' ''gone''), Suc n)"

definition sample_missing :: response where
  "sample_missing = (text_response 404 ''Not Found'' ''gone'')
     \<lparr>resp_headers := [\<lparr>hname = ''Strict-Transport-Security'', hvalue = ''max-age=31536000''\<rparr>]\<rparr>"

theorem tls_conversation_witness:
  "\<exists>c. handle_connection tls_stream True once_handler ''10.0.0.1'' (Inr (Some sample_tls)) 0 = Some (Inr c) \<and>
     ts_out (cn_stream c) = serialize sample_answer Keep_alive @ serialize sample_missing Close \<and>
     (\<exists>before after. serialize sample_missing Close = crlf_lines before @
        ''Strict-Transport-Security: max-age=31536000'' @ CRLF @ crlf_lines after @ CRLF @ ''gone'')"
proof -
  let ?rs = "[sample_request, sample_close]"
  let ?as = "[text_response 200 ''OK'' ''hi'', text_response 404 ''Not Found'' ''gone'']"
  have h: "handled once_handler ?rs 0 = Some (?as, 2)" by (simp add: once_handler_def)
  have as: "map with_hsts ?as = [sample_answer, sample_missing]" by code_simp
  have w: "wires ?rs (map with_hsts ?as) = [serialize sample_answer Keep_alive, serialize sample_missing Close]"
    unfolding as by code_simp
  have s: "ts_sockopt sample_tls" "tls_handshake (ts_accept sample_tls) = Io_ok"
    by (simp_all add: sample_tls_def tls_handshake_def)
  have d: "delivers tls_recv_some (ts_read sample_tls) (concat sample_chunks)" by code_simp
  have t: "takes tls_send_all (ts_write sample_tls) (wires ?rs (map with_hsts ?as))" by code_simp
  note tls_conversation [OF h sample_conversation(2) s d t, of "''10.0.0.1''" Close]
  then obtain c where
    c: "handle_connection tls_stream True once_handler ''10.0.0.1'' (Inr (Some sample_tls)) 0 = Some (Inr c)"
      "ts_out (cn_stream c) = ts_out sample_tls @ concat (wires ?rs (map with_hsts ?as))"
    and f: "\<forall>a \<in> set ?as. named ''Strict-Transport-Security'' (resp_headers a) = [] \<longrightarrow>
      (\<exists>before after. serialize (with_hsts a) Close = crlf_lines before @
         ''Strict-Transport-Security: max-age=31536000'' @ CRLF @ crlf_lines after @ CRLF @ body a)" by blast
  have "resp_headers (text_response 404 ''Not Found'' ''gone'') = []" "body (text_response 404 ''Not Found'' ''gone'') = ''gone''"
    by code_simp+
  with f as have "\<exists>before after. serialize sample_missing Close = crlf_lines before @
      ''Strict-Transport-Security: max-age=31536000'' @ CRLF @ crlf_lines after @ CRLF @ ''gone''" by simp
  moreover have "ts_out (cn_stream c) = serialize sample_answer Keep_alive @ serialize sample_missing Close"
    using c(2) unfolding w by (simp add: sample_tls_def)
  ultimately show ?thesis using c(1) by blast
qed

section \<open>Requests that do not parse\<close>

text \<open>
  A header block that is not a valid request is answered with 400 and the
  connection is closed: the handler is not called (its state is unchanged), exactly the
  serialized 400 response is sent, and it is logged without request data.
\<close>

theorem tcp_bad_request:
  assumes "find_header_end block = Some (length block)" and "parse block = Inl e"
    and "block \<noteq> []" and "length block \<le> 2048"
    and "ps_sockopt s" and "ps_recv s = Recv_rc block # os"
    and "ps_send s = Send_rc (length (serialize bad_request Close)) # os'"
  shows "\<exists>c. handle_connection plain_stream https h ip (Inr (Some s)) w = Some (Inr c) \<and>
           ps_out (cn_stream c) = ps_out s @ serialize bad_request Close \<and> cn_world c = w \<and>
           cn_events c = [] \<and> map ar_status (cn_log c) = [400] \<and> map ar_target (cn_log c) = [''-'']"
proof -
  have "plain_future s ([block] @ []) (serialize bad_request Close # [])"
    using assms(3-7) by (simp add: plain_future_def send_whole)
  from tcp.handle_bad_request [OF _ _ _ this, of e https h ip w] assms(1,2,4) show ?thesis
    by (simp add: max_request_header_bytes_def)
qed

definition bad_block :: string where
  "bad_block = ''GET index.html HTTP/1.1'' @ HEND"

end
