(* ===== verification/Access_Log.thy ===== *)
theory Access_Log
  imports Conversations Calendar
begin

text \<open>
  The access log as it is written (\<^verbatim>\<open>src/src/app/access_log.cpp\<close>): the clock readings of a record, its
  time stamp, and the line on standard output. Times are nanoseconds since 1970, as in
  \<^verbatim>\<open>std::chrono::system_clock\<close>; the clock itself is an input.
\<close>

section \<open>Time stamps\<close>

text \<open>\<^verbatim>\<open>to_time_t\<close> drops the fraction of a second, towards zero.\<close>

definition to_time_t :: "int \<Rightarrow> int" where
  "to_time_t ns = (if 0 \<le> ns then ns div 1000000000 else - ((- ns) div 1000000000))"

definition two_digits :: "int \<Rightarrow> string" where
  "two_digits n = [digit_char (nat n div 10), digit_char (nat n mod 10)]"

definition month_names :: "string list" where
  "month_names = [''Jan'', ''Feb'', ''Mar'', ''Apr'', ''May'', ''Jun'', ''Jul'', ''Aug'', ''Sep'', ''Oct'', ''Nov'', ''Dec'']"

text \<open>The format \<^verbatim>\<open>%d/%b/%Y:%H:%M:%S +0000\<close>.\<close>

definition put_time :: "tm \<Rightarrow> string" where
  "put_time t =
     two_digits (tm_mday t) @ ''/'' @ (if 0 \<le> tm_mon t \<and> tm_mon t \<le> 11 then month_names ! nat (tm_mon t) else ''?'') @
     ''/'' @ show_int (tm_year t + 1900) @ '':'' @ two_digits (tm_hour t) @ '':'' @ two_digits (tm_min t) @ '':'' @
     two_digits (tm_sec t) @ '' +0000''"

definition format_timestamp :: "int \<Rightarrow> string" where
  "format_timestamp timestamp = put_time (gmtime (to_time_t timestamp))"

section \<open>Records and lines\<close>

text \<open>The fields of an \<open>access_record\<close> that come from the clocks; \<^verbatim>\<open>elapsed\<close> in microseconds.\<close>

record stamped_record = access_record +
  ar_timestamp :: int
  ar_elapsed :: int

text \<open>\<^verbatim>\<open>log_access\<close> reads the clock and casts the elapsed time down from nanoseconds.\<close>

definition stamp_record :: "int \<Rightarrow> int \<Rightarrow> access_record \<Rightarrow> stamped_record" where
  "stamp_record now elapsed_ns r =
     access_record.extend r (stamped_record.fields now (elapsed_ns div 1000))"

definition stdout_access_log :: "stamped_record \<Rightarrow> string" where
  "stdout_access_log r =
     access_line (format_timestamp (ar_timestamp r)) (ar_elapsed r) (access_record.truncate r) @ [LF]"

section \<open>Reading a log\<close>

definition read_int :: "string \<Rightarrow> int" where
  "read_int s = (if s \<noteq> [] \<and> hd s = CHR ''-'' then - int (digits_value (tl s)) else int (digits_value s))"

definition read_date :: "string \<Rightarrow> int" where
  "read_date s =
     (case split_on (CHR ''/'') s of
        [d, name, y] \<Rightarrow> day_number (read_int y) (case index_of ((=) name) month_names of None \<Rightarrow> 0 | Some i \<Rightarrow> int i + 1) (read_int d)
      | _ \<Rightarrow> 0)"

definition read_timestamp :: "string \<Rightarrow> int" where
  "read_timestamp s =
     (case split_on (CHR '':'') s of
        [date, h, m, rest] \<Rightarrow>
          read_date date * 86400 + read_int h * 3600 + read_int m * 60 + read_int (take 2 rest)
      | _ \<Rightarrow> 0)"

lemma read_int_digits: "list_all is_digit s \<Longrightarrow> read_int s = int (digits_value s)"
  by (cases s) (auto simp: read_int_def is_digit_def in_range_def)

lemma list_all_show_nat: "list_all is_digit (show_nat n)"
  by (auto simp: list_all_iff show_nat_digits)

lemma read_int_show_int: "read_int (show_int i) = i"
proof (cases "i < 0")
  case True
  then show ?thesis by (simp add: read_int_def show_int_def digits_value_show_nat)
next
  case False
  then show ?thesis
    using read_int_digits [OF list_all_show_nat, of "nat i"] by (simp add: show_int_def digits_value_show_nat)
qed

lemma show_int_chars: "c \<in> set (show_int i) \<Longrightarrow> is_digit c \<or> c = CHR ''-''"
  by (auto simp: show_int_def dest: show_nat_digits split: if_splits)

lemma two_digits_props:
  assumes "0 \<le> n" and "n < 100"
  shows "list_all is_digit (two_digits n)" and "read_int (two_digits n) = n" and "length (two_digits n) = 2"
proof -
  have b: "nat n div 10 < 10" "nat n mod 10 < 10" using assms by auto
  then show d: "list_all is_digit (two_digits n)" by (simp add: two_digits_def is_digit_digit_char)
  have "digits_value (two_digits n) = nat n"
    using b by (simp add: two_digits_def digits_value_def digit_value_digit_char)
  with read_int_digits [OF d] assms(1) show "read_int (two_digits n) = n" by simp
qed (simp add: two_digits_def)

lemma digits_exclude: "list_all is_digit s \<Longrightarrow> \<not> is_digit c \<Longrightarrow> c \<notin> set s"
  by (auto simp: list_all_iff)

lemma month_name_props:
  assumes "k < 12"
  shows "index_of ((=) (month_names ! k)) month_names = Some k" "length (month_names ! k) = 3"
    and "CHR ''/'' \<notin> set (month_names ! k)" "CHR '':'' \<notin> set (month_names ! k)" "SP \<notin> set (month_names ! k)"
      "LF \<notin> set (month_names ! k)"
proof -
  have "list_all (\<lambda>k. index_of ((=) (month_names ! k)) month_names = Some k \<and> length (month_names ! k) = 3 \<and>
      list_all (\<lambda>c. c \<notin> set (month_names ! k)) [CHR ''/'', CHR '':'', SP, LF]) [0..<12]"
    by code_simp
  with assms have "index_of ((=) (month_names ! k)) month_names = Some k \<and> length (month_names ! k) = 3 \<and>
      list_all (\<lambda>c. c \<notin> set (month_names ! k)) [CHR ''/'', CHR '':'', SP, LF]"
    by (simp only: list_all_iff set_upt) simp
  then show "index_of ((=) (month_names ! k)) month_names = Some k" "length (month_names ! k) = 3"
    and "CHR ''/'' \<notin> set (month_names ! k)" "CHR '':'' \<notin> set (month_names ! k)" "SP \<notin> set (month_names ! k)"
      "LF \<notin> set (month_names ! k)" by simp_all
qed

text \<open>The date and the clock of a time stamp.\<close>

definition date_text :: "int \<Rightarrow> int \<Rightarrow> int \<Rightarrow> string" where
  "date_text y m d = two_digits d @ ''/'' @ month_names ! nat (m - 1) @ ''/'' @ show_int y"

lemma valid_date_bounds: "valid_date y m d \<Longrightarrow> 1 \<le> m \<and> m \<le> 12 \<and> 1 \<le> d \<and> d \<le> 31"
  by (auto simp: valid_date_def days_in_month_def split: if_splits)

lemma date_text_props:
  assumes "valid_date y m d"
  shows "read_date (date_text y m d) = day_number y m d" and "CHR '':'' \<notin> set (date_text y m d)"
    and "SP \<notin> set (date_text y m d)" and "LF \<notin> set (date_text y m d)"
proof -
  note b = valid_date_bounds [OF assms]
  note d = two_digits_props [of d]
  note n = month_name_props [of "nat (m - 1)"]
  have k: "nat (m - 1) < 12" using b by linarith
  have dd: "c \<notin> set (two_digits d)" if "\<not> is_digit c" for c using digits_exclude [OF d(1) that] b by simp
  have yy: "c \<notin> set (show_int y)" if "\<not> is_digit c" "c \<noteq> CHR ''-''" for c using show_int_chars [of c y] that by blast
  have nd: "\<not> is_digit (CHR ''/'')" "\<not> is_digit (CHR '':'')" "\<not> is_digit SP" "\<not> is_digit LF"
    by (simp_all add: is_digit_def in_range_def)
  have "split_on (CHR ''/'') (date_text y m d) = [two_digits d, month_names ! nat (m - 1), show_int y]"
    using dd [OF nd(1)] yy [OF nd(1)] n(3) [OF k]
    by (simp add: date_text_def split_on_append split_on_no_delim)
  then show "read_date (date_text y m d) = day_number y m d"
    using n(1) [OF k] d(2) b by (simp add: read_date_def read_int_show_int)
  show "CHR '':'' \<notin> set (date_text y m d)" "SP \<notin> set (date_text y m d)" "LF \<notin> set (date_text y m d)"
    using dd [OF nd(2)] yy [OF nd(2)] n(4) [OF k] dd [OF nd(3)] yy [OF nd(3)] n(5) [OF k] dd [OF nd(4)] yy [OF nd(4)] n(6) [OF k]
    by (simp_all add: date_text_def)
qed

definition clock_text :: "int \<Rightarrow> string" where
  "clock_text t = '':'' @ two_digits (t mod 86400 div 3600) @ '':'' @ two_digits (t mod 3600 div 60) @ '':'' @ two_digits (t mod 60)"

lemma clock_bounds:
  fixes t :: int
  shows "0 \<le> t mod 86400 div 3600" "t mod 86400 div 3600 < 100" "0 \<le> t mod 3600 div 60" "t mod 3600 div 60 < 100"
    "0 \<le> t mod 60" "t mod 60 < 100"
    and "t = t div 86400 * 86400 + t mod 86400 div 3600 * 3600 + t mod 3600 div 60 * 60 + t mod 60"
proof -
  have m: "0 \<le> t mod 86400" "t mod 86400 < 86400" "0 \<le> t mod 3600" "t mod 3600 < 3600" "0 \<le> t mod 60" "t mod 60 < 60"
    by simp_all
  then show "0 \<le> t mod 86400 div 3600" "t mod 86400 div 3600 < 100" "0 \<le> t mod 3600 div 60" "t mod 3600 div 60 < 100"
    "0 \<le> t mod 60" "t mod 60 < 100" by (simp_all add: pos_imp_zdiv_nonneg_iff div_pos_pos_trivial)
  have digits: "a = b + c \<Longrightarrow> c = d + e \<Longrightarrow> e = f \<Longrightarrow> f = g + h \<Longrightarrow> h = i \<Longrightarrow> a = b + d + g + i"
    for a b c d e f g h i :: int by simp
  have "t mod 86400 mod 3600 = t mod 3600" "t mod 3600 mod 60 = t mod 60" by (rule mod_mod_cancel, simp)+
  then show "t = t div 86400 * 86400 + t mod 86400 div 3600 * 3600 + t mod 3600 div 60 * 60 + t mod 60"
    by (intro digits [OF div_mult_mod_eq [symmetric] div_mult_mod_eq [symmetric] _ div_mult_mod_eq [symmetric]])
qed

lemma put_time_gmtime:
  assumes "civil_of_days (t div 86400) = (y, m, d)"
  shows "put_time (gmtime t) = date_text y m d @ clock_text t @ '' +0000''"
  using valid_date_bounds [OF civil_of_days(1) [OF assms]] assms
  by (simp add: put_time_def gmtime_def date_text_def clock_text_def)

lemma read_timestamp_put_time: "read_timestamp (put_time (gmtime t)) = t"
proof -
  obtain y m d where c: "civil_of_days (t div 86400) = (y, m, d)" by (cases "civil_of_days (t div 86400)") auto
  note v = civil_of_days [OF c]
  note h = two_digits_props [OF clock_bounds(1,2), of t] and mi = two_digits_props [OF clock_bounds(3,4), of t]
    and se = two_digits_props [OF clock_bounds(5,6), of t]
  have nd: "\<not> is_digit (CHR '':'')" by (simp add: is_digit_def in_range_def)
  let ?s = "two_digits (t mod 60) @ '' +0000''"
  have "split_on (CHR '':'') (put_time (gmtime t)) =
      [date_text y m d, two_digits (t mod 86400 div 3600), two_digits (t mod 3600 div 60), ?s]"
    using date_text_props(2) [OF v(1)] digits_exclude [OF h(1) nd] digits_exclude [OF mi(1) nd] digits_exclude [OF se(1) nd]
    unfolding put_time_gmtime [OF c] clock_text_def
    by (simp add: split_on_append split_on_no_delim)
  moreover have "take 2 ?s = two_digits (t mod 60)" by (simp add: se(3))
  ultimately have "read_timestamp (put_time (gmtime t)) =
      t div 86400 * 86400 + t mod 86400 div 3600 * 3600 + t mod 3600 div 60 * 60 + t mod 60"
    using h(2) mi(2) se(2) date_text_props(1) [OF v(1)] v(2) unfolding read_timestamp_def by simp
  with clock_bounds(7) [of t] show ?thesis by simp
qed

section \<open>Every line can be read back\<close>

definition read_access_line :: "string \<Rightarrow> stamped_record option" where
  "read_access_line line =
     (case split_on SP line of
        [ip, _, _, t1, t2, m, tgt, v, st, n, us] \<Rightarrow>
          Some \<lparr>ar_client_ip = ip, ar_method = tl m, ar_target = tgt, ar_version = butlast v, ar_status = read_int st,
                ar_response_bytes = digits_value n, ar_timestamp = read_timestamp (tl t1 @ SP # butlast t2),
                ar_elapsed = read_int (drop 6 us)\<rparr>
      | _ \<Rightarrow> None)"

definition one_word :: "string \<Rightarrow> bool" where
  "one_word s \<longleftrightarrow> SP \<notin> set s \<and> LF \<notin> set s"

definition loggable :: "access_record \<Rightarrow> bool" where
  "loggable r \<longleftrightarrow> ar_client_ip r \<noteq> [] \<and> list_all one_word [ar_client_ip r, ar_method r, ar_target r, ar_version r]"

lemma one_word_show [simp]: "one_word (show_nat n)" "one_word (show_int i)"
  using show_nat_digits [of SP n] show_int_chars [of SP i] by (auto simp: one_word_def is_digit_def in_range_def)

lemma one_word_address [simp]: "one_word (format_client_address a)"
  using format_client_address_text(3) [of SP a] format_client_address_text(3) [of LF a]
  by (auto simp: one_word_def is_digit_def in_range_def)

lemma timestamp_words:
  obtains t where "put_time (gmtime s) = t @ '' +0000''" and "one_word t"
proof -
  obtain y m d where c: "civil_of_days (s div 86400) = (y, m, d)" by (cases "civil_of_days (s div 86400)") auto
  note dt = date_text_props(3,4) [OF civil_of_days(1) [OF c]]
  have nd: "\<not> is_digit SP" "\<not> is_digit LF" by (simp_all add: is_digit_def in_range_def)
  note d = two_digits_props(1) [OF clock_bounds(1,2), of s] two_digits_props(1) [OF clock_bounds(3,4), of s]
    two_digits_props(1) [OF clock_bounds(5,6), of s]
  have "one_word (date_text y m d @ clock_text s)"
    using dt d [THEN digits_exclude, OF nd(1)] d [THEN digits_exclude, OF nd(2)]
    unfolding one_word_def clock_text_def by simp
  with that [of "date_text y m d @ clock_text s"] put_time_gmtime [OF c] show thesis by simp
qed

lemma read_access_line_stamped:
  assumes "loggable r"
  shows "\<exists>line. stdout_access_log (stamp_record now ns r) = line @ [LF] \<and> LF \<notin> set line \<and>
           read_access_line line = Some ((stamp_record now ns r)\<lparr>ar_timestamp := to_time_t now\<rparr>)"
proof -
  obtain t where t: "format_timestamp now = t @ '' +0000''" "one_word t"
    using timestamp_words unfolding format_timestamp_def by metis
  have rt: "read_timestamp (t @ '' +0000'') = to_time_t now"
    using read_timestamp_put_time [of "to_time_t now"] t(1) by (simp add: format_timestamp_def)
  let ?line = "access_line (format_timestamp now) (ns div 1000) r"
  have w: "one_word (ar_client_ip r)" "one_word (ar_method r)" "one_word (ar_target r)" "one_word (ar_version r)"
    "ar_client_ip r \<noteq> []" using assms by (simp_all add: loggable_def)
  let ?parts = "[ar_client_ip r, ''-'', ''-'', CHR ''['' # t, ''+0000]'', CHR 0x22 # ar_method r, ar_target r,
      ar_version r @ [CHR 0x22], show_int (ar_status r), show_nat (ar_response_bytes r), ''rt_us='' @ show_int (ns div 1000)]"
  have line: "?line = join_with SP ?parts" using w(5) by (simp add: access_line_def t(1))
  have ok: "list_all one_word ?parts" using w(1-4) t(2) one_word_show by (simp add: one_word_def)
  then have "split_on SP ?line = ?parts"
    unfolding line by (intro split_on_join) (auto simp: one_word_def)
  then have "read_access_line ?line = Some \<lparr>ar_client_ip = ar_client_ip r, ar_method = ar_method r, ar_target = ar_target r,
      ar_version = ar_version r, ar_status = ar_status r, ar_response_bytes = ar_response_bytes r,
      ar_timestamp = to_time_t now, ar_elapsed = ns div 1000\<rparr>"
    using rt by (simp add: read_access_line_def read_int_show_int digits_value_show_nat)
  moreover have "LF \<notin> set ?line" using w one_word_show t(2) by (auto simp: access_line_def t(1) one_word_def)
  moreover have "stdout_access_log (stamp_record now ns r) = ?line @ [LF]"
    by (cases r) (simp add: stdout_access_log_def stamp_record_def access_record.defs stamped_record.defs)
  ultimately show ?thesis
    by (intro exI [of _ ?line]) (simp add: stamp_record_def access_record.defs stamped_record.defs)
qed

lemma wf_request_words:
  assumes "wf_request req"
  shows "one_word (req_method req)" "one_word (target req)" "one_word (version_string req)"
proof -
  show "one_word (req_method req)" "one_word (target req)"
    using assms token_string_props [of "req_method req"] target_props [of "target req"]
    by (auto simp: wf_request_def is_valid_method_def one_word_def)
  have "one_word (show_int (version_major req))" "one_word (show_int (version_minor req))" by simp_all
  then show "one_word (version_string req)" by (simp add: version_string_def one_word_def)
qed

interpretation logged: connection_invariant "format_client_address a" "\<lambda>c. list_all loggable (cn_log c)" for a
proof unfold_locales
qed (use format_client_address_text(1) in
  \<open>auto simp: on_connection_error_def log_access_def loggable_def wf_request_words one_word_def [of "''-''"]
     one_word_def [of "''HTTP/1.1''"]\<close>)

text \<open>
  C29 (roundtrip). Every request a connection answers, and every error reply, leaves one line in
  the access log that says exactly what happened: the line ends at its only line feed, and
  reading its fields back gives the client's address, the time in seconds, method, target,
  version, status, the number of bytes and the time taken. No client can forge a line or a field.
\<close>

theorem access_log_readable:
  assumes "handle_connection ops https h (format_client_address host) created w = Some (Inr c)" and "r \<in> set (cn_log c)"
  shows "\<exists>line. stdout_access_log (stamp_record now ns r) = line @ [LF] \<and> LF \<notin> set line \<and>
           read_access_line line = Some ((stamp_record now ns r)\<lparr>ar_timestamp := to_time_t now\<rparr>)"
proof -
  have "list_all loggable (cn_log c)" by (rule logged.handle_connection [OF assms(1)]) simp
  with assms(2) have "loggable r" by (simp add: list_all_iff)
  then show ?thesis by (rule read_access_line_stamped)
qed

theorem access_log_readable_witness:
  "\<exists>s c r. handle_connection plain_stream False sample_handler ''10.0.0.1'' (Inr (Some s)) () = Some (Inr c) \<and>
     r \<in> set (cn_log c) \<and> ar_status r = 400 \<and>
     (\<exists>line. stdout_access_log (stamp_record 1735689600123456789 7000 r) = line @ [LF] \<and>
        read_access_line line = Some ((stamp_record 1735689600123456789 7000 r)\<lparr>ar_timestamp := 1735689600\<rparr>))"
proof -
  let ?s = "sample_tcp\<lparr>ps_recv := [Recv_rc bad_block],
                       ps_send := [Send_rc (length (serialize bad_request Close))]\<rparr>"
  have e: "find_header_end bad_block = Some (length bad_block)" by code_simp
  have p: "parse bad_block = Inl Invalid_target" by code_simp
  have n: "bad_block \<noteq> []" by code_simp
  have l: "length bad_block \<le> 2048" by code_simp
  have s: "ps_sockopt ?s" "ps_recv ?s = Recv_rc bad_block # []"
    "ps_send ?s = Send_rc (length (serialize bad_request Close)) # []"
    by (simp_all add: sample_tcp_def)
  have host: "format_client_address 0x0A000001 = ''10.0.0.1''" by code_simp
  from tcp_bad_request [OF e p n l s, of False sample_handler "''10.0.0.1''" "()"] obtain c where
    c: "handle_connection plain_stream False sample_handler ''10.0.0.1'' (Inr (Some ?s)) () = Some (Inr c)"
      "map ar_status (cn_log c) = [400]" by auto
  from c(2) obtain r where r: "r \<in> set (cn_log c)" "ar_status r = 400" by auto
  have "to_time_t 1735689600123456789 = 1735689600" by (simp add: to_time_t_def)
  with access_log_readable [OF c(1) [folded host] r(1), of 1735689600123456789 7000] c(1) r show ?thesis by metis
qed

text \<open>A time stamp of the 64-bit clock has a year of four digits, and all of them have the same width.\<close>

lemma month_days_bounds: "sum_list (map (days_in_month y) ms) \<le> 31 * int (length ms)" "0 \<le> sum_list (map (days_in_month y) ms)"
  by (induction ms) (auto simp: days_in_month_def)

lemma show_nat_four:
  assumes "1000 \<le> n" and "n < 10000"
  shows "length (show_nat n) = 4"
proof -
  have "n div 1000 < 10" "\<not> n div 100 < 10" "\<not> n div 10 < 10" using assms by linarith+
  then show ?thesis
    using assms
    by (simp add: show_nat.simps [of n] show_nat.simps [of "n div 10"] show_nat.simps [of "n div 100"]
        show_nat.simps [of "n div 1000"] flip: div_mult2_eq)
qed

lemma year_bounds:
  assumes "valid_date y m d" and "\<bar>day_number y m d\<bar> \<le> 106752"
  shows "1000 \<le> y" and "y < 10000"
proof -
  note b = valid_date_bounds [OF assms(1)] and ms = month_days_bounds [of y "[1..m - 1]"]
  have "int (length [1..m - 1]) \<le> 11" using b by simp
  with ms b have s: "0 \<le> sum_list (map (days_in_month y) [1..m - 1])" "sum_list (map (days_in_month y) [1..m - 1]) \<le> 341"
    by linarith+
  define x where "x = y - 1"
  have l: "400 * leap_days x \<le> 97 * x + 400" "97 * x - 700 \<le> 400 * leap_days x"
  proof -
    have q: "n * (x div n) \<le> x \<and> x \<le> n * (x div n) + (n - 1)" if "0 < n" for n
      using mult_div_mod_eq [of n x] pos_mod_bound [OF that, of x] pos_mod_sign [OF that, of x] by linarith
    from q [of 4] q [of 100] q [of 400] show "400 * leap_days x \<le> 97 * x + 400" "97 * x - 700 \<le> 400 * leap_days x"
      unfolding leap_days_def by simp_all
  qed
  have "\<bar>365 * x + leap_days x + sum_list (map (days_in_month y) [1..m - 1]) + d - 719163\<bar> \<le> 106752"
    using assms(2) unfolding day_number_leap_days x_def .
  with s l b have "1000 \<le> x + 1" "x + 1 < 10000" by linarith+
  then show "1000 \<le> y" "y < 10000" by (simp_all add: x_def)
qed

lemma timestamp_width:
  assumes "- (2 ^ 63) \<le> ns" and "ns < 2 ^ 63"
  shows "length (format_timestamp ns) = 26"
proof -
  let ?t = "to_time_t ns"
  have "\<bar>?t\<bar> \<le> 9223372036" using assms by (auto simp: to_time_t_def)
  then have d: "\<bar>?t div 86400\<bar> \<le> 106752" by linarith
  obtain y m d where c: "civil_of_days (?t div 86400) = (y, m, d)" by (cases "civil_of_days (?t div 86400)") auto
  note v = civil_of_days [OF c]
  have y: "1000 \<le> y" "y < 10000" using year_bounds [OF v(1)] d v(2) by simp_all
  then have "length (show_int y) = 4" using show_nat_four [of "nat y"] by (simp add: show_int_def)
  moreover have "length (month_names ! nat (m - 1)) = 3"
    by (rule month_name_props) (use valid_date_bounds [OF v(1)] in linarith)
  ultimately show ?thesis
    unfolding format_timestamp_def put_time_gmtime [OF c] by (simp add: date_text_def clock_text_def two_digits_def)
qed

end
