(* ===== verification/Native_Path.thy ===== *)
theory Native_Path
  imports Prelude
begin

text \<open>
  The operations of \<^verbatim>\<open>std::filesystem::path\<close> the sources use, on paths in native (POSIX) form, and
  the state of the machine that startup reads: the file system's answers and the number of
  hardware threads.
\<close>

section \<open>Lexical operations\<close>

definition is_absolute :: "string \<Rightarrow> bool" where
  "is_absolute p \<longleftrightarrow> p \<noteq> [] \<and> hd p = CHR ''/''"

text \<open>\<^verbatim>\<open>operator/\<close> on native paths\<close>

definition path_append :: "string \<Rightarrow> string \<Rightarrow> string" where
  "path_append a b =
     (if is_absolute b then b
      else if a = [] \<or> last a = CHR ''/'' then a @ b else a @ ''/'' @ b)"

text \<open>\<^verbatim>\<open>path::filename\<close>: what follows the last separator.\<close>

definition path_filename :: "string \<Rightarrow> string" where
  "path_filename p = rev (takeWhile (\<lambda>c. c \<noteq> CHR ''/'') (rev p))"

text \<open>\<^verbatim>\<open>path::parent_path\<close>: without the last component and the separators before it, except the root.\<close>

definition parent_path :: "string \<Rightarrow> string" where
  "parent_path p =
     (if list_all (\<lambda>c. c = CHR ''/'') p then p
      else (let h = dropWhile (\<lambda>c. c \<noteq> CHR ''/'') (rev p);
                s = dropWhile (\<lambda>c. c = CHR ''/'') h
            in if h \<noteq> [] \<and> s = [] then ''/'' else rev s))"

text \<open>\<^verbatim>\<open>path::extension\<close> of the last component\<close>

definition extension :: "string list \<Rightarrow> string" where
  "extension p =
     (if p = [] then []
      else (let f = last p in
            if f = ''.'' \<or> f = ''..'' then []
            else (case sv_rfind_char f (CHR ''.'') of
                    None \<Rightarrow> [] | Some i \<Rightarrow> if i = 0 then [] else drop i f)))"

section \<open>What startup reads from the machine\<close>

text \<open>
  A failing call of a throwing overload is \<open>Inl\<close> (\<^verbatim>\<open>filesystem_error\<close> is a \<^verbatim>\<open>runtime_error\<close>); the
  non-throwing overloads take the same answer and ignore the message. \<open>env_read_dir\<close> are the
  names in a directory with the answer of \<^verbatim>\<open>is_regular_file\<close>; \<open>env_open\<close> is \<open>None\<close> for a file that
  does not open.
\<close>

record environment =
  env_hardware_concurrency :: nat
  env_absolute :: "string \<Rightarrow> string result"
  env_exists :: "string \<Rightarrow> bool result"
  env_is_directory :: "string \<Rightarrow> bool result"
  env_read_dir :: "string \<Rightarrow> (string \<times> bool result) list result"
  env_open :: "string \<Rightarrow> string option"

section \<open>Facts\<close>

lemma name_split:
  assumes "CHR ''/'' \<notin> set name"
  shows "takeWhile (\<lambda>c. c \<noteq> CHR ''/'') (rev name @ CHR ''/'' # r) = rev name"
    and "dropWhile (\<lambda>c. c \<noteq> CHR ''/'') (rev name @ CHR ''/'' # r) = CHR ''/'' # r"
    and "takeWhile (\<lambda>c. c \<noteq> CHR ''/'') (rev name) = rev name"
proof -
  have "c \<in> set (rev name) \<Longrightarrow> c \<noteq> CHR ''/''" for c using assms by auto
  then have "takeWhile (\<lambda>c. c \<noteq> CHR ''/'') (rev name @ ys) = rev name @ takeWhile (\<lambda>c. c \<noteq> CHR ''/'') ys"
    and "dropWhile (\<lambda>c. c \<noteq> CHR ''/'') (rev name @ ys) = dropWhile (\<lambda>c. c \<noteq> CHR ''/'') ys" for ys
    by (blast intro: takeWhile_append2 dropWhile_append2)+
  note slash_free = this
  show "takeWhile (\<lambda>c. c \<noteq> CHR ''/'') (rev name @ CHR ''/'' # r) = rev name"
    and "dropWhile (\<lambda>c. c \<noteq> CHR ''/'') (rev name @ CHR ''/'' # r) = CHR ''/'' # r"
    by (simp_all add: slash_free)
  show "takeWhile (\<lambda>c. c \<noteq> CHR ''/'') (rev name) = rev name"
    using assms by (auto simp: takeWhile_eq_all_conv)
qed

lemma path_append_name:
  assumes "CHR ''/'' \<notin> set name" and "dir \<noteq> []" and "last dir \<noteq> CHR ''/''"
  shows "path_append dir name = dir @ CHR ''/'' # name"
  using assms by (cases name) (auto simp: path_append_def is_absolute_def)

lemma parent_path_append:
  assumes "CHR ''/'' \<notin> set name" and "dir \<noteq> []" and "last dir \<noteq> CHR ''/''"
  shows "parent_path (path_append dir name) = dir"
proof -
  obtain c ds where rd: "rev dir = c # ds" and c: "c \<noteq> CHR ''/''"
    using assms(2,3) by (cases "rev dir") (auto simp: last_rev [of "rev dir", simplified])
  have "\<not> list_all (\<lambda>c. c = CHR ''/'') (dir @ CHR ''/'' # name)"
    using assms(2,3) last_in_set by (fastforce simp: list_all_iff)
  moreover have "rev (c # ds) = dir" using rd by (metis rev_rev_ident)
  ultimately show ?thesis
    using assms(1) c by (simp add: path_append_name [OF assms] parent_path_def name_split rd)
qed

lemma path_filename_append:
  assumes "CHR ''/'' \<notin> set name" and "dir \<noteq> []" and "last dir \<noteq> CHR ''/''"
  shows "path_filename (path_append dir name) = name"
  using assms by (simp add: path_append_name [OF assms] path_filename_def name_split)

end
