(* ===== verification/Static_Files.thy ===== *)
theory Static_Files
  imports Config_Text Native_Path
begin

text \<open>
  The static-file service and module (\<^verbatim>\<open>src/lib/static_files/static_files.cpp\<close>,
  static_files_module.cpp). A path in native form is a string; a canonical path is the list of
  components its iterator yields. The file system (\<^verbatim>\<open>std::filesystem\<close> queries and
  \<^verbatim>\<open>ifstream\<close> reads, i.e. the operating system's state) is a record of functions the
  definitions take as an argument; the theorems hold for every such record.
\<close>

section \<open>The file system as the service sees it\<close>

text \<open>
  \<open>fs_entry\<close>: \<open>None\<close> when the directory entry cannot be read, else whether it is a regular file
  and its size (or the exception \<^verbatim>\<open>file_size()\<close> throws); \<open>fs_open\<close>: the bytes of a file that opens.
\<close>

record file_system =
  fs_absolute :: "string \<Rightarrow> string option"
  fs_weakly_canonical :: "string \<Rightarrow> string list option"
  fs_canonical :: "string list \<Rightarrow> string list option"
  fs_is_directory :: "string list \<Rightarrow> bool"
  fs_entry :: "string list \<Rightarrow> (bool \<times> nat result) option"
  fs_open :: "string list \<Rightarrow> string option"

definition max_file_bytes :: nat where
  "max_file_bytes = 8 * 1024 * 1024"

section \<open>The service (static_files.cpp)\<close>

definition read_file_bytes :: "file_system \<Rightarrow> string list \<Rightarrow> nat \<Rightarrow> string option" where
  "read_file_bytes fs p n =
     (if n > 2 ^ 64 - 1 then None
      else (case fs_open fs p of
              None \<Rightarrow> None
            | Some bytes \<Rightarrow> if length bytes < n then None else Some (take n bytes)))"

definition guess_content_type :: "string list \<Rightarrow> string" where
  "guess_content_type p =
     (let ext = extension p in
      if ext = ''.html'' \<or> ext = ''.htm'' then ''text/html; charset=utf-8''
      else if ext = ''.css'' then ''text/css; charset=utf-8''
      else if ext = ''.js'' then ''text/javascript; charset=utf-8''
      else if ext = ''.txt'' then ''text/plain; charset=utf-8''
      else if ext = ''.png'' then ''image/png''
      else if ext = ''.jpg'' \<or> ext = ''.jpeg'' then ''image/jpeg''
      else if ext = ''.gif'' then ''image/gif''
      else if ext = ''.svg'' then ''image/svg+xml''
      else ''application/octet-stream'')"

function relative_loop :: "string \<Rightarrow> nat \<Rightarrow> string list \<Rightarrow> string list option" where
  "relative_loop tgt pos relative =
     (if pos \<le> length tgt then
        (let nxt = (case sv_find_char tgt (CHR ''/'') pos of None \<Rightarrow> length tgt | Some n \<Rightarrow> n);
             segment = sv_substr tgt pos (nxt - pos)
         in if segment \<noteq> [] then
              (if segment = ''.'' \<or> segment = ''..'' \<or> sv_find_char segment (CHR 0x00) 0 \<noteq> None then None
               else relative_loop tgt (nxt + 1) (relative @ [segment]))
            else relative_loop tgt (nxt + 1) relative)
      else Some relative)"
  by pat_completeness auto
termination
  by (relation "measure (\<lambda>(t, p, r). Suc (length t) - p)")
    (auto split: option.splits dest: sv_find_char_bounds)

declare relative_loop.simps [simp del]

definition map_to_relative_path :: "string \<Rightarrow> string list option" where
  "map_to_relative_path tgt0 =
     (let tgt = (case sv_find_char tgt0 (CHR ''?'') 0 of None \<Rightarrow> tgt0 | Some q \<Rightarrow> sv_substr tgt0 0 q) in
      if tgt = [] \<or> tgt ! 0 \<noteq> CHR ''/'' then None
      else (let tgt' = (if tgt = ''/'' then ''/index.html'' else tgt) in
            case relative_loop tgt' 1 [] of
              None \<Rightarrow> None
            | Some relative \<Rightarrow> if relative = [] then None else Some relative))"

definition canonicalize_path :: "file_system \<Rightarrow> string \<Rightarrow> string list" where
  "canonicalize_path fs p =
     (case fs_absolute fs p of
        None \<Rightarrow> []
      | Some a \<Rightarrow> (case fs_weakly_canonical fs a of None \<Rightarrow> [] | Some c \<Rightarrow> c))"

text \<open>The parallel iteration over both component lists.\<close>

fun is_within_root :: "string list \<Rightarrow> string list \<Rightarrow> bool" where
  "is_within_root [] candidate = True"
| "is_within_root (r # rs) [] = False"
| "is_within_root (r # rs) (c # cs) = (if r \<noteq> c then False else is_within_root rs cs)"

definition resolve_under_root :: "file_system \<Rightarrow> string list \<Rightarrow> string list \<Rightarrow> string list option" where
  "resolve_under_root fs root relative =
     (if root = [] then None
      else (case fs_canonical fs (root @ relative) of
              None \<Rightarrow> None
            | Some resolved \<Rightarrow> if \<not> is_within_root root resolved then None else Some resolved))"

definition not_found :: response where
  "not_found = text_response 404 ''Not Found'' (''not found'' @ [LF])"

definition serve_file :: "file_system \<Rightarrow> string list \<Rightarrow> string \<Rightarrow> bool \<Rightarrow> response result" where
  "serve_file fs root tgt include_body =
     (case map_to_relative_path tgt of
        None \<Rightarrow> Inr not_found
      | Some relative \<Rightarrow>
          (case resolve_under_root fs root relative of
             None \<Rightarrow> Inr not_found
           | Some resolved \<Rightarrow>
               (case fs_entry fs resolved of
                  None \<Rightarrow> Inr not_found
                | Some (regular, sized) \<Rightarrow>
                    if \<not> regular then Inr not_found
                    else bindE sized (\<lambda>file_size.
                      if file_size > max_file_bytes
                      then Inr (text_response 413 ''Payload Too Large'' (''file too large'' @ [LF]))
                      else (let resp = empty_response\<lparr>status := 200, reason := ''OK'',
                                         content_type := guess_content_type resolved,
                                         content_length := Some file_size\<rparr>
                            in if include_body
                               then (case read_file_bytes fs resolved file_size of
                                       None \<Rightarrow> Inr not_found
                                     | Some bytes \<Rightarrow> Inr (resp\<lparr>body := bytes\<rparr>))
                               else Inr resp)))))"

definition static_files_create :: "file_system \<Rightarrow> string \<Rightarrow> string list result" where
  "static_files_create fs root =
     (let r = canonicalize_path fs root in
      throw_if (r = [] \<or> \<not> fs_is_directory fs r)
        (Invalid_Argument (''static_files: invalid or non-existent root directory: '' @ root)) (Inr r))"

definition static_files_handle :: "file_system \<Rightarrow> string list \<Rightarrow> request \<Rightarrow> response result" where
  "static_files_handle fs root req =
     (let is_get = (req_method req = ''GET''); is_head = (req_method req = ''HEAD'') in
      if \<not> is_get \<and> \<not> is_head
      then Inr (text_response 405 ''Method Not Allowed'' (''method not allowed'' @ [LF]))
      else serve_file fs root (target req) is_get)"

section \<open>The module (static_files_module.cpp, module_cpp.h)\<close>

record host_context =
  host_default_document_root :: string
  host_config_directory :: string

definition resolve_path :: "string \<Rightarrow> string \<Rightarrow> host_context \<Rightarrow> string \<Rightarrow> string" where
  "resolve_path text key host fallback =
     (case config_get text key of
        None \<Rightarrow> fallback
      | Some v \<Rightarrow>
          if v = [] then fallback
          else if is_absolute v then v
          else if host_config_directory host \<noteq> [] then path_append (host_config_directory host) v
          else v)"

definition static_files_module_create :: "file_system \<Rightarrow> host_context \<Rightarrow> string \<Rightarrow> string list result" where
  "static_files_module_create fs host config_text =
     static_files_create fs (resolve_path config_text ''root'' host
       (if host_default_document_root host = [] then ''www'' else host_default_document_root host))"

text \<open>\<^verbatim>\<open>http_terminal_module::handle\<close> around the virtual \<^verbatim>\<open>handle_http\<close>.\<close>

definition http_terminal_handle :: "(request \<Rightarrow> response result) \<Rightarrow> request \<Rightarrow> mod_result result" where
  "http_terminal_handle handle_http req = bindE (handle_http req) (\<lambda>r. Inr (res_respond r))"

definition static_files_module_handle :: "file_system \<Rightarrow> string list \<Rightarrow> request \<Rightarrow> mod_result result" where
  "static_files_module_handle fs root = http_terminal_handle (static_files_handle fs root)"

lemma static_files_module_handle_eq:
  "static_files_module_handle fs root req = bindE (static_files_handle fs root req) (\<lambda>r. Inr (res_respond r))"
  by (simp add: static_files_module_handle_def http_terminal_handle_def)

section \<open>Target mapping\<close>

definition bad_segment :: "string \<Rightarrow> bool" where
  "bad_segment seg \<longleftrightarrow> seg = ''.'' \<or> seg = ''..'' \<or> CHR 0x00 \<in> set seg"

lemma relative_loop_segments:
  "relative_loop tgt pos rel =
     (let segs = filter (\<lambda>s. s \<noteq> []) (segments tgt (CHR ''/'') pos)
      in if list_ex bad_segment segs then None else Some (rel @ segs))"
proof (induction tgt pos rel rule: relative_loop.induct)
  case (1 tgt pos rel)
  show ?case
  proof (cases "pos \<le> length tgt")
    case False
    then show ?thesis
      by (simp add: relative_loop.simps [of tgt pos rel] segments.simps [of tgt "CHR ''/''" pos])
  next
    case True
    let ?n = "case sv_find_char tgt (CHR ''/'') pos of None \<Rightarrow> length tgt | Some n \<Rightarrow> n"
    let ?seg = "sv_substr tgt pos (?n - pos)"
    have segs: "segments tgt (CHR ''/'') pos = ?seg # segments tgt (CHR ''/'') (?n + 1)"
      using True by (simp add: segments.simps [of tgt "CHR ''/''" pos]
          segments.simps [of tgt "CHR ''/''" "Suc (length tgt)"] Let_def)
    have bad: "?seg = ''.'' \<or> ?seg = ''..'' \<or> sv_find_char ?seg (CHR 0x00) 0 \<noteq> None \<longleftrightarrow> bad_segment ?seg"
      by (auto simp: bad_segment_def sv_find_char_None)
    have un: "relative_loop tgt pos rel =
        (if ?seg \<noteq> [] then (if bad_segment ?seg then None else relative_loop tgt (?n + 1) (rel @ [?seg]))
         else relative_loop tgt (?n + 1) rel)"
      using True bad by (simp only: relative_loop.simps [of tgt pos rel] Let_def if_True)
    show ?thesis
      using "1.IH" [OF True refl refl] bad unfolding un segs by (auto simp: Let_def)
  qed
qed

lemma is_within_root_prefix: "is_within_root root p \<longleftrightarrow> (\<exists>rest. p = root @ rest)"
  by (induction root p rule: is_within_root.induct) auto

text \<open>
  How a request target names a file: the query is cut off, \<open>/\<close> means
  \<open>/index.html\<close>, and the non-empty segments of an absolute target are the relative path;
  there is none when a segment is a dot, two dots or contains a NUL byte, or no segment
  is left. In particular no mapped path can climb out of its root.
\<close>

theorem map_to_relative_path_segments:
  "map_to_relative_path (path @ (if q then CHR ''?'' # query else [])) = Some rel \<longleftrightarrow>
     rel \<noteq> [] \<and> path \<noteq> [] \<and> hd path = CHR ''/'' \<and>
     rel = filter (\<lambda>s. s \<noteq> []) (split_on (CHR ''/'') (tl (if path = ''/'' then ''/index.html'' else path))) \<and>
     list_all (\<lambda>s. s \<noteq> ''.'' \<and> s \<noteq> ''..'' \<and> CHR 0x00 \<notin> set s \<and> CHR ''/'' \<notin> set s) rel"
  if "CHR ''?'' \<notin> set path"
proof -
  have cut: "(case sv_find_char (path @ (if q then CHR ''?'' # query else [])) (CHR ''?'') 0 of
      None \<Rightarrow> path @ (if q then CHR ''?'' # query else [])
    | Some k \<Rightarrow> sv_substr (path @ (if q then CHR ''?'' # query else [])) 0 k) = path"
  proof (cases q)
    case True
    with that show ?thesis by (simp add: sv_find_char_def index_of_char sv_substr_def)
  next
    case False
    with that have "sv_find_char path (CHR ''?'') 0 = None" by (simp add: sv_find_char_None)
    with False show ?thesis by simp
  qed
  let ?p = "if path = ''/'' then ''/index.html'' else path"
  let ?segs = "filter (\<lambda>s. s \<noteq> []) (split_on (CHR ''/'') (tl ?p))"
  have seg: "segments ?p (CHR ''/'') 1 = split_on (CHR ''/'') (tl ?p)" if "path \<noteq> []"
  proof -
    have "1 \<le> length ?p" using that by (cases path) simp_all
    from segments_split_on [OF this, of "CHR ''/''"] show ?thesis by (simp add: drop_Suc)
  qed
  have ok: "\<not> list_ex bad_segment ?segs \<longleftrightarrow>
      list_all (\<lambda>s. s \<noteq> ''.'' \<and> s \<noteq> ''..'' \<and> CHR 0x00 \<notin> set s \<and> CHR ''/'' \<notin> set s) ?segs"
    using split_on_parts [of _ "CHR ''/''" "tl ?p"] by (auto simp: list_ex_iff list_all_iff bad_segment_def)
  show ?thesis
  proof (cases "path \<noteq> [] \<and> hd path = CHR ''/''")
    case True
    then have "path ! 0 = CHR ''/''" by (cases path) simp_all
    with True have "map_to_relative_path (path @ (if q then CHR ''?'' # query else [])) =
        (if list_ex bad_segment ?segs then None else if ?segs = [] then None else Some ?segs)"
      unfolding map_to_relative_path_def cut Let_def relative_loop_segments using seg by simp
    with True ok show ?thesis by (auto split: if_splits)
  next
    case False
    then have "map_to_relative_path (path @ (if q then CHR ''?'' # query else [])) = None"
      unfolding map_to_relative_path_def cut Let_def by (cases path) auto
    with False show ?thesis by auto
  qed
qed

theorem map_to_relative_path_segments_witness:
  "map_to_relative_path (''/a//b.txt'' @ (if True then CHR ''?'' # ''x=../..'' else [])) = Some [''a'', ''b.txt'']"
proof -
  have "CHR ''?'' \<notin> set ''/a//b.txt''" by simp
  from map_to_relative_path_segments [OF this, of True "''x=../..''" "[''a'', ''b.txt'']"] show ?thesis by simp
qed


section \<open>Containment\<close>

lemma resolve_under_root_within:
  "resolve_under_root fs root rel = Some p \<Longrightarrow>
     fs_canonical fs (root @ rel) = Some p \<and> (\<exists>rest. p = root @ rest) \<and> root \<noteq> []"
  by (auto simp: resolve_under_root_def is_within_root_prefix split: if_splits option.splits)

lemma error_statuses [simp]:
  "status not_found = 404" "status (text_response s r b) = s"
  by (simp_all add: not_found_def text_response_def)

lemma static_files_inside:
  assumes "static_files_handle fs root req = Inr resp"
  shows "status resp \<in> {404, 405, 413} \<or>
         (\<exists>rel rest n. map_to_relative_path (target req) = Some rel \<and>
            fs_canonical fs (root @ rel) = Some (root @ rest) \<and>
            fs_entry fs (root @ rest) = Some (True, Inr n) \<and> n \<le> max_file_bytes \<and>
            status resp = 200 \<and> content_length resp = Some n \<and>
            (if req_method req = ''GET''
             then \<exists>bytes. fs_open fs (root @ rest) = Some bytes \<and> body resp = take n bytes \<and> length (body resp) = n
             else req_method req = ''HEAD'' \<and> body resp = []))"
proof (cases "status resp \<in> {404, 405, 413}")
  case False
  let ?get = "req_method req = ''GET''"
  have m: "req_method req = ''HEAD'' \<or> ?get" "serve_file fs root (target req) ?get = Inr resp"
    using assms False by (auto simp: static_files_handle_def Let_def split: if_splits)
  from m(2) False obtain rel where rel: "map_to_relative_path (target req) = Some rel"
    by (auto simp: serve_file_def split: option.splits)
  from m(2) False rel obtain p where p: "resolve_under_root fs root rel = Some p"
    by (auto simp: serve_file_def split: option.splits)
  from m(2) False rel p obtain sized where e: "fs_entry fs p = Some (True, sized)"
    by (auto simp: serve_file_def split: option.splits if_splits)
  from m(2) False rel p e obtain n where n: "sized = Inr n" "n \<le> max_file_bytes"
    by (cases sized) (auto simp: serve_file_def split: if_splits)
  note base = rel p e n
  have resp: "status resp = 200 \<and> content_length resp = Some n \<and>
      (if ?get then \<exists>bytes. fs_open fs p = Some bytes \<and> body resp = take n bytes \<and> length (body resp) = n
       else body resp = [])"
    using m(2) False base
    by (auto simp: serve_file_def Let_def read_file_bytes_def empty_response_def
        split: if_splits option.splits)
  from resolve_under_root_within [OF p] obtain rest where r: "fs_canonical fs (root @ rel) = Some p" "p = root @ rest"
    by blast
  show ?thesis
    using base r m(1) resp by (intro disjI2 exI [of _ rel] exI [of _ rest] exI [of _ n]) auto
qed simp

text \<open>
  C6 (safety). A 200 answer of the static-file service always carries a regular file inside
  its root: the target maps to a relative path whose canonical form (symbolic links
  resolved) is the root followed by further components, the file has at most 8 MiB, the
  announced length is its size, a GET carries exactly that many bytes read from it and a
  HEAD no body. Every other answer is a 404, 405 or 413 message.
\<close>

theorem static_files_contained:
  assumes "static_files_handle fs root req = Inr resp"
  shows "status resp \<in> {404, 405, 413} \<or>
         (\<exists>rel rest n. map_to_relative_path (target req) = Some rel \<and>
            fs_canonical fs (root @ rel) = Some (root @ rest) \<and>
            fs_entry fs (root @ rest) = Some (True, Inr n) \<and> n \<le> max_file_bytes \<and>
            status resp = 200 \<and> content_length resp = Some n \<and>
            (if req_method req = ''GET''
             then \<exists>bytes. fs_open fs (root @ rest) = Some bytes \<and> body resp = take n bytes \<and> length (body resp) = n
             else req_method req = ''HEAD'' \<and> body resp = []))"
  by (rule static_files_inside [OF assms])

text \<open>A file system with one document and a link that leaves the root.\<close>

definition sample_fs :: file_system where
  "sample_fs =
     \<lparr>fs_absolute = Some, fs_weakly_canonical = (\<lambda>_. Some [''/'', ''www'']),
      fs_canonical = (\<lambda>p. if p = [''/'', ''www'', ''link''] then Some [''/'', ''etc'', ''passwd''] else Some p),
      fs_is_directory = (\<lambda>p. p = [''/'', ''www'']),
      fs_entry = (\<lambda>p. if p = [''/'', ''www'', ''a.txt''] then Some (True, Inr 5)
                      else if p = [''/'', ''etc'', ''passwd''] then Some (True, Inr 4) else None),
      fs_open = (\<lambda>p. if p = [''/'', ''www'', ''a.txt''] then Some ''hello''
                     else if p = [''/'', ''etc'', ''passwd''] then Some ''root'' else None)\<rparr>"

theorem static_files_contained_witness:
  "\<exists>resp. static_files_handle sample_fs [''/'', ''www''] (sample_request\<lparr>target := ''/a.txt''\<rparr>) = Inr resp \<and>
     body resp = ''hello'' \<and>
     (status resp \<in> {404, 405, 413} \<or>
      (\<exists>rest. fs_canonical sample_fs ([''/'', ''www''] @ [''a.txt'']) = Some ([''/'', ''www''] @ rest)))"
proof -
  let ?r = "empty_response\<lparr>content_type := ''text/plain; charset=utf-8'', content_length := Some 5, body := ''hello''\<rparr>"
  have m: "map_to_relative_path (target (sample_request\<lparr>target := ''/a.txt''\<rparr>)) = Some [''a.txt'']" by code_simp
  have g: "guess_content_type [''/'', ''www'', ''a.txt''] = ''text/plain; charset=utf-8''" by code_simp
  have q: "req_method (sample_request\<lparr>target := ''/a.txt''\<rparr>) = ''GET''" by code_simp
  have h: "static_files_handle sample_fs [''/'', ''www''] (sample_request\<lparr>target := ''/a.txt''\<rparr>) = Inr ?r"
    unfolding static_files_handle_def Let_def serve_file_def m q
    by (simp add: resolve_under_root_def sample_fs_def read_file_bytes_def max_file_bytes_def g empty_response_def)
  have "status ?r \<in> {404, 405, 413} \<or>
      (\<exists>rest. fs_canonical sample_fs ([''/'', ''www''] @ [''a.txt'']) = Some ([''/'', ''www''] @ rest))"
    using static_files_contained [OF h] unfolding m by blast
  then show ?thesis using h by (intro exI [of _ ?r]) simp
qed

text \<open>
  C31 (safety). Files outside the root are invisible: two file systems in which paths resolve
  alike and that differ only in entries and contents outside the root give the same
  answer to every request.
\<close>

theorem static_files_noninterference:
  assumes "fs_canonical fs = fs_canonical fs'"
    and "\<And>rest. fs_entry fs (root @ rest) = fs_entry fs' (root @ rest)"
    and "\<And>rest. fs_open fs (root @ rest) = fs_open fs' (root @ rest)"
  shows "static_files_handle fs root req = static_files_handle fs' root req"
proof -
  have "serve_file fs root tgt b = serve_file fs' root tgt b" for tgt b
  proof (cases "map_to_relative_path tgt")
    case None
    then show ?thesis by (simp add: serve_file_def)
  next
    case (Some rel)
    have eq: "resolve_under_root fs root rel = resolve_under_root fs' root rel"
      using assms(1) by (simp add: resolve_under_root_def)
    show ?thesis
    proof (cases "resolve_under_root fs' root rel")
      case None
      with Some eq show ?thesis by (simp add: serve_file_def)
    next
      case p: (Some p)
      then obtain rest where "p = root @ rest" using resolve_under_root_within by blast
      then have "fs_entry fs p = fs_entry fs' p" "read_file_bytes fs p = read_file_bytes fs' p"
        using assms(2,3) by (simp_all add: read_file_bytes_def fun_eq_iff)
      then show ?thesis unfolding serve_file_def using Some eq p by (simp only: option.case)
    qed
  qed
  then show ?thesis by (simp add: static_files_handle_def Let_def)
qed

theorem static_files_noninterference_witness:
  "static_files_handle sample_fs [''/'', ''www''] (sample_request\<lparr>target := ''/link''\<rparr>) =
   static_files_handle (sample_fs\<lparr>fs_entry := (fs_entry sample_fs)([''/'', ''etc'', ''passwd''] := None),
                                  fs_open := (fs_open sample_fs)([''/'', ''etc'', ''passwd''] := Some ''secret'')\<rparr>)
     [''/'', ''www''] (sample_request\<lparr>target := ''/link''\<rparr>)"
  by (rule static_files_noninterference) simp_all

text \<open>
  A HEAD request for a missing file is answered with the full 404 message,
  body included; such bytes after a HEAD response are taken by the client for the next
  response on the connection.
\<close>

theorem head_not_found_has_body:
  "map_to_relative_path (target req) = None \<Longrightarrow> req_method req = ''HEAD'' \<Longrightarrow>
     static_files_handle fs root req = Inr not_found \<and> body not_found = ''not found'' @ [LF]"
  by (simp add: static_files_handle_def serve_file_def not_found_def text_response_def)

theorem head_not_found_has_body_witness:
  "static_files_handle sample_fs [''/'', ''www''] (sample_request\<lparr>req_method := ''HEAD'', target := ''/..''\<rparr>) =
     Inr not_found \<and> body not_found \<noteq> []"
proof -
  have "map_to_relative_path (target (sample_request\<lparr>req_method := ''HEAD'', target := ''/..''\<rparr>)) = None"
    by code_simp
  from head_not_found_has_body [OF this, of sample_fs "[''/'', ''www'']"] show ?thesis by simp
qed

end
