(* ===== verification/Jwt_Auth.thy ===== *)
theory Jwt_Auth
  imports Host_Guard
begin

text \<open>
  The JWT module (\<^verbatim>\<open>src/lib/jwt_auth/jwt_auth_module.cpp\<close>): bearer tokens signed with
  HMAC-SHA256. OpenSSL's \<^verbatim>\<open>HMAC\<close> is a parameter (\<open>None\<close> is a null result), the system time an
  argument. The decoder's accumulator is a 32-bit \<^verbatim>\<open>int\<close> whose shifts wrap around.
\<close>

section \<open>Rules and configuration\<close>

record auth_rule =
  au_method_pattern :: string
  au_target_pattern :: string
  au_target_kind :: pattern_kind

definition jwt_parse_rule_line :: "string \<Rightarrow> auth_rule result" where
  "jwt_parse_rule_line line =
     (let fields = jwt_split_fields (drop 5 line) (CHR ''|'') in
      throw_if (length fields \<noteq> 2) (Runtime_Error ''jwt_auth: rule requires 2 fields (method|target)'')
       (case jwt_classify_target_pattern (fields ! 1) of (kind, pat) \<Rightarrow>
        throw_if (fields ! 0 = []) (Runtime_Error ''jwt_auth: method pattern must not be empty'')
        (throw_if (pat = []) (Runtime_Error ''jwt_auth: target pattern must not be empty'')
          (Inr \<lparr>au_method_pattern = fields ! 0, au_target_pattern = pat, au_target_kind = kind\<rparr>))))"

definition jwt_parse_rules :: "string \<Rightarrow> auth_rule list result" where
  "jwt_parse_rules config_text = parse_selected jwt_is_rule_line jwt_parse_rule_line config_text"

record jwt_module =
  jw_secret :: string
  jw_alg :: string
  jw_issuer :: "string option"
  jw_audience :: "string option"
  jw_rules :: "auth_rule list"

definition nonempty_setting :: "string option \<Rightarrow> string option" where
  "nonempty_setting v = (if v = Some [] then None else v)"

definition jwt_create :: "string \<Rightarrow> jwt_module result" where
  "jwt_create config_text =
     bindE (jwt_parse_rules config_text) (\<lambda>rules.
     (case config_get config_text ''secret'' of
        None \<Rightarrow> Inl (Runtime_Error ''jwt_auth: secret must not be empty'')
      | Some secret \<Rightarrow>
          throw_if (secret = []) (Runtime_Error ''jwt_auth: secret must not be empty'')
            (let alg = (case config_get config_text ''alg'' of None \<Rightarrow> ''HS256'' | Some a \<Rightarrow> a) in
             throw_if (alg \<noteq> ''HS256'') (Runtime_Error ''jwt_auth: only alg=HS256 is supported'')
               (Inr \<lparr>jw_secret = secret, jw_alg = alg,
                     jw_issuer = nonempty_setting (config_get config_text ''issuer''),
                     jw_audience = nonempty_setting (config_get config_text ''audience''),
                     jw_rules = rules\<rparr>))))"

section \<open>Token parts\<close>

definition extract_bearer_token :: "string \<Rightarrow> string option" where
  "extract_bearer_token auth_value =
     (let v = jwt_trim auth_value in
      if v = [] then None
      else (case sv_find_char v SP 0 of
              None \<Rightarrow> None
            | Some sp \<Rightarrow>
                if jwt_ascii_lowercase (jwt_trim (sv_substr v 0 sp)) \<noteq> ''bearer'' then None
                else (let token = jwt_trim (drop (sp + 1) v) in if token = [] then None else Some token)))"

text \<open>The decoding table with \<open>-\<close> and \<open>_\<close> mapped to \<open>+\<close> and \<open>/\<close>; any other character is skipped.\<close>

definition b64_value :: "char \<Rightarrow> int option" where
  "b64_value c =
     (if in_range (CHR ''A'') (CHR ''Z'') c then Some (int (byte c) - 65)
      else if in_range (CHR ''a'') (CHR ''z'') c then Some (int (byte c) - 97 + 26)
      else if in_range (CHR ''0'') (CHR ''9'') c then Some (int (byte c) - 48 + 52)
      else if c = CHR ''-'' \<or> c = CHR ''+'' then Some 62
      else if c = CHR ''_'' \<or> c = CHR ''/'' then Some 63
      else None)"

text \<open>Conversion to a 32-bit signed integer.\<close>

definition to_int32 :: "int \<Rightarrow> int" where
  "to_int32 x = (x + 2 ^ 31) mod 2 ^ 32 - 2 ^ 31"

fun b64_loop :: "int \<Rightarrow> int \<Rightarrow> string \<Rightarrow> string" where
  "b64_loop val valb [] = []"
| "b64_loop val valb (c # cs) =
     (case b64_value c of
        None \<Rightarrow> b64_loop val valb cs
      | Some b \<Rightarrow>
          (let val' = to_int32 (to_int32 (val * 64) + b);
               valb' = valb + 6
           in if valb' \<ge> 0
              then char_of (nat (val' div 2 ^ nat valb' mod 256)) # b64_loop val' (valb' - 8) cs
              else b64_loop val' valb' cs))"

definition base64url_decode :: "string \<Rightarrow> string" where
  "base64url_decode s = b64_loop 0 (- 8) s"

section \<open>Claims\<close>

fun json_string_chars :: "bool \<Rightarrow> string \<Rightarrow> string" where
  "json_string_chars escape [] = []"
| "json_string_chars escape (c # cs) =
     (if escape then c # json_string_chars False cs
      else if c = CHR 0x5C then json_string_chars True cs
      else if c = CHR 0x22 then []
      else c # json_string_chars False cs)"

definition quoted :: "string \<Rightarrow> string" where
  "quoted s = [CHR 0x22] @ s @ [CHR 0x22]"

definition extract_json_string :: "string \<Rightarrow> string \<Rightarrow> string" where
  "extract_json_string payload claim =
     (let search = quoted claim @ '':'' @ [CHR 0x22];
          search2 = quoted claim @ '': '' @ [CHR 0x22]
      in case sv_find payload search 0 of
           Some pos \<Rightarrow> json_string_chars False (drop (pos + length search) payload)
         | None \<Rightarrow>
             (case sv_find payload search2 0 of
                Some pos \<Rightarrow> json_string_chars False (drop (pos + length search2) payload)
              | None \<Rightarrow> []))"

text \<open>The digit loop on a \<^verbatim>\<open>long long\<close>\<close>

fun json_digits :: "int \<Rightarrow> bool \<Rightarrow> string \<Rightarrow> (int \<times> bool) result" where
  "json_digits v seen [] = Inr (v, seen)"
| "json_digits v seen (c # cs) =
     (if is_digit c then
        (let v' = v * 10 + int (digit_value c)
         in if v' \<ge> 2 ^ 63 then Inl Signed_Overflow else json_digits v' True cs)
      else Inr (v, seen))"

definition extract_json_int :: "string \<Rightarrow> string \<Rightarrow> int result" where
  "extract_json_int payload claim =
     (let search = quoted claim @ '':'' in
      case sv_find payload search 0 of
        None \<Rightarrow> Inr 0
      | Some p \<Rightarrow>
          (let rest = dropWhile isspace (drop (p + length search) payload) in
           if rest = [] then Inr 0
           else (let neg = (hd rest = CHR ''-'');
                     digits = (if neg then tl rest else rest)
                 in bindE (json_digits 0 False digits) (\<lambda>(v, seen).
                      Inr (if \<not> seen then 0 else if neg then - v else v)))))"

record jwt_claims =
  cl_sub :: string
  cl_roles :: string
  cl_iss :: string
  cl_aud :: string
  cl_exp :: int

definition extract_audience :: "string \<Rightarrow> string" where
  "extract_audience payload =
     (let aud = extract_json_string payload ''aud'' in
      if aud \<noteq> [] then aud
      else (case sv_find payload (quoted ''aud'' @ '':['') 0 of
              None \<Rightarrow> []
            | Some apos \<Rightarrow>
                (case sv_find_char payload (CHR 0x22) (apos + 7) of
                   None \<Rightarrow> []
                 | Some q1 \<Rightarrow>
                     (case sv_find_char payload (CHR 0x22) (q1 + 1) of
                        None \<Rightarrow> []
                      | Some q2 \<Rightarrow> sv_substr payload (q1 + 1) (q2 - q1 - 1)))))"

definition extract_roles :: "string \<Rightarrow> string" where
  "extract_roles payload =
     (let r = extract_json_string payload ''roles'' in
      if r = [] then extract_json_string payload ''role'' else r)"

text \<open>\<open>Inl\<close> of the inner sum is the failure text, \<open>Inr\<close> the claims.\<close>

type_synonym hmac = "string \<Rightarrow> string \<Rightarrow> string option"

definition names_hs256 :: "string \<Rightarrow> bool" where
  "names_hs256 header \<longleftrightarrow>
     sv_find header (quoted ''alg'' @ '':'' @ quoted ''HS256'') 0 \<noteq> None \<or>
     sv_find header (quoted ''alg'' @ '': '' @ quoted ''HS256'') 0 \<noteq> None"

definition check_claims ::
    "string option \<Rightarrow> string option \<Rightarrow> int \<Rightarrow> string \<Rightarrow> (string + jwt_claims) result" where
  "check_claims issuer audience now payload =
     bindE (extract_json_int payload ''exp'') (\<lambda>expiry.
       let claims = \<lparr>cl_sub = extract_json_string payload ''sub'', cl_roles = extract_roles payload,
                     cl_iss = extract_json_string payload ''iss'', cl_aud = extract_audience payload,
                     cl_exp = expiry\<rparr>
       in Inr (if issuer \<noteq> None \<and> issuer \<noteq> Some [] \<and> Some (cl_iss claims) \<noteq> issuer
               then Inl ''issuer mismatch''
               else if audience \<noteq> None \<and> audience \<noteq> Some [] \<and> Some (cl_aud claims) \<noteq> audience
               then Inl ''audience mismatch''
               else if cl_exp claims \<noteq> 0 \<and> cl_exp claims \<le> now then Inl ''expired''
               else Inr claims))"

definition validate_and_extract ::
    "hmac \<Rightarrow> string \<Rightarrow> string \<Rightarrow> string option \<Rightarrow> string option \<Rightarrow> int \<Rightarrow> (string + jwt_claims) result" where
  "validate_and_extract hmac token secret issuer audience now =
     (case sv_find_char token (CHR ''.'') 0 of
        None \<Rightarrow> Inr (Inl ''malformed'')
      | Some p1 \<Rightarrow>
          (case sv_find_char token (CHR ''.'') (p1 + 1) of
             None \<Rightarrow> Inr (Inl ''malformed'')
           | Some p2 \<Rightarrow>
               if sv_find_char token (CHR ''.'') (p2 + 1) \<noteq> None then Inr (Inl ''malformed'')
               else
                 (let h64 = sv_substr token 0 p1;
                      p64 = sv_substr token (p1 + 1) (p2 - p1 - 1);
                      s64 = drop (p2 + 1) token
                  in if h64 = [] \<or> p64 = [] \<or> s64 = [] then Inr (Inl ''malformed'')
                     else if \<not> names_hs256 (base64url_decode h64) then Inr (Inl ''malformed'')
                     else (case hmac secret (h64 @ ''.'' @ p64) of
                             None \<Rightarrow> Inr (Inl ''bad signature'')
                           | Some mac \<Rightarrow>
                               if mac \<noteq> base64url_decode s64 then Inr (Inl ''bad signature'')
                               else check_claims issuer audience now (base64url_decode p64)))))"

section \<open>The module\<close>

definition make_unauthorized :: "string \<Rightarrow> response" where
  "make_unauthorized b = text_response 401 ''Unauthorized'' b"

text \<open>This copy of \<^verbatim>\<open>target_matches\<close> tests the size before it takes the prefix.\<close>

fun jwt_target_matches :: "pattern_kind \<Rightarrow> string \<Rightarrow> string \<Rightarrow> bool" where
  "jwt_target_matches Exact_pattern pat actual = (pat = actual)"
| "jwt_target_matches Prefix_pattern pat actual = (length pat \<le> length actual \<and> sv_substr actual 0 (length pat) = pat)"

lemma jwt_target_matches_eq [simp]: "jwt_target_matches = target_matches"
proof (intro ext)
  fix k pat actual
  show "jwt_target_matches k pat actual = target_matches k pat actual"
    using target_matches_prefix [of pat actual] by (cases k) auto
qed

definition jwt_enforced :: "jwt_module \<Rightarrow> request \<Rightarrow> bool" where
  "jwt_enforced m req \<longleftrightarrow> jw_rules m = [] \<or>
     list_ex (\<lambda>rule. jwt_method_matches (au_method_pattern rule) (req_method req) \<and>
                jwt_target_matches (au_target_kind rule) (au_target_pattern rule) (target req)) (jw_rules m)"

definition add_claim :: "string \<Rightarrow> string \<Rightarrow> mod_result \<Rightarrow> mod_result" where
  "add_claim name v res = (if v \<noteq> [] then res_add_response_header name v res else res)"

definition jwt_handle :: "hmac \<Rightarrow> int \<Rightarrow> jwt_module \<Rightarrow> request \<Rightarrow> mod_result result" where
  "jwt_handle hmac now m req =
     (if \<not> jwt_enforced m req then Inr res_pass
      else (case Option.bind (header_value req ''Authorization'') extract_bearer_token of
              None \<Rightarrow> Inr (res_respond (make_unauthorized (''missing token'' @ [LF])))
            | Some token \<Rightarrow>
                bindE (validate_and_extract hmac token (jw_secret m) (jw_issuer m) (jw_audience m) now)
                  (\<lambda>v. case v of
                         Inl failure \<Rightarrow> Inr (res_respond (make_unauthorized
                           (if failure = ''expired'' then ''token expired'' @ [LF] else ''invalid token'' @ [LF])))
                       | Inr claims \<Rightarrow>
                           Inr (add_claim ''X-Garcon-Claim-aud'' (cl_aud claims)
                               (add_claim ''X-Garcon-Claim-iss'' (cl_iss claims)
                               (add_claim ''X-Garcon-Roles'' (cl_roles claims)
                               (add_claim ''X-Garcon-User-Id'' (cl_sub claims) res_pass)))))))"

section \<open>Base64url\<close>

definition b64_char :: "nat \<Rightarrow> char" where
  "b64_char d =
     (if d < 26 then char_of (65 + d) else if d < 52 then char_of (97 + (d - 26))
      else if d < 62 then char_of (48 + (d - 52)) else if d = 62 then CHR ''-'' else CHR ''_'')"

fun base64url_encode :: "string \<Rightarrow> string" where
  "base64url_encode [] = []"
| "base64url_encode [a] = [b64_char (byte a div 4), b64_char (byte a mod 4 * 16)]"
| "base64url_encode [a, b] =
     [b64_char (byte a div 4), b64_char (byte a mod 4 * 16 + byte b div 16), b64_char (byte b mod 16 * 4)]"
| "base64url_encode (a # b # c # rest) =
     [b64_char (byte a div 4), b64_char (byte a mod 4 * 16 + byte b div 16),
      b64_char (byte b mod 16 * 4 + byte c div 64), b64_char (byte c mod 64)] @ base64url_encode rest"

lemma b64_value_char: "d < 64 \<Longrightarrow> b64_value (b64_char d) = Some (int d)"
proof -
  assume "d < 64"
  then consider "d < 26" | "26 \<le> d" "d < 52" | "52 \<le> d" "d < 62" | "d = 62" | "d = 63" by linarith
  then show ?thesis
  proof cases
    case 3
    then have "byte (b64_char d) = d - 4" by (simp add: b64_char_def of_char_of)
    moreover have "48 \<le> d - 4" "d - 4 \<le> 57" using 3 by linarith+
    ultimately show ?thesis using 3 by (simp add: b64_value_def in_range_def)
  qed (simp_all add: b64_char_def b64_value_def in_range_def of_char_of)
qed

text \<open>The accumulator may wrap: a byte only depends on bits that are still there.\<close>

lemma to_int32_wrap: "\<exists>q. to_int32 x = x + 4294967296 * q"
proof -
  have "(x + 2 ^ 31) mod 2 ^ 32 = x + 2 ^ 31 - 2 ^ 32 * ((x + 2 ^ 31) div 2 ^ 32)"
    by (simp add: minus_mult_div_eq_mod [symmetric])
  then show ?thesis by (intro exI [of _ "- ((x + 2 ^ 31) div 2 ^ 32)"]) (simp add: to_int32_def)
qed

definition b64_acc :: "int \<Rightarrow> int \<Rightarrow> int" where
  "b64_acc val b = to_int32 (to_int32 (val * 64) + b)"

lemma b64_acc_wrap: "\<exists>q. b64_acc val b = val * 64 + b + 4294967296 * q"
proof -
  obtain q1 where 1: "to_int32 (val * 64) = val * 64 + 4294967296 * q1" using to_int32_wrap by blast
  obtain q2 where 2: "to_int32 (to_int32 (val * 64) + b) = to_int32 (val * 64) + b + 4294967296 * q2"
    using to_int32_wrap by blast
  have "b64_acc val b = val * 64 + b + 4294967296 * (q1 + q2)"
    using 1 2 by (simp only: b64_acc_def) (simp add: algebra_simps)
  then show ?thesis by blast
qed

lemma b64_acc_low:
  "b64_acc val b mod 64 = b mod 64"
  "b64_acc val b mod 16 = b mod 16"
  "b64_acc val b mod 4 = b mod 4"
proof -
  obtain q where q: "b64_acc val b = val * 64 + b + 4294967296 * q" using b64_acc_wrap by blast
  have e: "b64_acc val b = b + 64 * (val + 67108864 * q)" using q by simp
  show "b64_acc val b mod 64 = b mod 64" unfolding e by (rule mod_mult_self2)
  have e: "b64_acc val b = b + 16 * (4 * val + 268435456 * q)" using q by simp
  show "b64_acc val b mod 16 = b mod 16" unfolding e by (rule mod_mult_self2)
  have e: "b64_acc val b = b + 4 * (16 * val + 1073741824 * q)" using q by simp
  show "b64_acc val b mod 4 = b mod 4" unfolding e by (rule mod_mult_self2)
qed

text \<open>A byte assembled from the remembered low part of the accumulator and the new digit.\<close>

lemma div_mod_parts:
  assumes "x = m + n * (256 * j)" and "(0::int) < n" and "0 \<le> m div n" and "m div n < 256"
  shows "x div n mod 256 = m div n"
proof -
  have "x div n = m div n + 256 * j" unfolding assms(1) using assms(2) by simp
  then have "x div n mod 256 = (m div n) mod 256" by (simp only: mod_mult_self2)
  with assms(3,4) show ?thesis by simp
qed

lemma b64_acc_byte:
  assumes "0 \<le> b" and "b < 64"
  shows "b64_acc val b div 16 mod 256 = (val mod 64) * 4 + b div 16"
    and "b64_acc val b div 4 mod 256 = (val mod 16) * 16 + b div 4"
    and "b64_acc val b mod 256 = (val mod 4) * 64 + b"
proof -
  obtain q where q: "b64_acc val b = val * 64 + b + 4294967296 * q" using b64_acc_wrap by blast
  have split: "\<exists>h r. val = r + n * h \<and> r = val mod n \<and> 0 \<le> r \<and> r < n" if "0 < n" for n
    using that by (intro exI [of _ "val div n"] exI [of _ "val mod n"]) simp
  have bd: "0 \<le> b div 16" "b div 16 < 4" "0 \<le> b div 4" "b div 4 < 16" using assms by simp_all
  obtain h r where 1: "val = r + 64 * h" "r = val mod 64" "0 \<le> r" "r < 64" using split [of 64] by auto
  have d: "(b + r * 4 * 16) div 16 = r * 4 + b div 16" by simp
  have "b64_acc val b = (b + r * 4 * 16) + 16 * (256 * (h + 1048576 * q))"
    using q 1(1) by simp
  then have "b64_acc val b div 16 mod 256 = (b + r * 4 * 16) div 16"
    by (rule div_mod_parts) (simp, use d bd 1(3,4) in linarith)+
  then show "b64_acc val b div 16 mod 256 = (val mod 64) * 4 + b div 16" using d 1(2) by simp
  obtain h r where 2: "val = r + 16 * h" "r = val mod 16" "0 \<le> r" "r < 16" using split [of 16] by auto
  have d: "(b + r * 16 * 4) div 4 = r * 16 + b div 4" by simp
  have "b64_acc val b = (b + r * 16 * 4) + 4 * (256 * (h + 4194304 * q))"
    using q 2(1) by simp
  then have "b64_acc val b div 4 mod 256 = (b + r * 16 * 4) div 4"
    by (rule div_mod_parts) (simp, use d bd 2(3,4) in linarith)+
  then show "b64_acc val b div 4 mod 256 = (val mod 16) * 16 + b div 4" using d 2(2) by simp
  obtain h r where 3: "val = r + 4 * h" "r = val mod 4" "0 \<le> r" "r < 4" using split [of 4] by auto
  have "b64_acc val b = (b + r * 64) + 1 * (256 * (h + 16777216 * q))"
    using q 3(1) by simp
  then have "b64_acc val b div 1 mod 256 = (b + r * 64) div 1"
    by (rule div_mod_parts) (use assms 3(3,4) in simp_all)
  then show "b64_acc val b mod 256 = (val mod 4) * 64 + b" using 3(2) by simp
qed

lemma b64_loop_step:
  "d < 64 \<Longrightarrow>
     b64_loop val valb (b64_char d # cs) =
       (if valb + 6 \<ge> 0
        then char_of (nat (b64_acc val (int d) div 2 ^ nat (valb + 6) mod 256)) # b64_loop (b64_acc val (int d)) (valb - 2) cs
        else b64_loop (b64_acc val (int d)) (valb + 6) cs)"
  by (simp add: b64_value_char b64_acc_def Let_def)


lemma b64_bytes:
  assumes "d1 < 64" and "d2 < 64"
  shows "nat (b64_acc (b64_acc v (int d1)) (int d2) div 16 mod 256) = d1 * 4 + d2 div 16"
    and "nat (b64_acc (b64_acc v (int d1)) (int d2) div 4 mod 256) = (d1 mod 16) * 16 + d2 div 4"
    and "nat (b64_acc (b64_acc v (int d1)) (int d2) mod 256) = (d1 mod 4) * 64 + d2"
proof -
  note byte = b64_acc_byte [of "int d2" "b64_acc v (int d1)"]
  have "b64_acc (b64_acc v (int d1)) (int d2) div 16 mod 256 = int (d1 * 4 + d2 div 16)"
    using byte(1) assms b64_acc_low(1) [of v "int d1"] by (simp add: zdiv_int)
  then show "nat (b64_acc (b64_acc v (int d1)) (int d2) div 16 mod 256) = d1 * 4 + d2 div 16"
    by (simp only: nat_int)
  have "b64_acc (b64_acc v (int d1)) (int d2) div 4 mod 256 = int ((d1 mod 16) * 16 + d2 div 4)"
    using byte(2) assms b64_acc_low(2) [of v "int d1"] by (simp add: zdiv_int zmod_int)
  then show "nat (b64_acc (b64_acc v (int d1)) (int d2) div 4 mod 256) = (d1 mod 16) * 16 + d2 div 4"
    by (simp only: nat_int)
  have "b64_acc (b64_acc v (int d1)) (int d2) mod 256 = int ((d1 mod 4) * 64 + d2)"
    using byte(3) assms b64_acc_low(3) [of v "int d1"] by (simp add: zmod_int)
  then show "nat (b64_acc (b64_acc v (int d1)) (int d2) mod 256) = (d1 mod 4) * 64 + d2"
    by (simp only: nat_int)
qed

lemma b64_loop_12:
  "d1 < 64 \<Longrightarrow> d2 < 64 \<Longrightarrow>
     b64_loop v (- 8) (b64_char d1 # b64_char d2 # cs) =
       char_of (d1 * 4 + d2 div 16) # b64_loop (b64_acc (b64_acc v (int d1)) (int d2)) (- 4) cs"
  using b64_bytes(1) [of d1 d2 v] by (simp add: b64_loop_step del: b64_loop.simps)

lemma b64_loop_3:
  "d2 < 64 \<Longrightarrow> d3 < 64 \<Longrightarrow>
     b64_loop (b64_acc v (int d2)) (- 4) (b64_char d3 # cs) =
       char_of ((d2 mod 16) * 16 + d3 div 4) # b64_loop (b64_acc (b64_acc v (int d2)) (int d3)) (- 6) cs"
  using b64_bytes(2) [of d2 d3 v] by (simp add: b64_loop_step del: b64_loop.simps)

lemma b64_loop_4:
  "d3 < 64 \<Longrightarrow> d4 < 64 \<Longrightarrow>
     b64_loop (b64_acc v (int d3)) (- 6) (b64_char d4 # cs) =
       char_of ((d3 mod 4) * 64 + d4) # b64_loop (b64_acc (b64_acc v (int d3)) (int d4)) (- 8) cs"
  using b64_bytes(3) [of d3 d4 v] by (simp add: b64_loop_step del: b64_loop.simps)

lemma b64_digits:
  fixes a b c :: nat
  assumes "a < 256" and "b < 256" and "c < 256"
  shows "a div 4 < 64" "a mod 4 * 16 < 64" "a mod 4 * 16 + b div 16 < 64" "b mod 16 * 4 < 64"
    "b mod 16 * 4 + c div 64 < 64" "c mod 64 < 64"
    "a div 4 * 4 + a mod 4 * 16 div 16 = a" "a div 4 * 4 + (a mod 4 * 16 + b div 16) div 16 = a"
    "(a mod 4 * 16 + b div 16) mod 16 * 16 + b mod 16 * 4 div 4 = b"
    "(a mod 4 * 16 + b div 16) mod 16 * 16 + (b mod 16 * 4 + c div 64) div 4 = b"
    "(b mod 16 * 4 + c div 64) mod 4 * 64 + c mod 64 = c"
proof -
  have q: "b div 16 < 16" "c div 64 < 4" using assms by linarith+
  show "a div 4 < 64" using assms by linarith
  show "a mod 4 * 16 < 64" by simp
  have am: "a mod 4 < 4" "b mod 16 < 16" by simp_all
  show "a mod 4 * 16 + b div 16 < 64" using am(1) q(1) by linarith
  show "b mod 16 * 4 < 64" by simp
  show "b mod 16 * 4 + c div 64 < 64" using am(2) q(2) by linarith
  show "c mod 64 < 64" by simp
  show "a div 4 * 4 + a mod 4 * 16 div 16 = a" by simp
  show "a div 4 * 4 + (a mod 4 * 16 + b div 16) div 16 = a" using q(1) by simp
  show "(a mod 4 * 16 + b div 16) mod 16 * 16 + b mod 16 * 4 div 4 = b" using q(1) by simp
  show "(a mod 4 * 16 + b div 16) mod 16 * 16 + (b mod 16 * 4 + c div 64) div 4 = b" using q by simp
  show "(b mod 16 * 4 + c div 64) mod 4 * 64 + c mod 64 = c" using q(2) by simp
qed

lemma b64_loop_encode: "b64_loop v (- 8) (base64url_encode bs) = bs"
proof (induction bs arbitrary: v rule: base64url_encode.induct)
  case 1
  then show ?case by simp
next
  case (2 a)
  note d = b64_digits [of "byte a" "byte a" "byte a", OF byte_less_256 byte_less_256 byte_less_256]
  show ?case using d by (simp only: base64url_encode.simps b64_loop_12) simp
next
  case (3 a b)
  note d = b64_digits [of "byte a" "byte b" "byte b", OF byte_less_256 byte_less_256 byte_less_256]
  show ?case using d by (simp only: base64url_encode.simps b64_loop_12 b64_loop_3) simp
next
  case (4 a b c rest)
  note d = b64_digits [of "byte a" "byte b" "byte c", OF byte_less_256 byte_less_256 byte_less_256]
  show ?case using d "4.IH"
    by (simp only: base64url_encode.simps append.simps b64_loop_12 b64_loop_3 b64_loop_4) simp
qed

text \<open>
  The decoder inverts base64url encoding for byte strings of any length,
  although its 32-bit accumulator is never masked and wraps around after a few digits.
\<close>

theorem base64url_roundtrip: "base64url_decode (base64url_encode bs) = bs"
  unfolding base64url_decode_def by (rule b64_loop_encode)

section \<open>Only signed tokens pass\<close>

definition bearer_token :: "request \<Rightarrow> string option" where
  "bearer_token req = Option.bind (header_value req ''Authorization'') extract_bearer_token"

lemma mr_next_claims [simp]: "mr_next (add_claim n v res) = mr_next res"
  by (simp add: add_claim_def res_add_response_header_def)

lemma mr_next_simps [simp]: "mr_next (res_respond r) = Out_respond" "mr_next res_pass = Out_pass"
  by (simp_all add: res_respond_def res_pass_def)

lemma check_claims_accepts:
  "check_claims issuer audience now payload = Inr (Inr claims) \<Longrightarrow>
     extract_json_int payload ''exp'' = Inr (cl_exp claims) \<and>
     cl_iss claims = extract_json_string payload ''iss'' \<and> cl_aud claims = extract_audience payload \<and>
     (cl_exp claims = 0 \<or> now < cl_exp claims) \<and> issuer \<in> {None, Some [], Some (cl_iss claims)} \<and>
     audience \<in> {None, Some [], Some (cl_aud claims)}"
  by (auto simp: check_claims_def outcome_simps Let_def split: if_splits)

text \<open>Validation fails before the claims are looked at, or the token is signed and its claims decide.\<close>

lemma validate_cases:
  obtains (refused) failure where "validate_and_extract hmac token secret issuer audience now = Inr (Inl failure)"
    and "failure \<noteq> ''expired''"
  | (signed) h64 p64 s64 where "token = h64 @ ''.'' @ p64 @ ''.'' @ s64" and "CHR ''.'' \<notin> set (h64 @ p64 @ s64)"
    and "hmac secret (h64 @ ''.'' @ p64) = Some (base64url_decode s64)" and "names_hs256 (base64url_decode h64)"
    and "validate_and_extract hmac token secret issuer audience now = check_claims issuer audience now (base64url_decode p64)"
proof (cases "\<exists>p1 p2. sv_find_char token (CHR ''.'') 0 = Some p1 \<and> sv_find_char token (CHR ''.'') (p1 + 1) = Some p2 \<and>
    sv_find_char token (CHR ''.'') (p2 + 1) = None")
  case False
  then have "validate_and_extract hmac token secret issuer audience now = Inr (Inl ''malformed'')"
    by (auto simp: validate_and_extract_def split: option.splits)
  with refused show thesis by simp
next
  case True
  then obtain p1 p2 where p: "sv_find_char token (CHR ''.'') 0 = Some p1" "sv_find_char token (CHR ''.'') (p1 + 1) = Some p2"
    "sv_find_char token (CHR ''.'') (p2 + 1) = None" by blast
  let ?h = "sv_substr token 0 p1" and ?p = "sv_substr token (p1 + 1) (p2 - p1 - 1)" and ?s = "drop (p2 + 1) token"
  have s: "token = ?h @ CHR ''.'' # drop (p1 + 1) token" "CHR ''.'' \<notin> set ?h"
      "drop (p1 + 1) token = ?p @ CHR ''.'' # ?s" "CHR ''.'' \<notin> set ?p"
    using sv_find_char_split [OF p(1)] sv_find_char_split [OF p(2)] by simp_all
  have t: "token = ?h @ ''.'' @ ?p @ ''.'' @ ?s" using s(1,3) by simp
  have dots: "CHR ''.'' \<notin> set (?h @ ?p @ ?s)" using s(2,4) p(3) by (simp add: sv_find_char_None)
  show thesis
  proof (cases "?h \<noteq> [] \<and> ?p \<noteq> [] \<and> ?s \<noteq> [] \<and> names_hs256 (base64url_decode ?h) \<and>
      hmac secret (?h @ ''.'' @ ?p) = Some (base64url_decode ?s)")
    case True
    with p have "validate_and_extract hmac token secret issuer audience now =
        check_claims issuer audience now (base64url_decode ?p)" by (simp add: validate_and_extract_def Let_def)
    from signed [OF t dots _ _ this] True show thesis by blast
  next
    case False
    with p have "validate_and_extract hmac token secret issuer audience now = Inr (Inl ''malformed'') \<or>
        validate_and_extract hmac token secret issuer audience now = Inr (Inl ''bad signature'')"
      by (auto simp: validate_and_extract_def Let_def split: option.splits)
    with refused show thesis by auto
  qed
qed

lemma validate_accepts:
  assumes "validate_and_extract hmac token secret issuer audience now = Inr (Inr claims)"
  shows "\<exists>h64 p64 s64. token = h64 @ ''.'' @ p64 @ ''.'' @ s64 \<and> CHR ''.'' \<notin> set (h64 @ p64 @ s64) \<and>
     hmac secret (h64 @ ''.'' @ p64) = Some (base64url_decode s64) \<and> names_hs256 (base64url_decode h64) \<and>
     check_claims issuer audience now (base64url_decode p64) = Inr (Inr claims)"
proof (cases rule: validate_cases [of hmac token secret issuer audience now])
  case (signed h64 p64 s64)
  with assms show ?thesis by metis
qed (use assms in simp)

text \<open>A request whose bearer token carries the HMAC of its first two parts.\<close>

definition signed_request :: "hmac \<Rightarrow> jwt_module \<Rightarrow> request \<Rightarrow> bool" where
  "signed_request hmac m req \<longleftrightarrow>
     (\<exists>h64 p64 s64. bearer_token req = Some (h64 @ ''.'' @ p64 @ ''.'' @ s64) \<and>
        hmac (jw_secret m) (h64 @ ''.'' @ p64) = Some (base64url_decode s64))"

definition unsigned_answer :: "request \<Rightarrow> response" where
  "unsigned_answer req =
     make_unauthorized ((if bearer_token req = None then ''missing token'' else ''invalid token'') @ [LF])"

lemma jwt_refuses_unsigned:
  assumes "jwt_enforced m req" and "\<not> signed_request hmac m req"
  shows "jwt_handle hmac now m req = Inr (res_respond (unsigned_answer req))"
proof (cases "bearer_token req")
  case None
  with assms(1) show ?thesis by (simp add: jwt_handle_def unsigned_answer_def bearer_token_def)
next
  case (Some token)
  show ?thesis
  proof (cases rule: validate_cases [of hmac token "jw_secret m" "jw_issuer m" "jw_audience m" now])
    case (refused failure)
    with Some assms(1) show ?thesis by (simp add: jwt_handle_def unsigned_answer_def bearer_token_def)
  next
    case (signed h64 p64 s64)
    with Some assms(2) show ?thesis unfolding signed_request_def by metis
  qed
qed

text \<open>
  C7 (safety). For a request in scope the JWT module passes only if the request carries a
  bearer token of three dot-separated parts whose decoded third part is the HMAC of the
  first two under the configured secret, whose header names HS256, which is not expired
  at the time of the call (a missing or zero \<^verbatim>\<open>exp\<close> means no expiry), and whose issuer and
  audience are the configured ones; this holds for every HMAC function.
\<close>

theorem jwt_passes_only_signed:
  assumes "jwt_handle hmac now m req = Inr res" and "mr_next res = Out_pass" and "jwt_enforced m req"
  shows "\<exists>h64 p64 s64 expiry. bearer_token req = Some (h64 @ ''.'' @ p64 @ ''.'' @ s64) \<and>
           hmac (jw_secret m) (h64 @ ''.'' @ p64) = Some (base64url_decode s64) \<and>
           names_hs256 (base64url_decode h64) \<and>
           extract_json_int (base64url_decode p64) ''exp'' = Inr expiry \<and> (expiry = 0 \<or> now < expiry) \<and>
           jw_issuer m \<in> {None, Some [], Some (extract_json_string (base64url_decode p64) ''iss'')} \<and>
           jw_audience m \<in> {None, Some [], Some (extract_audience (base64url_decode p64))}"
proof -
  obtain token where t: "bearer_token req = Some token"
    using assms by (cases "bearer_token req") (auto simp: jwt_handle_def bearer_token_def)
  with assms(1,3) obtain x where
    x: "validate_and_extract hmac token (jw_secret m) (jw_issuer m) (jw_audience m) now = Inr x"
    by (auto simp: jwt_handle_def bearer_token_def outcome_simps)
  with t assms obtain claims where "x = Inr claims"
    by (cases x) (auto simp: jwt_handle_def bearer_token_def)
  with x have v: "validate_and_extract hmac token (jw_secret m) (jw_issuer m) (jw_audience m) now = Inr (Inr claims)"
    by simp
  from validate_accepts [OF v] obtain h64 p64 s64 where
    p: "token = h64 @ ''.'' @ p64 @ ''.'' @ s64" "hmac (jw_secret m) (h64 @ ''.'' @ p64) = Some (base64url_decode s64)"
      "names_hs256 (base64url_decode h64)"
      "check_claims (jw_issuer m) (jw_audience m) now (base64url_decode p64) = Inr (Inr claims)" by blast
  let ?p = "base64url_decode p64"
  have "bearer_token req = Some (h64 @ ''.'' @ p64 @ ''.'' @ s64)" using t p(1) by simp
  moreover have "extract_json_int ?p ''exp'' = Inr (cl_exp claims)" "cl_exp claims = 0 \<or> now < cl_exp claims"
    "jw_issuer m \<in> {None, Some [], Some (extract_json_string ?p ''iss'')}"
    "jw_audience m \<in> {None, Some [], Some (extract_audience ?p)}"
    using check_claims_accepts [OF p(4)] by auto
  ultimately show ?thesis using p(2,3) by blast
qed

definition issue_token :: "hmac \<Rightarrow> string \<Rightarrow> string \<Rightarrow> string \<Rightarrow> string option" where
  "issue_token hmac secret header payload =
     (let signed = base64url_encode header @ ''.'' @ base64url_encode payload
      in map_option (\<lambda>mac. signed @ ''.'' @ base64url_encode mac) (hmac secret signed))"

text \<open>A stand-in for HMAC with the shape of a tag: secret, length of the message, fixed suffix.\<close>

definition toy_mac :: hmac where
  "toy_mac secret msg = Some (take 4 secret @ [char_of (length msg)] @ ''tag'')"

definition sample_jwt :: jwt_module where
  "sample_jwt = \<lparr>jw_secret = ''0123'', jw_alg = ''HS256'', jw_issuer = Some ''garcon'', jw_audience = None, jw_rules = []\<rparr>"

definition sample_jose :: string where
  "sample_jose = ''{'' @ quoted ''alg'' @ '':'' @ quoted ''HS256'' @ ''}''"

definition sample_payload :: string where
  "sample_payload = ''{'' @ quoted ''iss'' @ '':'' @ quoted ''garcon'' @ '','' @ quoted ''exp'' @ '':99}''"

definition sample_token :: string where
  "sample_token = the (issue_token toy_mac ''0123'' sample_jose sample_payload)"

definition sample_jwt_request :: request where
  "sample_jwt_request =
     sample_request\<lparr>req_headers := [\<lparr>hname = ''Authorization'', hvalue = ''Bearer '' @ sample_token\<rparr>]\<rparr>"

theorem jwt_passes_only_signed_witness:
  "jwt_enforced sample_jwt sample_jwt_request \<and>
   (\<exists>h64 p64 s64. bearer_token sample_jwt_request = Some (h64 @ ''.'' @ p64 @ ''.'' @ s64) \<and>
      toy_mac ''0123'' (h64 @ ''.'' @ p64) = Some (base64url_decode s64))"
proof -
  let ?res = "\<lparr>mr_next = Out_pass, mr_response_value = None,
               mr_response_headers = [\<lparr>hname = ''X-Garcon-Claim-iss'', hvalue = ''garcon''\<rparr>]\<rparr>"
  have h: "jwt_handle toy_mac 50 sample_jwt sample_jwt_request = Inr ?res" by code_simp
  have n: "mr_next ?res = Out_pass" by simp
  have e: "jwt_enforced sample_jwt sample_jwt_request" by code_simp
  have s: "jw_secret sample_jwt = ''0123''" by (simp add: sample_jwt_def)
  from jwt_passes_only_signed [OF h n e] e show ?thesis unfolding s by blast
qed

section \<open>Issued tokens are accepted\<close>

lemma b64_char_not_dot: "b64_char d \<noteq> CHR ''.''"
proof
  assume "b64_char d = CHR ''.''"
  then have "byte (b64_char d) = 46" by simp
  then show False by (auto simp: b64_char_def of_char_of split: if_splits)
qed

lemma encode_no_dot: "CHR ''.'' \<notin> set (base64url_encode bs)"
  by (induction bs rule: base64url_encode.induct) (simp_all add: b64_char_not_dot [symmetric])

lemma encode_empty: "base64url_encode bs = [] \<longleftrightarrow> bs = []"
  by (cases bs rule: base64url_encode.cases) simp_all

text \<open>
  C32 (roundtrip). A token issued for a header and a payload with the module's secret is
  accepted exactly when its claims are: validation recovers the payload and decides by
  issuer, audience and expiry alone.
\<close>

theorem jwt_issued_token_validates:
  assumes "issue_token hmac secret header payload = Some token" and "hmac secret = (\<lambda>x. Some (mac x))"
    and "\<And>x. mac x \<noteq> []" and "header \<noteq> []" and "payload \<noteq> []" and "names_hs256 header"
  shows "validate_and_extract hmac token secret issuer audience now = check_claims issuer audience now payload"
proof -
  let ?h = "base64url_encode header" and ?p = "base64url_encode payload"
  let ?s = "base64url_encode (mac (?h @ ''.'' @ ?p))"
  have t: "token = ?h @ CHR ''.'' # ?p @ CHR ''.'' # ?s"
    using assms(1,2) by (simp add: issue_token_def Let_def)
  have p1: "sv_find_char token (CHR ''.'') 0 = Some (length ?h)"
    using sv_find_char_hit [of "[]" 0 "CHR ''.''" ?h] encode_no_dot by (simp add: t)
  have p2: "sv_find_char token (CHR ''.'') (length ?h + 1) = Some (length ?h + 1 + length ?p)"
    using sv_find_char_hit [of "?h @ ''.''" "length ?h + 1" "CHR ''.''" ?p ?s] encode_no_dot by (simp add: t)
  have "drop (length ?h + 1 + length ?p + 1) token = ?s" by (simp add: t)
  then have p3: "sv_find_char token (CHR ''.'') (length ?h + 1 + length ?p + 1) = None"
    using encode_no_dot by (simp add: sv_find_char_None)
  have parts: "sv_substr token 0 (length ?h) = ?h"
    "sv_substr token (length ?h + 1) (length ?h + 1 + length ?p - length ?h - 1) = ?p"
    "drop (length ?h + 1 + length ?p + 1) token = ?s"
    by (simp_all add: t sv_substr_def)
  show ?thesis
    unfolding validate_and_extract_def p1 p2 p3 option.case Let_def parts
    using assms(2-6) p3 by (simp add: encode_empty b64_loop_encode base64url_decode_def)
qed

theorem jwt_issued_token_validates_witness:
  "validate_and_extract toy_mac sample_token ''0123'' (Some ''garcon'') None 50 =
     check_claims (Some ''garcon'') None 50 sample_payload"
proof (rule jwt_issued_token_validates)
  show "issue_token toy_mac ''0123'' sample_jose sample_payload = Some sample_token"
    by (simp add: sample_token_def issue_token_def toy_mac_def Let_def)
  show "toy_mac ''0123'' = (\<lambda>x. Some (take 4 ''0123'' @ [char_of (length x)] @ ''tag''))"
    by (simp add: toy_mac_def fun_eq_iff)
  show "sample_jose \<noteq> []" "sample_payload \<noteq> []" "names_hs256 sample_jose" by code_simp+
qed simp

text \<open>
  The scanner for numbers only looks at digits: an expiry given as a JSON string is read as
  absent, and one with twenty digits overflows the accumulator.
\<close>

lemma string_expiry_is_ignored:
  "extract_json_int (quoted ''exp'' @ '':'' @ quoted ''100'') ''exp'' = Inr 0"
  by code_simp

lemma long_expiry_overflows:
  "extract_json_int (quoted ''exp'' @ '':99999999999999999999'') ''exp'' = Inl Signed_Overflow"
  by code_simp

end
