(* ===== verification/Machine_Double.thy ===== *)
theory Machine_Double
  imports Complex_Main "HOL-Library.Log_Nat"
begin

text \<open>
  Double-precision arithmetic as the rate limiter uses it: each operation is the exact rational
  operation followed by rounding to a 53-bit significand, ties to even (all values are
  non-negative and far from overflow and from the subnormal range). The laws the clients
  need are the locale \<open>rounding\<close>, interpreted on that rounding, \<open>rnd64\<close>.
\<close>

section \<open>Rounding to 53 bits\<close>

definition round_half_even :: "rat \<Rightarrow> int" where
  "round_half_even q =
     (let f = floor q; d = q - of_int f
      in if d < 1 / 2 then f else if d > 1 / 2 then f + 1 else if even f then f else f + 1)"

text \<open>The exponent: \<open>2 powi e \<le> x < 2 powi (e + 1)\<close>.\<close>

definition ilog2 :: "rat \<Rightarrow> int" where
  "ilog2 x =
     (case quotient_of x of (a, b) \<Rightarrow>
        let k = bitlen a - bitlen b
        in if x \<ge> 2 powi k then k else k - 1)"

definition rnd64 :: "rat \<Rightarrow> rat" where
  "rnd64 x =
     (if x \<le> 0 then x
      else (let u = 2 powi (ilog2 x - 52) in of_int (round_half_even (x / u)) * u))"

text \<open>The largest relative error of one rounding.\<close>

definition unit_roundoff :: rat where
  "unit_roundoff = 1 / 2 ^ 53"

lemma unit_roundoff_bounds: "0 < unit_roundoff" "unit_roundoff < 1 / 1000"
  by (simp_all add: unit_roundoff_def)

section \<open>The interface\<close>

locale rounding =
  fixes rnd :: "rat \<Rightarrow> rat"
  assumes rnd_mono: "0 \<le> x \<Longrightarrow> x \<le> y \<Longrightarrow> rnd x \<le> rnd y"
    and rnd_nat: "n \<le> 2 ^ 53 \<Longrightarrow> rnd (of_nat n) = of_nat n"
    and rnd_error: "0 \<le> x \<Longrightarrow> \<bar>rnd x - x\<bar> \<le> x * unit_roundoff"
begin

lemma rnd_0 [simp]: "rnd 0 = 0"
  using rnd_nat [of 0] by simp

lemma rnd_int: "0 \<le> n \<Longrightarrow> n \<le> 2 ^ 53 \<Longrightarrow> rnd (of_int n) = of_int n"
  using rnd_nat [of "nat n"] by (simp add: nat_le_iff)

lemma rnd_upper: "0 \<le> x \<Longrightarrow> rnd x \<le> x * (1 + unit_roundoff)"
  using rnd_error [of x] unfolding distrib_left by linarith

lemma rnd_lower: "0 \<le> x \<Longrightarrow> x * (1 - unit_roundoff) \<le> rnd x"
  using rnd_error [of x] unfolding right_diff_distrib by linarith

lemma rnd_pos: "0 < x \<Longrightarrow> 0 < rnd x"
  using unit_roundoff_bounds by (intro less_le_trans [OF _ rnd_lower]) auto

lemma rnd_le_scaled:
  assumes "0 \<le> x" and "x \<le> y * c"
  shows "rnd x \<le> y * (c * (1 + unit_roundoff))"
proof -
  have "x * (1 + unit_roundoff) \<le> y * c * (1 + unit_roundoff)"
    using assms unit_roundoff_bounds by (intro mult_right_mono) auto
  with rnd_upper [OF assms(1)] show ?thesis by (simp only: mult.assoc)
qed

lemma rnd_nonneg: "0 \<le> x \<Longrightarrow> 0 \<le> rnd x"
  using rnd_mono [of 0 x] by simp

lemma rnd_le_nat: "0 \<le> x \<Longrightarrow> x \<le> of_nat n \<Longrightarrow> n \<le> 2 ^ 53 \<Longrightarrow> rnd x \<le> of_nat n"
  using rnd_mono [of x "of_nat n"] by (simp add: rnd_nat)

end

lemma round_half_even_of_int: "round_half_even (of_int n) = n"
  by (simp add: round_half_even_def Let_def)

lemma round_half_even_bounds: "of_int (round_half_even q) \<ge> q - 1 / 2" "of_int (round_half_even q) \<le> q + 1 / 2"
  unfolding round_half_even_def Let_def by (auto simp: algebra_simps) linarith+

lemma round_half_even_mono: "p \<le> q \<Longrightarrow> round_half_even p \<le> round_half_even q"
proof (cases "floor p = floor q")
  case True
  assume "p \<le> q"
  with True show ?thesis by (auto simp: round_half_even_def Let_def)
next
  case False
  assume "p \<le> q"
  with False have "floor p + 1 \<le> floor q" using floor_mono [of p q] by linarith
  moreover have "round_half_even p \<le> floor p + 1" "floor q \<le> round_half_even q"
    by (auto simp: round_half_even_def Let_def)
  ultimately show ?thesis by linarith
qed

lemma floorlog_rat_bounds:
  assumes "(a :: int) > 0"
  shows "(2 :: rat) ^ (floorlog 2 (nat a) - 1) \<le> of_int a \<and> of_int a < (2 :: rat) ^ floorlog 2 (nat a)
           \<and> floorlog 2 (nat a) > 0"
proof -
  let ?m = "floorlog 2 (nat a)"
  have m: "2 ^ (?m - 1) \<le> nat a" "nat a < 2 ^ ?m" "?m > 0"
    using floorlog_bounds [of "nat a" 2] assms by (auto simp: floorlog_eq_zero_iff intro: gr0I)
  have "(2 :: int) ^ (?m - 1) \<le> a" "a < 2 ^ ?m"
    using m(1,2) assms by (simp_all add: le_nat_iff nat_less_iff)
  then have "(of_int (2 ^ (?m - 1)) :: rat) \<le> of_int a" "(of_int a :: rat) < of_int (2 ^ ?m)"
    by (simp_all only: of_int_le_iff of_int_less_iff)
  with m(3) show ?thesis by simp
qed

lemma ilog2_bounds:
  assumes "0 < x"
  shows "2 powi (ilog2 x) \<le> x \<and> x < 2 powi (ilog2 x + 1)"
proof -
  obtain a b where q: "quotient_of x = (a, b)" by fastforce
  have b: "b > 0" using quotient_of_denom_pos [OF q] .
  have x: "x = of_int a / of_int b" using quotient_of_div [OF q] .
  with assms b have a: "a > 0" by (simp add: zero_less_divide_iff)
  let ?m = "floorlog 2 (nat a)" and ?n = "floorlog 2 (nat b)"
  have ra: "(2 :: rat) ^ (?m - 1) \<le> of_int a" "of_int a < (2 :: rat) ^ ?m" "?m > 0"
    using floorlog_rat_bounds [OF a] by auto
  have rb: "(2 :: rat) ^ (?n - 1) \<le> of_int b" "of_int b < (2 :: rat) ^ ?n" "?n > 0"
    using floorlog_rat_bounds [OF b] by auto
  let ?k = "int ?m - int ?n"
  have pk: "(2 :: rat) powi (?k - 1) = 2 ^ (?m - 1) / 2 ^ ?n" "(2 :: rat) powi (?k + 1) = 2 ^ ?m / 2 ^ (?n - 1)"
    using ra(3) rb(3) by (simp_all add: power_int_diff power_int_add of_nat_diff power_diff)
  have lo: "(2 :: rat) powi (?k - 1) \<le> x"
    unfolding pk x using ra(1) rb(2) b a by (intro frac_le) auto
  have hi: "x < (2 :: rat) powi (?k + 1)"
    unfolding pk x using ra(2) rb(1) a by (intro frac_less) auto
  show ?thesis
    using lo hi by (auto simp: ilog2_def q Let_def bitlen_def)
qed

section \<open>Laws of the rounding\<close>

abbreviation ulp :: "rat \<Rightarrow> rat" where
  "ulp x \<equiv> 2 powi (ilog2 x - 52)"

lemma ulp_pos [simp]: "0 < ulp x"
  by simp

lemma rnd64_pos: "0 < x \<Longrightarrow> rnd64 x = of_int (round_half_even (x / ulp x)) * ulp x"
  by (simp add: rnd64_def Let_def)

lemma powi_binade: "(2 :: rat) powi (k + 52 - 52 + int n) = 2 ^ n * 2 powi k"
  by (simp add: power_int_add)

lemma rnd64_in_binade:
  assumes "0 < x"
  shows "2 powi (ilog2 x) \<le> rnd64 x \<and> rnd64 x \<le> 2 powi (ilog2 x + 1)"
proof -
  let ?u = "ulp x"
  have lo: "2 powi (ilog2 x) = of_int (2 ^ 52) * ?u" and hi: "2 powi (ilog2 x + 1) = of_int (2 ^ 53) * ?u"
    using powi_binade [of "ilog2 x - 52" 52] powi_binade [of "ilog2 x - 52" 53]
    by (simp_all add: add.commute)
  have b: "of_int (2 ^ 52) \<le> x / ?u" "x / ?u \<le> of_int (2 ^ 53)"
    using ilog2_bounds [OF assms] unfolding lo hi
    by (simp_all only: pos_le_divide_eq pos_divide_le_eq ulp_pos less_imp_le)
  have "(2 ^ 52 :: int) \<le> round_half_even (x / ?u)" "round_half_even (x / ?u) \<le> 2 ^ 53"
    using round_half_even_mono [OF b(1)] round_half_even_mono [OF b(2)]
    unfolding round_half_even_of_int by simp_all
  then have "(of_int (2 ^ 52) :: rat) \<le> of_int (round_half_even (x / ?u))"
      "of_int (round_half_even (x / ?u)) \<le> (of_int (2 ^ 53) :: rat)"
    by (simp_all only: of_int_le_iff)
  then show ?thesis
    unfolding lo hi rnd64_pos [OF assms] using ulp_pos [of x]
    by (simp only: mult_le_cancel_right_pos)
qed

lemma ilog2_mono:
  assumes "0 < x" and "x \<le> y"
  shows "ilog2 x \<le> ilog2 y"
proof (rule ccontr)
  assume "\<not> ilog2 x \<le> ilog2 y"
  then have "(2 :: rat) powi (ilog2 y + 1) \<le> 2 powi (ilog2 x)"
    by (intro power_int_increasing) auto
  with ilog2_bounds [of x] ilog2_bounds [of y] assms show False by linarith
qed

lemma rnd64_mono:
  assumes "0 \<le> x" and "x \<le> y"
  shows "rnd64 x \<le> rnd64 y"
proof (cases "x = 0")
  case True
  have "0 \<le> rnd64 y" if "0 < y"
    using rnd64_in_binade [OF that] by (meson order_trans zero_le_power_int zero_le_numeral)
  with True assms show ?thesis by (cases "y = 0") (auto simp: rnd64_def)
next
  case False
  with assms have x: "0 < x" and y: "0 < y" by auto
  show ?thesis
  proof (cases "ilog2 x = ilog2 y")
    case True
    have "round_half_even (x / ulp y) \<le> round_half_even (y / ulp y)"
      using assms(2) by (intro round_half_even_mono divide_right_mono) auto
    then show ?thesis unfolding rnd64_pos [OF x] rnd64_pos [OF y] True
      by (intro mult_right_mono) (auto simp del: ulp_pos)
  next
    case False
    with ilog2_mono [OF x assms(2)] have "(2 :: rat) powi (ilog2 x + 1) \<le> 2 powi (ilog2 y)"
      by (intro power_int_increasing) auto
    with rnd64_in_binade [OF x] rnd64_in_binade [OF y] show ?thesis by linarith
  qed
qed

lemma rnd64_error:
  assumes "0 \<le> x"
  shows "\<bar>rnd64 x - x\<bar> \<le> x * unit_roundoff"
proof (cases "x = 0")
  case True
  then show ?thesis by (simp add: rnd64_def)
next
  case False
  with assms have x: "0 < x" by simp
  let ?u = "ulp x" and ?n = "of_int (round_half_even (x / ulp x)) :: rat"
  have "2 powi (ilog2 x) = 2 ^ 52 * ?u" using powi_binade [of "ilog2 x - 52" 52] by simp
  with ilog2_bounds [OF x] have u: "?u / 2 \<le> x / 2 ^ 53" by simp
  have "\<bar>?n - x / ?u\<bar> \<le> 1 / 2" using round_half_even_bounds [of "x / ?u"] by linarith
  then have "\<bar>?n - x / ?u\<bar> * ?u \<le> 1 / 2 * ?u" by (intro mult_right_mono) auto
  moreover have "\<bar>?n - x / ?u\<bar> * ?u = \<bar>?n * ?u - x\<bar>"
    by (simp add: abs_mult_pos left_diff_distrib)
  ultimately show ?thesis unfolding rnd64_pos [OF x] unit_roundoff_def using u by simp
qed

lemma rnd64_integral:
  assumes "0 < x" and "x / ulp x = of_int k"
  shows "rnd64 x = x"
  using assms by (simp add: rnd64_pos round_half_even_of_int) (simp add: field_simps)

lemma rnd64_nat:
  assumes "n \<le> 2 ^ 53"
  shows "rnd64 (of_nat n) = of_nat n"
proof (cases "n = 0")
  case True
  then show ?thesis by (simp add: rnd64_def)
next
  case False
  then have x: "(0 :: rat) < of_nat n" by simp
  let ?e = "ilog2 (of_nat n)"
  note b = ilog2_bounds [OF x]
  have e0: "0 \<le> ?e"
  proof (rule ccontr)
    assume "\<not> 0 \<le> ?e"
    then have "(2 :: rat) powi (?e + 1) \<le> 2 powi 0" by (intro power_int_increasing) auto
    with b False show False by simp
  qed
  show ?thesis
  proof (cases "?e \<le> 52")
    case True
    have "ulp (of_nat n) = 1 / 2 ^ nat (52 - ?e)"
      using True power_int_minus [of "2 :: rat" "52 - ?e"] by (simp add: power_int_def divide_inverse)
    then have "of_nat n / ulp (of_nat n) = of_int (int n * 2 ^ nat (52 - ?e))" by simp
    then show ?thesis by (rule rnd64_integral [OF x])
  next
    case False
    have "(2 :: rat) powi ?e \<le> 2 powi 53"
      using b assms by (simp add: order_trans [OF _ of_nat_mono [OF assms]])
    then have "?e \<le> 53"
      using power_int_strict_increasing [of 53 ?e "2 :: rat"] by (cases "?e \<le> 53") auto
    with False have e: "?e = 53" by simp
    then have "of_nat n = (2 :: rat) ^ 53"
      using b of_nat_mono [OF assms, where 'a = rat] by (simp add: power_int_def)
    moreover have "ulp (of_nat n) = 2" unfolding e by simp
    ultimately have "of_nat n / ulp (of_nat n) = of_int (2 ^ 52)" by simp
    then show ?thesis by (rule rnd64_integral [OF x])
  qed
qed

interpretation machine: rounding rnd64
  by unfold_locales (fact rnd64_mono rnd64_nat rnd64_error)+

end
