(* ===== verification/Rate_Limit.thy ===== *)
theory Rate_Limit
  imports Host_Guard Machine_Double
begin

text \<open>
  The rate-limit module (\<^verbatim>\<open>src/lib/rate_limit/rate_limit_module.cpp\<close>): a token bucket per rule
  and subject. Tokens are \<^verbatim>\<open>double\<close>s: every floating-point operation is the exact operation on
  rationals followed by the rounding \<open>rnd\<close>, the machine's being \<open>rnd64\<close>. The steady clock's
  reading, a number of nanoseconds, is an argument.
\<close>

section \<open>Rules and configuration\<close>

datatype key_kind = Key_global | Key_header

record rate_rule =
  rl_method_pattern :: string
  rl_target_pattern :: string
  rl_target_kind :: pattern_kind
  rl_key_type :: key_kind
  rl_key_name :: string
  rl_limit :: int
  rl_window_seconds :: int
  rl_burst :: int

fun positive_digits :: "string \<Rightarrow> int \<Rightarrow> string \<Rightarrow> int result" where
  "positive_digits what v [] = Inr v"
| "positive_digits what v (c # cs) =
     (if \<not> is_digit c then Inl (Runtime_Error (''rate_limit: invalid '' @ what))
      else (let v' = v * 10 + int (digit_value c)
            in if v' \<ge> 2 ^ 31 then Inl Signed_Overflow else positive_digits what v' cs))"

definition parse_positive_int :: "string \<Rightarrow> string \<Rightarrow> int result" where
  "parse_positive_int v what =
     throw_if (v = []) (Runtime_Error (''rate_limit: '' @ what @ '' must not be empty''))
       (bindE (positive_digits what 0 v) (\<lambda>n.
          throw_if (n \<le> 0) (Runtime_Error (''rate_limit: '' @ what @ '' must be positive'')) (Inr n)))"

definition parse_window_seconds :: "string \<Rightarrow> int result" where
  "parse_window_seconds v =
     throw_if (v = []) (Runtime_Error ''rate_limit: window must not be empty'')
       (case (if last v = CHR ''s'' \<or> last v = CHR ''S'' then (butlast v, 1)
              else if last v = CHR ''m'' \<or> last v = CHR ''M'' then (butlast v, 60)
              else if last v = CHR ''h'' \<or> last v = CHR ''H'' then (butlast v, 3600)
              else (v, 1)) of
          (num_part, multiplier) \<Rightarrow>
            bindE (parse_positive_int num_part ''window'') (\<lambda>seconds.
              let total = seconds * multiplier in
              throw_if (total > 1000000000) (Runtime_Error ''rate_limit: window too large'') (Inr total)))"

definition parse_key_spec :: "string \<Rightarrow> (key_kind \<times> string) result" where
  "parse_key_spec spec =
     (if spec = ''global'' then Inr (Key_global, [])
      else if length spec > 7 \<and> sv_substr spec 0 7 = ''header:'' then
        (let out_name = drop 7 spec in
         throw_if (out_name = []) (Runtime_Error ''rate_limit: header key name must not be empty'')
           (Inr (Key_header, out_name)))
      else if spec \<noteq> [] \<and> sv_find_char spec (CHR '':'') 0 = None then Inr (Key_header, spec)
      else Inl (Runtime_Error (''rate_limit: key must be '' @ [CHR 0x27] @ ''global'' @ [CHR 0x27] @ '' or ''
             @ [CHR 0x27] @ ''header:NAME'' @ [CHR 0x27] @ '' (or bare NAME)'')))"

definition parse_burst :: "string list \<Rightarrow> int \<Rightarrow> int result" where
  "parse_burst fs limit =
     bindE (if length fs \<ge> 6 \<and> fs ! 5 \<noteq> [] then parse_positive_int (fs ! 5) ''burst'' else Inr limit)
       (\<lambda>burst. Inr (if burst < limit then limit else burst))"

definition rl_parse_rule_line :: "string \<Rightarrow> rate_rule result" where
  "rl_parse_rule_line line =
     (let fs = rl_split_fields (drop 5 line) (CHR ''|'') in
      throw_if (length fs < 5)
        (Runtime_Error ''rate_limit: rule requires at least 5 fields (method|target|key|limit|window)'')
       (case rl_classify_target_pattern (fs ! 1) of (kind, pat) \<Rightarrow>
        throw_if (fs ! 0 = []) (Runtime_Error ''rate_limit: method pattern must not be empty'')
        (throw_if (pat = []) (Runtime_Error ''rate_limit: target pattern must not be empty'')
         (bindE (parse_key_spec (fs ! 2)) (\<lambda>(key_type, key_name).
          bindE (parse_positive_int (fs ! 3) ''limit'') (\<lambda>limit.
          bindE (parse_window_seconds (fs ! 4)) (\<lambda>window.
          bindE (parse_burst fs limit) (\<lambda>burst.
            Inr \<lparr>rl_method_pattern = fs ! 0, rl_target_pattern = pat, rl_target_kind = kind,
                 rl_key_type = key_type, rl_key_name = key_name, rl_limit = limit,
                 rl_window_seconds = window, rl_burst = burst\<rparr>))))))))"

definition rate_limit_create :: "string \<Rightarrow> rate_rule list result" where
  "rate_limit_create config_text =
     bindE (parse_selected rl_is_rule_line rl_parse_rule_line config_text) (\<lambda>parsed.
       throw_if (parsed = []) (Runtime_Error ''rate_limit: at least one rule= line is required'')
         (Inr parsed))"

section \<open>Subjects and buckets\<close>

text \<open>This copy of \<^verbatim>\<open>ascii_lowercase\<close> calls \<^verbatim>\<open>std::tolower\<close>, here in the C locale: the program never sets another one.\<close>

definition tolower :: "nat \<Rightarrow> nat" where
  "tolower c = (if 65 \<le> c \<and> c \<le> 90 then c + 32 else c)"

definition rl_ascii_lowercase :: "string \<Rightarrow> string" where
  "rl_ascii_lowercase v = map (\<lambda>ch. char_of (tolower (byte ch))) v"

lemma rl_ascii_lowercase_eq [simp]: "rl_ascii_lowercase = ascii_lowercase"
  by (intro ext) (simp add: rl_ascii_lowercase_def ascii_lowercase_def tolower_def ascii_lower_def)

text \<open>This copy of \<^verbatim>\<open>target_matches\<close> tests the size before it takes the prefix.\<close>

fun rl_target_matches :: "pattern_kind \<Rightarrow> string \<Rightarrow> string \<Rightarrow> bool" where
  "rl_target_matches Exact_pattern pat actual = (pat = actual)"
| "rl_target_matches Prefix_pattern pat actual = (length pat \<le> length actual \<and> sv_substr actual 0 (length pat) = pat)"

lemma rl_target_matches_eq [simp]: "rl_target_matches = target_matches"
proof (intro ext)
  fix k pat actual
  show "rl_target_matches k pat actual = target_matches k pat actual"
    using target_matches_prefix [of pat actual] by (cases k) auto
qed

fun find_header_icase :: "header_field list \<Rightarrow> string \<Rightarrow> string option" where
  "find_header_icase [] name = None"
| "find_header_icase (h # hs) name =
     (if rl_ascii_lowercase (hname h) = rl_ascii_lowercase name then Some (hvalue h)
      else find_header_icase hs name)"

definition extract_subject :: "request \<Rightarrow> rate_rule \<Rightarrow> string" where
  "extract_subject req r =
     (if rl_key_type r = Key_global then ''global''
      else (case find_header_icase (req_headers req) (rl_key_name r) of
              None \<Rightarrow> ''<anonymous>''
            | Some v \<Rightarrow> if v = [] then ''<anonymous>'' else v))"

record token_bucket =
  tokens :: rat
  last_refill :: int

text \<open>\<^verbatim>\<open>_buckets\<close>: an absent key is \<open>None\<close>; \<^verbatim>\<open>operator[]\<close> creates the default bucket.\<close>

type_synonym buckets = "string \<rightharpoonup> token_bucket"

definition new_bucket :: token_bucket where
  "new_bucket = \<lparr>tokens = 0, last_refill = 0\<rparr>"

definition make_state_key :: "nat \<Rightarrow> string \<Rightarrow> string" where
  "make_state_key rule_index subject = show_nat rule_index @ '':'' @ subject"

definition make_rate_limit_response :: "int \<Rightarrow> int \<Rightarrow> int \<Rightarrow> response result" where
  "make_rate_limit_response limit window_seconds retry_after_seconds =
     bindE (set_header ''X-RateLimit-Limit'' (show_int limit)
              (text_response 429 ''Too Many Requests'' (''rate limit exceeded'' @ [LF]))) (\<lambda>resp.
     bindE (set_header ''Retry-After'' (show_int (if retry_after_seconds > 0 then retry_after_seconds else 1)) resp)
       (set_header ''X-RateLimit-Reset'' (show_int window_seconds)))"

text \<open>\<^verbatim>\<open>static_cast<int>\<close> of a double truncates; a value that does not fit is undefined behaviour.\<close>

definition double_to_int :: "rat \<Rightarrow> int result" where
  "double_to_int x =
     (let v = (if x \<ge> 0 then floor x else ceiling x)
      in if - (2 ^ 31) \<le> v \<and> v < 2 ^ 31 then Inr v else Inl Signed_Overflow)"

definition rate_per_sec :: "(rat \<Rightarrow> rat) \<Rightarrow> rate_rule \<Rightarrow> rat" where
  "rate_per_sec rnd r =
     rnd (rnd (of_int (rl_limit r)) / rnd (of_int (if rl_window_seconds r > 0 then rl_window_seconds r else 1)))"

text \<open>\<^verbatim>\<open>duration<double>(now - last_refill).count()\<close>: the nanosecond count over \<open>10\<^sup>9\<close>.\<close>

definition elapsed_seconds :: "(rat \<Rightarrow> rat) \<Rightarrow> int \<Rightarrow> rat" where
  "elapsed_seconds rnd ns = (if ns < 0 then - rnd (rnd (of_int (- ns)) / 1000000000)
                             else rnd (rnd (of_int ns) / 1000000000))"

definition first_use :: "(rat \<Rightarrow> rat) \<Rightarrow> rate_rule \<Rightarrow> int \<Rightarrow> token_bucket \<Rightarrow> token_bucket" where
  "first_use rnd r now b =
     (if last_refill b = 0 then \<lparr>tokens = rnd (of_int (rl_burst r)), last_refill = now\<rparr> else b)"

definition refill :: "(rat \<Rightarrow> rat) \<Rightarrow> rate_rule \<Rightarrow> int \<Rightarrow> token_bucket \<Rightarrow> token_bucket" where
  "refill rnd r now b =
     (let elapsed = elapsed_seconds rnd (now - last_refill b) in
      if elapsed > 0
      then \<lparr>tokens = min (rnd (tokens b + rnd (elapsed * rate_per_sec rnd r))) (rnd (of_int (rl_burst r))),
            last_refill = now\<rparr>
      else b)"

definition retry_after :: "(rat \<Rightarrow> rat) \<Rightarrow> rate_rule \<Rightarrow> rat \<Rightarrow> int result" where
  "retry_after rnd r tok =
     (let needed = rnd (1 - tok) in
      if rate_per_sec rnd r > 0 then
        bindE (double_to_int (rnd (rnd (needed / rate_per_sec rnd r) + rnd (999 / 1000)))) (\<lambda>n.
          let n1 = (if n < 1 then 1 else n)
          in Inr (if n1 > rl_window_seconds r then rl_window_seconds r else n1))
      else Inr 1)"

definition check_and_consume ::
    "(rat \<Rightarrow> rat) \<Rightarrow> rate_rule \<Rightarrow> nat \<Rightarrow> string \<Rightarrow> int \<Rightarrow> buckets \<Rightarrow> response option result \<times> buckets" where
  "check_and_consume rnd r rule_index subject now bs =
     (let skey = make_state_key rule_index subject;
          b0 = (case bs skey of None \<Rightarrow> new_bucket | Some b \<Rightarrow> b);
          b = refill rnd r now (first_use rnd r now b0)
      in if tokens b \<ge> 1
         then (Inr None, bs(skey \<mapsto> b\<lparr>tokens := rnd (tokens b - 1)\<rparr>))
         else (bindE (retry_after rnd r (tokens b)) (\<lambda>n.
                 bindE (make_rate_limit_response (rl_limit r) (rl_window_seconds r) n) (\<lambda>resp. Inr (Some resp))),
               bs(skey \<mapsto> b)))"

section \<open>The handler\<close>

text \<open>
  An allowed request takes the lock a second time to read the remaining tokens; \<open>between\<close> is
  what other workers do to the buckets in the meantime.
\<close>

definition remaining_text :: "rate_rule \<Rightarrow> nat \<Rightarrow> string \<Rightarrow> buckets \<Rightarrow> string result" where
  "remaining_text r i subject bs =
     (case bs (make_state_key i subject) of
        None \<Rightarrow> Inr (show_int (rl_burst r))
      | Some b \<Rightarrow> bindE (double_to_int (tokens b)) (\<lambda>rem. Inr (show_int (if rem < 0 then 0 else rem))))"

definition limited_response :: "rate_rule \<Rightarrow> response \<Rightarrow> mod_result result" where
  "limited_response r resp =
     bindE (if resp_find_header resp ''X-RateLimit-Limit'' = None
            then set_header ''X-RateLimit-Limit'' (show_int (rl_limit r)) resp else Inr resp)
       (\<lambda>resp. Inr (res_respond resp))"

definition allowed_result :: "rate_rule \<Rightarrow> string \<Rightarrow> mod_result" where
  "allowed_result r remaining_str =
     res_add_response_header ''X-RateLimit-Reset'' (show_int (rl_window_seconds r))
       (res_add_response_header ''X-RateLimit-Remaining'' remaining_str
         (res_add_response_header ''X-RateLimit-Limit'' (show_int (rl_limit r)) res_pass))"

definition apply_rate_rule ::
    "(rat \<Rightarrow> rat) \<Rightarrow> (buckets \<Rightarrow> buckets) \<Rightarrow> int \<Rightarrow> rate_rule \<Rightarrow> nat \<Rightarrow> string \<Rightarrow> buckets
       \<Rightarrow> mod_result result \<times> buckets" where
  "apply_rate_rule rnd between now r i subject bs =
     (case check_and_consume rnd r i subject now bs of
        (Inl e, bs') \<Rightarrow> (Inl e, bs')
      | (Inr (Some resp), bs') \<Rightarrow> (limited_response r resp, bs')
      | (Inr None, bs') \<Rightarrow>
          (let bs'' = between bs' in
           (bindE (remaining_text r i subject bs'') (\<lambda>s. Inr (allowed_result r s)), bs'')))"

fun rate_limit_scan ::
    "(rat \<Rightarrow> rat) \<Rightarrow> (buckets \<Rightarrow> buckets) \<Rightarrow> int \<Rightarrow> nat \<Rightarrow> rate_rule list \<Rightarrow> request \<Rightarrow> buckets
       \<Rightarrow> mod_result result \<times> buckets" where
  "rate_limit_scan rnd between now i [] req bs = (Inr res_pass, bs)"
| "rate_limit_scan rnd between now i (r # rs) req bs =
     (if \<not> rl_method_matches (rl_method_pattern r) (req_method req) then rate_limit_scan rnd between now (Suc i) rs req bs
      else if \<not> rl_target_matches (rl_target_kind r) (rl_target_pattern r) (target req)
      then rate_limit_scan rnd between now (Suc i) rs req bs
      else apply_rate_rule rnd between now r i (extract_subject req r) bs)"

definition rate_limit_handle ::
    "(rat \<Rightarrow> rat) \<Rightarrow> (buckets \<Rightarrow> buckets) \<Rightarrow> int \<Rightarrow> rate_rule list \<Rightarrow> request \<Rightarrow> buckets
       \<Rightarrow> mod_result result \<times> buckets" where
  "rate_limit_handle rnd between now rules req bs = rate_limit_scan rnd between now 0 rules req bs"

section \<open>Specification\<close>

text \<open>What the rule parser guarantees of a rule.\<close>

definition rate_rule_ok :: "rate_rule \<Rightarrow> bool" where
  "rate_rule_ok r \<longleftrightarrow> 1 \<le> rl_limit r \<and> rl_limit r < 2 ^ 31 \<and> 1 \<le> rl_window_seconds r \<and>
     rl_window_seconds r \<le> 1000000000 \<and> rl_limit r \<le> rl_burst r \<and> rl_burst r < 2 ^ 31"

text \<open>The rule that governs a request, by its index, and the subject it is counted for.\<close>

fun governing :: "nat \<Rightarrow> rate_rule list \<Rightarrow> request \<Rightarrow> (nat \<times> string) option" where
  "governing i [] req = None"
| "governing i (r # rs) req =
     (if method_matches (rl_method_pattern r) (req_method req) \<and>
         target_matches (rl_target_kind r) (rl_target_pattern r) (target req)
      then Some (i, extract_subject req r) else governing (Suc i) rs req)"

text \<open>A sequence of requests with the clock readings, served one critical section after the other.\<close>

fun serve_all ::
    "(rat \<Rightarrow> rat) \<Rightarrow> rate_rule list \<Rightarrow> (int \<times> request) list \<Rightarrow> buckets \<Rightarrow> mod_result result list \<times> buckets" where
  "serve_all rnd rules [] bs = ([], bs)"
| "serve_all rnd rules ((now, req) # evs) bs =
     (case rate_limit_handle rnd (\<lambda>x. x) now rules req bs of
        (v, bs') \<Rightarrow> (case serve_all rnd rules evs bs' of (vs, bs'') \<Rightarrow> (v # vs, bs'')))"

definition passed :: "mod_result result \<Rightarrow> bool" where
  "passed v = (case v of Inl e \<Rightarrow> False | Inr res \<Rightarrow> mr_next res = Out_pass)"

text \<open>How many of the requests counted for a subject of a rule were passed on, and how many there were.\<close>

definition passed_for ::
    "(rat \<Rightarrow> rat) \<Rightarrow> rate_rule list \<Rightarrow> nat \<times> string \<Rightarrow> (int \<times> request) list \<Rightarrow> buckets \<Rightarrow> nat" where
  "passed_for rnd rules k evs bs =
     length (filter (\<lambda>((now, req), v). governing 0 rules req = Some k \<and> passed v)
       (zip evs (fst (serve_all rnd rules evs bs))))"

definition requests_for :: "rate_rule list \<Rightarrow> nat \<times> string \<Rightarrow> (int \<times> request) list \<Rightarrow> nat" where
  "requests_for rules k evs = length (filter (\<lambda>(now, req). governing 0 rules req = Some k) evs)"

definition bucket_ok :: "rate_rule \<Rightarrow> token_bucket \<Rightarrow> bool" where
  "bucket_ok r b \<longleftrightarrow> 0 \<le> tokens b \<and> tokens b \<le> of_int (rl_burst r)"

text \<open>Every bucket holds between zero and \<open>burst\<close> tokens.\<close>

definition buckets_ok :: "rate_rule list \<Rightarrow> buckets \<Rightarrow> bool" where
  "buckets_ok rules bs \<longleftrightarrow>
     (\<forall>i < length rules. \<forall>s b. bs (make_state_key i s) = Some b \<longrightarrow>
        bucket_ok (rules ! i) b)"

section \<open>The rules a module is created with\<close>

lemma positive_digits_Inr:
  "positive_digits what v s = Inr n \<Longrightarrow> 0 \<le> v \<Longrightarrow> v < 2 ^ 31 \<Longrightarrow> 0 \<le> n \<and> n < 2 ^ 31"
  by (induction what v s rule: positive_digits.induct) (auto simp: Let_def split: if_splits)

lemma parse_positive_int_Inr: "parse_positive_int v what = Inr n \<Longrightarrow> 1 \<le> n \<and> n < 2 ^ 31"
  using positive_digits_Inr [of what 0 v] by (auto simp: parse_positive_int_def outcome_simps)

lemma parse_window_seconds_Inr: "parse_window_seconds v = Inr n \<Longrightarrow> 1 \<le> n \<and> n \<le> 1000000000"
  by (auto simp: parse_window_seconds_def outcome_simps Let_def split: if_splits
           dest!: parse_positive_int_Inr)

lemma parse_burst_Inr:
  "parse_burst fs limit = Inr n \<Longrightarrow> limit < 2 ^ 31 \<Longrightarrow> limit \<le> n \<and> n < 2 ^ 31"
  by (auto simp: parse_burst_def outcome_simps split: if_splits dest!: parse_positive_int_Inr)

lemma rl_parse_rule_line_ok: "rl_parse_rule_line line = Inr r \<Longrightarrow> rate_rule_ok r"
  by (auto simp: rl_parse_rule_line_def outcome_simps Let_def rate_rule_ok_def split: prod.splits
           dest!: parse_positive_int_Inr parse_window_seconds_Inr parse_burst_Inr)

lemma rate_limit_create_ok:
  "rate_limit_create cfg = Inr rules \<Longrightarrow> rules \<noteq> [] \<and> (\<forall>r \<in> set rules. rate_rule_ok r)"
  using traverse_set
  by (fastforce simp: rate_limit_create_def parse_selected_def outcome_simps list_all2_conv_all_nth
        in_set_conv_nth dest: rl_parse_rule_line_ok)

section \<open>Keys\<close>

lemma colon_not_digit: "CHR '':'' \<notin> set (show_nat n)"
  using show_nat_digits [of "CHR '':''" n] by (auto simp: is_digit_def in_range_def)

lemma make_state_key_inject [simp]: "make_state_key i s = make_state_key j t \<longleftrightarrow> i = j \<and> s = t"
proof
  assume eq: "make_state_key i s = make_state_key j t"
  have tw: "takeWhile (\<lambda>c. c \<noteq> CHR '':'') (make_state_key n u) = show_nat n" for n u
    using colon_not_digit [of n] by (auto simp: make_state_key_def takeWhile_append)
  from eq have "show_nat i = show_nat j" using tw by metis
  then have "i = j" by (metis digits_value_show_nat)
  with eq show "i = j \<and> s = t" by (simp add: make_state_key_def)
qed simp

lemma governing_bound: "governing i rs req = Some (j, s) \<Longrightarrow> i \<le> j \<and> j < i + length rs"
  by (induction i rs req rule: governing.induct) (auto split: if_splits)

section \<open>One bucket under rounded arithmetic\<close>

abbreviation exact_rate :: "rate_rule \<Rightarrow> rat" where
  "exact_rate r \<equiv> of_int (rl_limit r) / of_int (rl_window_seconds r)"

text \<open>The bucket a call refills: the stored one, or a full one on first use.\<close>

definition starting_bucket ::
    "(rat \<Rightarrow> rat) \<Rightarrow> rate_rule \<Rightarrow> nat \<Rightarrow> string \<Rightarrow> int \<Rightarrow> buckets \<Rightarrow> token_bucket" where
  "starting_bucket rnd r i s now bs =
     first_use rnd r now (case bs (make_state_key i s) of None \<Rightarrow> new_bucket | Some b \<Rightarrow> b)"

text \<open>The tokens that may flow in over a span of nanoseconds, rounding included.\<close>

definition inflow :: "rate_rule \<Rightarrow> int \<Rightarrow> rat" where
  "inflow r ns = exact_rate r * (of_int ns / 1000000000) * (1 + 1 / 2 ^ 50)"

lemma exact_rate_pos: "rate_rule_ok r \<Longrightarrow> 0 < exact_rate r"
  by (simp add: rate_rule_ok_def)

lemma inflow_add: "inflow r (a + b) = inflow r a + inflow r b"
  by (simp only: inflow_def of_int_add add_divide_distrib distrib_left distrib_right)

lemma inflow_nonneg: "rate_rule_ok r \<Longrightarrow> 0 \<le> a \<Longrightarrow> 0 \<le> inflow r a"
  unfolding inflow_def using exact_rate_pos [of r] by (intro mult_nonneg_nonneg) auto

lemma inflow_mono: "rate_rule_ok r \<Longrightarrow> a \<le> b \<Longrightarrow> inflow r a \<le> inflow r b"
  using inflow_add [of r a "b - a"] inflow_nonneg [of r "b - a"] by simp

text \<open>What the bucket of a key can still grant until time \<open>T\<close>; an unused key counts from \<open>t0\<close>.\<close>

definition credit :: "rate_rule \<Rightarrow> int \<Rightarrow> int \<Rightarrow> token_bucket option \<Rightarrow> rat" where
  "credit r t0 T bo =
     (case bo of None \<Rightarrow> of_int (rl_burst r) + inflow r (T - t0)
               | Some b \<Rightarrow> tokens b + inflow r (T - last_refill b))"

definition bucket_in :: "rate_rule \<Rightarrow> int \<Rightarrow> int \<Rightarrow> token_bucket option \<Rightarrow> bool" where
  "bucket_in r t0 T bo = pred_option (\<lambda>b. bucket_ok r b \<and> t0 \<le> last_refill b \<and> last_refill b \<le> T) bo"

lemma roundoff_four:
  "(1 + unit_roundoff) * (1 + unit_roundoff) * (1 + unit_roundoff) * (1 + unit_roundoff) \<le> 1 + 1 / 2 ^ 50"
  by (simp add: unit_roundoff_def)

context rounding
begin

lemma rate_per_sec_eq: "rate_rule_ok r \<Longrightarrow> rate_per_sec rnd r = rnd (exact_rate r)"
  by (simp add: rate_per_sec_def rate_rule_ok_def rnd_int)

lemma rate_per_sec_pos: "rate_rule_ok r \<Longrightarrow> 0 < rate_per_sec rnd r"
  by (simp only: rate_per_sec_eq rnd_pos exact_rate_pos)

lemma burst_exact: "rate_rule_ok r \<Longrightarrow> rnd (of_int (rl_burst r)) = of_int (rl_burst r)"
  by (rule rnd_int) (auto simp: rate_rule_ok_def)

lemma elapsed_pos: "0 < elapsed_seconds rnd ns \<longleftrightarrow> 0 < ns"
proof (cases "ns < 0")
  case True
  then have "0 \<le> rnd (rnd (of_int (- ns)) / 1000000000)"
    by (intro rnd_nonneg divide_nonneg_pos) (auto intro: rnd_nonneg)
  with True show ?thesis by (simp add: elapsed_seconds_def)
next
  case False
  then show ?thesis by (cases "ns = 0") (auto simp: elapsed_seconds_def rnd_pos)
qed

lemma elapsed_upper:
  assumes "0 < ns"
  shows "elapsed_seconds rnd ns \<le> of_int ns / 1000000000 * ((1 + unit_roundoff) * (1 + unit_roundoff))"
proof -
  have n: "rnd (of_int ns) \<le> of_int ns * (1 + unit_roundoff)" "0 \<le> rnd (of_int ns)"
    using rnd_upper [of "of_int ns"] rnd_nonneg [of "of_int ns"] assms by auto
  then have "rnd (of_int ns) / 1000000000 \<le> of_int ns / 1000000000 * (1 + unit_roundoff)"
    by (simp add: divide_right_mono)
  from rnd_le_scaled [OF _ this] show ?thesis
    using assms n(2) by (simp add: elapsed_seconds_def)
qed

lemma refill_amount:
  assumes "rate_rule_ok r" and "0 < ns"
  shows "rnd (elapsed_seconds rnd ns * rate_per_sec rnd r) \<le> inflow r ns"
proof -
  define u where "u = 1 + unit_roundoff"
  define s where "s = (of_int ns / 1000000000 :: rat)"
  have s: "0 \<le> s" and rho: "0 < exact_rate r" and u: "0 < u"
    using assms exact_rate_pos unit_roundoff_bounds by (auto simp: s_def u_def)
  have rate: "rate_per_sec rnd r \<le> exact_rate r * u"
    unfolding rate_per_sec_eq [OF assms(1)] u_def using rho by (intro rnd_upper) simp
  have pos: "0 \<le> elapsed_seconds rnd ns * rate_per_sec rnd r"
    using elapsed_pos [of ns] assms(2) rate_per_sec_pos [OF assms(1)] by (simp add: less_imp_le)
  have "elapsed_seconds rnd ns * rate_per_sec rnd r \<le> (s * (u * u)) * (exact_rate r * u)"
    using elapsed_upper [OF assms(2)] rate rate_per_sec_pos [OF assms(1)] s u
    unfolding s_def [symmetric] u_def [symmetric] by (intro mult_mono) auto
  then have "elapsed_seconds rnd ns * rate_per_sec rnd r \<le> exact_rate r * s * (u * u * u)"
    by (simp only: mult_ac)
  from rnd_le_scaled [OF pos this]
  have "rnd (elapsed_seconds rnd ns * rate_per_sec rnd r) \<le> exact_rate r * s * (u * u * u * u)"
    by (simp only: u_def)
  also have "\<dots> \<le> exact_rate r * s * (1 + 1 / 2 ^ 50)"
    using s rho roundoff_four unfolding u_def by (intro mult_left_mono mult_nonneg_nonneg) auto
  finally show ?thesis by (simp only: inflow_def s_def)
qed

lemma refill_ok:
  assumes "rate_rule_ok r" and "bucket_ok r b"
  shows "bucket_ok r (refill rnd r now b)"
proof -
  let ?e = "elapsed_seconds rnd (now - last_refill b)"
  have "0 \<le> rnd (tokens b + rnd (?e * rate_per_sec rnd r))" if "0 < ?e"
    using that rate_per_sec_pos [OF assms(1)] assms(2) by (intro rnd_nonneg add_nonneg_nonneg) (auto simp: bucket_ok_def)
  then show ?thesis
    using assms by (auto simp: refill_def Let_def bucket_ok_def burst_exact rate_rule_ok_def)
qed

lemma refill_last: "last_refill (refill rnd r now b) = max now (last_refill b)"
  by (simp add: refill_def Let_def elapsed_pos)

lemma refill_inflow:
  assumes "rate_rule_ok r" and "bucket_ok r b"
  shows "tokens (refill rnd r now b)
           \<le> tokens b + inflow r (max now (last_refill b) - last_refill b) + of_int (rl_burst r) * unit_roundoff"
proof (cases "last_refill b < now")
  case True
  define burst where "burst = (of_int (rl_burst r) :: rat)"
  define y where "y = tokens b + rnd (elapsed_seconds rnd (now - last_refill b) * rate_per_sec rnd r)"
  have y: "0 \<le> y" "y \<le> tokens b + inflow r (now - last_refill b)"
    using assms True refill_amount [OF assms(1), of "now - last_refill b"] elapsed_pos [of "now - last_refill b"]
      rate_per_sec_pos [OF assms(1)]
    unfolding y_def bucket_ok_def by (auto intro!: add_nonneg_nonneg rnd_nonneg)
  have "min (rnd y) burst \<le> y + burst * unit_roundoff"
  proof (cases "y \<le> burst")
    case True
    then have "y * unit_roundoff \<le> burst * unit_roundoff"
      using unit_roundoff_bounds by (intro mult_right_mono) auto
    with rnd_upper [OF y(1)] show ?thesis unfolding distrib_left by linarith
  next
    case False
    moreover have "0 \<le> burst * unit_roundoff"
      using assms unit_roundoff_bounds by (auto simp: burst_def rate_rule_ok_def)
    ultimately show ?thesis by linarith
  qed
  then show ?thesis
    using True y(2) burst_exact [OF assms(1)]
    by (simp add: refill_def Let_def elapsed_pos y_def burst_def max_def)
next
  case False
  moreover have "0 \<le> of_int (rl_burst r) * unit_roundoff"
    using assms unit_roundoff_bounds by (auto simp: rate_rule_ok_def)
  ultimately show ?thesis
    using inflow_nonneg [OF assms(1), of 0] by (simp add: refill_def Let_def elapsed_pos max_def)
qed

lemma take_token:
  assumes "rate_rule_ok r" and "bucket_ok r b" and "1 \<le> tokens b"
  shows "0 \<le> rnd (tokens b - 1) \<and> rnd (tokens b - 1) \<le> of_int (rl_burst r) \<and>
         1 + rnd (tokens b - 1) \<le> tokens b + of_int (rl_burst r) * unit_roundoff"
proof -
  have t: "0 \<le> tokens b - 1" "tokens b - 1 \<le> of_nat (nat (rl_burst r))"
    using assms by (auto simp: bucket_ok_def rate_rule_ok_def)
  then have "(tokens b - 1) * unit_roundoff \<le> of_int (rl_burst r) * unit_roundoff"
    using assms unit_roundoff_bounds by (intro mult_right_mono) (auto simp: rate_rule_ok_def)
  with rnd_upper [OF t(1)] have "rnd (tokens b - 1) \<le> tokens b - 1 + of_int (rl_burst r) * unit_roundoff"
    unfolding distrib_left mult_1_right by (meson add_left_mono order_trans)
  moreover have "rnd (tokens b - 1) \<le> of_nat (nat (rl_burst r))"
    using t assms by (intro rnd_le_nat) (auto simp: rate_rule_ok_def nat_le_iff)
  ultimately show ?thesis using rnd_nonneg [OF t(1)] assms by (auto simp: rate_rule_ok_def)
qed

lemma retry_after_bounds:
  assumes "rate_rule_ok r" and "0 \<le> tok" and "tok < 1"
  shows "\<exists>n. retry_after rnd r tok = Inr n \<and> 1 \<le> n \<and> n \<le> rl_window_seconds r"
proof -
  let ?rate = "rate_per_sec rnd r"
  have needed: "0 \<le> rnd (1 - tok)" "rnd (1 - tok) \<le> 1"
    using assms rnd_nonneg [of "1 - tok"] rnd_le_nat [of "1 - tok" 1] by auto
  have "(1 / 1000000000 :: rat) \<le> exact_rate r"
    using assms by (intro frac_le) (auto simp: rate_rule_ok_def)
  then have "1 / 1000000000 * (1 - 1 / 1000) \<le> exact_rate r * (1 - unit_roundoff)"
    using unit_roundoff_bounds exact_rate_pos [OF assms(1)] by (intro mult_mono) auto
  also have "\<dots> \<le> ?rate"
    unfolding rate_per_sec_eq [OF assms(1)] using exact_rate_pos [OF assms(1)] by (intro rnd_lower) simp
  finally have rate: "1 / 1100000000 \<le> ?rate" by simp
  have "rnd (1 - tok) / ?rate \<le> 1 / (1 / 1100000000)"
    using needed rate by (intro frac_le) auto
  then have s: "0 \<le> rnd (1 - tok) / ?rate" "rnd (1 - tok) / ?rate \<le> of_nat 1100000000"
    using needed rate_per_sec_pos [OF assms(1)] by (auto simp: less_imp_le)
  have "rnd (rnd (1 - tok) / ?rate) \<le> of_nat 1100000000" "0 \<le> rnd (rnd (1 - tok) / ?rate)"
    using s by (intro rnd_le_nat, simp_all) (rule rnd_nonneg)
  moreover have "rnd (999 / 1000) \<le> of_nat 1" "0 \<le> rnd (999 / 1000)"
    by (intro rnd_le_nat) (auto intro: rnd_nonneg)
  ultimately have "0 \<le> rnd (rnd (rnd (1 - tok) / ?rate) + rnd (999 / 1000))"
      "rnd (rnd (rnd (1 - tok) / ?rate) + rnd (999 / 1000)) \<le> of_nat 1100000001"
    using rnd_le_nat [of "rnd (rnd (1 - tok) / ?rate) + rnd (999 / 1000)" 1100000001]
    by (simp_all add: rnd_nonneg)
  then have "\<exists>n. double_to_int (rnd (rnd (rnd (1 - tok) / ?rate) + rnd (999 / 1000))) = Inr n"
    by (auto simp: double_to_int_def Let_def floor_less_iff le_floor_iff)
  then show ?thesis
    using rate_per_sec_pos [OF assms(1)] assms(1) by (auto simp: retry_after_def Let_def rate_rule_ok_def)
qed

text \<open>
  One call: what it grants is paid for by the tokens of the bucket it starts from and the inflow.
\<close>

lemma check_step:
  assumes r: "rate_rule_ok r" and b: "starting_bucket rnd r i s now bs = b" "bucket_ok r b"
  obtains v b' where "check_and_consume rnd r i s now bs = (v, bs(make_state_key i s \<mapsto> b'))"
    and "bucket_ok r b'" and "last_refill b' = max now (last_refill b)"
    and "(if v = Inr None then 1 else 0) + tokens b'
           \<le> tokens b + inflow r (last_refill b' - last_refill b) + 2 * (of_int (rl_burst r) * unit_roundoff)"
    and "v = Inr None \<or> (\<exists>n. 1 \<le> n \<and> n \<le> rl_window_seconds r \<and>
           v = bindE (make_rate_limit_response (rl_limit r) (rl_window_seconds r) n) (\<lambda>resp. Inr (Some resp)))"
proof -
  let ?b = "refill rnd r now b" and ?k = "make_state_key i s" and ?e = "of_int (rl_burst r) * unit_roundoff"
  have ok: "bucket_ok r ?b" using refill_ok [OF r b(2)] .
  have e: "0 \<le> ?e" using r unit_roundoff_bounds by (auto simp: rate_rule_ok_def)
  note flow = refill_inflow [OF r b(2), of now]
  show ?thesis
  proof (cases "1 \<le> tokens ?b")
    case True
    let ?b' = "?b\<lparr>tokens := rnd (tokens ?b - 1)\<rparr>"
    have "check_and_consume rnd r i s now bs = (Inr None, bs(?k \<mapsto> ?b'))"
      using True b(1) by (simp add: check_and_consume_def Let_def starting_bucket_def)
    moreover have "bucket_ok r ?b'" and "1 + tokens ?b' \<le> tokens ?b + ?e"
      using take_token [OF r ok True] by (simp_all add: bucket_ok_def)
    ultimately show ?thesis
      using that [of "Inr None" ?b'] flow by (simp add: refill_last)
  next
    case False
    with ok obtain n where n: "retry_after rnd r (tokens ?b) = Inr n" "1 \<le> n" "n \<le> rl_window_seconds r"
      using retry_after_bounds [OF r, of "tokens ?b"] by (auto simp: bucket_ok_def)
    let ?v = "bindE (make_rate_limit_response (rl_limit r) (rl_window_seconds r) n) (\<lambda>resp. Inr (Some resp))"
    have "check_and_consume rnd r i s now bs = (?v, bs(?k \<mapsto> ?b))"
      using False b(1) n(1) by (simp add: check_and_consume_def Let_def starting_bucket_def)
    moreover have "?v \<noteq> Inr None" by (auto simp: outcome_simps)
    ultimately show ?thesis
      using that [of ?v ?b] flow e ok n(2,3) by (auto simp: refill_last)
  qed
qed

lemma starting_bucket_ok:
  assumes "rate_rule_ok r" and "\<And>b. bs (make_state_key i s) = Some b \<Longrightarrow> bucket_ok r b"
  shows "bucket_ok r (starting_bucket rnd r i s now bs)"
  using assms burst_exact [OF assms(1)]
  by (auto simp: starting_bucket_def first_use_def bucket_ok_def rate_rule_ok_def new_bucket_def split: option.splits)

end

section \<open>Answers\<close>

lemma show_int_valid [simp]: "valid_header_value (show_int n)"
  by (auto simp: valid_header_value_def index_of_eq_None show_int_no_ctl)

definition too_many_requests :: "rate_rule \<Rightarrow> int \<Rightarrow> response" where
  "too_many_requests r n =
     (text_response 429 ''Too Many Requests'' (''rate limit exceeded'' @ [LF]))
       \<lparr>resp_headers := [\<lparr>hname = ''X-RateLimit-Limit'', hvalue = show_int (rl_limit r)\<rparr>,
                        \<lparr>hname = ''Retry-After'', hvalue = show_int n\<rparr>,
                        \<lparr>hname = ''X-RateLimit-Reset'', hvalue = show_int (rl_window_seconds r)\<rparr>]\<rparr>"

lemma rate_limit_header_names:
  "valid_header_name ''X-RateLimit-Limit''" "valid_header_name ''Retry-After''"
  "valid_header_name ''X-RateLimit-Reset''"
  "\<not> header_name_equals ''X-RateLimit-Limit'' ''Retry-After''"
  "\<not> header_name_equals ''X-RateLimit-Limit'' ''X-RateLimit-Reset''"
  "\<not> header_name_equals ''Retry-After'' ''X-RateLimit-Reset''"
  "header_name_equals ''X-RateLimit-Limit'' ''X-RateLimit-Limit''"
  by code_simp+

lemma make_rate_limit_response_eq:
  "1 \<le> n \<Longrightarrow> make_rate_limit_response (rl_limit r) (rl_window_seconds r) n = Inr (too_many_requests r n)"
  by (simp add: make_rate_limit_response_def set_header_def add_header_def validate_header_def
        rate_limit_header_names text_response_def empty_response_def too_many_requests_def)

lemma limited_response_eq: "limited_response r (too_many_requests r n) = Inr (res_respond (too_many_requests r n))"
  by (simp add: limited_response_def too_many_requests_def resp_find_header_def find_header_in_def
        rate_limit_header_names)

lemma scan_governing:
  "rate_limit_scan rnd between now i rs req bs =
     (case governing i rs req of
        None \<Rightarrow> (Inr res_pass, bs)
      | Some (j, s) \<Rightarrow> apply_rate_rule rnd between now (rs ! (j - i)) j s bs)"
proof (induction i rs req rule: governing.induct)
  case (2 i r rs req)
  have "(r # rs) ! (j - i) = rs ! (j - Suc i)" if "governing (Suc i) rs req = Some (j, s)" for j s
    using governing_bound [OF that] by (simp add: nth_Cons')
  with 2 show ?case by (auto split: option.splits)
qed simp

lemma check_other_key:
  "make_state_key i s \<noteq> k \<Longrightarrow> snd (check_and_consume rnd r i s now bs) k = bs k"
  by (auto simp: check_and_consume_def Let_def)

lemma apply_rule_state: "snd (apply_rate_rule rnd (\<lambda>x. x) now r i s bs) = snd (check_and_consume rnd r i s now bs)"
  by (auto simp: apply_rate_rule_def Let_def split: prod.splits sum.splits option.splits)

lemma apply_rule_passed:
  "passed (fst (apply_rate_rule rnd between now r i s bs)) \<Longrightarrow> fst (check_and_consume rnd r i s now bs) = Inr None"
  by (auto simp: apply_rate_rule_def passed_def limited_response_def res_respond_def outcome_simps
           split: prod.splits sum.splits option.splits)

lemma passed_for_Cons:
  "passed_for rnd rules k ((now, req) # evs) bs =
     (if governing 0 rules req = Some k \<and> passed (fst (rate_limit_handle rnd (\<lambda>x. x) now rules req bs)) then 1 else 0) +
     passed_for rnd rules k evs (snd (rate_limit_handle rnd (\<lambda>x. x) now rules req bs))"
  by (simp add: passed_for_def case_prod_unfold)

lemma handle_other_key:
  assumes "governing 0 rules req \<noteq> Some (i, s)"
  shows "snd (rate_limit_handle rnd (\<lambda>x. x) now rules req bs) (make_state_key i s) = bs (make_state_key i s)"
  using assms by (auto simp: rate_limit_handle_def scan_governing apply_rule_state check_other_key
                       split: option.splits)

context rounding
begin

lemma remaining_text_ok:
  assumes "rate_rule_ok r" and "\<And>b. bs (make_state_key i s) = Some b \<Longrightarrow> bucket_ok r b"
  shows "\<exists>n. remaining_text r i s bs = Inr (show_int n) \<and> 0 \<le> n \<and> n \<le> rl_burst r"
proof (cases "bs (make_state_key i s)")
  case None
  with assms(1) show ?thesis by (auto simp: remaining_text_def rate_rule_ok_def)
next
  case (Some b)
  with assms(2) have "0 \<le> tokens b" "tokens b \<le> of_int (rl_burst r)" by (simp_all add: bucket_ok_def)
  moreover from this have "0 \<le> floor (tokens b)" "floor (tokens b) \<le> rl_burst r"
    by (simp_all add: floor_le_iff)
  moreover from this assms(1) have "floor (tokens b) < 2 ^ 31" by (auto simp only: rate_rule_ok_def)
  ultimately show ?thesis
    using Some by (intro exI [of _ "floor (tokens b)"])
      (simp add: remaining_text_def double_to_int_def Let_def del: zero_le_floor floor_less_numeral)
qed

lemma buckets_ok_update:
  "buckets_ok rules bs \<Longrightarrow> i < length rules \<Longrightarrow> bucket_ok (rules ! i) b \<Longrightarrow>
   buckets_ok rules (bs(make_state_key i s \<mapsto> b))"
  by (auto simp: buckets_ok_def)

lemma apply_rate_rule_ok:
  assumes ok: "rate_rule_ok (rules ! i)" and i: "i < length rules" and bs: "buckets_ok rules bs"
    and between: "\<And>bs. buckets_ok rules bs \<Longrightarrow> buckets_ok rules (between bs)"
    and run: "apply_rate_rule rnd between now (rules ! i) i s bs = (v, bs')"
  shows "buckets_ok rules bs' \<and>
         ((\<exists>n. 0 \<le> n \<and> n \<le> rl_burst (rules ! i) \<and> v = Inr (allowed_result (rules ! i) (show_int n))) \<or>
          (\<exists>n. 1 \<le> n \<and> n \<le> rl_window_seconds (rules ! i) \<and>
             v = Inr (res_respond (too_many_requests (rules ! i) n))))"
proof -
  let ?r = "rules ! i"
  from bs i have "bucket_ok ?r (starting_bucket rnd ?r i s now bs)"
    by (intro starting_bucket_ok [OF ok]) (auto simp: buckets_ok_def)
  then obtain w b' where step: "check_and_consume rnd ?r i s now bs = (w, bs(make_state_key i s \<mapsto> b'))"
    and b': "bucket_ok ?r b'" and w: "w = Inr None \<or> (\<exists>n. 1 \<le> n \<and> n \<le> rl_window_seconds ?r \<and>
           w = bindE (make_rate_limit_response (rl_limit ?r) (rl_window_seconds ?r) n) (\<lambda>resp. Inr (Some resp)))"
    by (rule check_step [OF ok refl, of i s now bs]) blast
  note upd = buckets_ok_update [OF bs i b', of s]
  from w show ?thesis
  proof
    assume "w = Inr None"
    moreover obtain n where "remaining_text ?r i s (between (bs(make_state_key i s \<mapsto> b'))) = Inr (show_int n)"
      "0 \<le> n" "n \<le> rl_burst ?r"
      using remaining_text_ok [OF ok] between [OF upd] i unfolding buckets_ok_def by meson
    ultimately show ?thesis
      using run step between [OF upd] by (auto simp: apply_rate_rule_def Let_def)
  next
    assume "\<exists>n. 1 \<le> n \<and> n \<le> rl_window_seconds ?r \<and>
           w = bindE (make_rate_limit_response (rl_limit ?r) (rl_window_seconds ?r) n) (\<lambda>resp. Inr (Some resp))"
    then obtain n where "1 \<le> n" "n \<le> rl_window_seconds ?r" "w = Inr (Some (too_many_requests ?r n))"
      by (auto simp: make_rate_limit_response_eq)
    with run step upd show ?thesis by (auto simp: apply_rate_rule_def limited_response_eq)
  qed
qed

lemma handle_answers:
  assumes rules: "\<forall>r \<in> set rules. rate_rule_ok r" and bs: "buckets_ok rules bs"
    and between: "\<And>bs. buckets_ok rules bs \<Longrightarrow> buckets_ok rules (between bs)"
    and run: "rate_limit_handle rnd between now rules req bs = (v, bs')"
  shows "buckets_ok rules bs' \<and>
         (case governing 0 rules req of
            None \<Rightarrow> v = Inr res_pass
          | Some (i, s) \<Rightarrow>
              (\<exists>n. 0 \<le> n \<and> n \<le> rl_burst (rules ! i) \<and> v = Inr (allowed_result (rules ! i) (show_int n))) \<or>
              (\<exists>n. 1 \<le> n \<and> n \<le> rl_window_seconds (rules ! i) \<and>
                 v = Inr (res_respond (too_many_requests (rules ! i) n))))"
proof (cases "governing 0 rules req")
  case None
  with bs run show ?thesis by (auto simp: rate_limit_handle_def scan_governing)
next
  case (Some js)
  obtain i s where js: "js = (i, s)" by fastforce
  with Some governing_bound [of 0 rules req i s] have i: "i < length rules" by simp
  from run Some js have "apply_rate_rule rnd between now (rules ! i) i s bs = (v, bs')"
    by (simp add: rate_limit_handle_def scan_governing)
  from apply_rate_rule_ok [OF _ i bs between this] rules i Some js show ?thesis by simp
qed

lemma starting_credit:
  assumes "rate_rule_ok r" and "bucket_in r t0 T (bs (make_state_key i s))" and "0 < t0" "t0 \<le> now" "now \<le> T"
  shows "bucket_in r t0 T (Some (starting_bucket rnd r i s now bs)) \<and>
         credit r t0 T (Some (starting_bucket rnd r i s now bs)) \<le> credit r t0 T (bs (make_state_key i s))"
proof (cases "bs (make_state_key i s)")
  case None
  then have "starting_bucket rnd r i s now bs = \<lparr>tokens = of_int (rl_burst r), last_refill = now\<rparr>"
    using burst_exact [OF assms(1)] by (simp add: starting_bucket_def first_use_def new_bucket_def)
  with None assms inflow_mono [OF assms(1), of "T - now" "T - t0"] show ?thesis
    by (auto simp: credit_def bucket_in_def bucket_ok_def rate_rule_ok_def)
next
  case (Some b)
  then show ?thesis using assms by (auto simp: starting_bucket_def first_use_def bucket_in_def)
qed

text \<open>One request: the granted request and the credit left are covered by the credit before.\<close>

lemma handle_credit:
  assumes rules: "\<forall>r \<in> set rules. rate_rule_ok r" and g: "governing 0 rules req = Some (i, s)"
    and bin: "bucket_in (rules ! i) t0 T (bs (make_state_key i s))" and t: "0 < t0" "t0 \<le> now" "now \<le> T"
    and run: "rate_limit_handle rnd (\<lambda>x. x) now rules req bs = (v, bs')"
  shows "bucket_in (rules ! i) t0 T (bs' (make_state_key i s)) \<and>
         (if passed v then 1 else 0) + credit (rules ! i) t0 T (bs' (make_state_key i s))
           \<le> credit (rules ! i) t0 T (bs (make_state_key i s)) + 2 * (of_int (rl_burst (rules ! i)) * unit_roundoff)"
proof -
  let ?r = "rules ! i" and ?k = "make_state_key i s"
  define b where "b = starting_bucket rnd (rules ! i) i s now bs"
  from g governing_bound [of 0 rules req i s] rules have r: "rate_rule_ok ?r" by simp
  note start = starting_credit [of "rules ! i" t0 T bs i s now, OF r bin t, folded b_def]
  then have "bucket_ok ?r b" by (simp add: bucket_in_def)
  from check_step [OF r b_def [symmetric] this] obtain w b' where
    step: "check_and_consume rnd ?r i s now bs = (w, bs(?k \<mapsto> b'))" and b': "bucket_ok ?r b'"
      "last_refill b' = max now (last_refill b)" and pay: "(if w = Inr None then 1 else 0) + tokens b'
           \<le> tokens b + inflow ?r (last_refill b' - last_refill b) + 2 * (of_int (rl_burst ?r) * unit_roundoff)"
    by metis
  from run g have app: "apply_rate_rule rnd (\<lambda>x. x) now ?r i s bs = (v, bs')"
    by (simp add: rate_limit_handle_def scan_governing)
  with apply_rule_state [of rnd now ?r i s bs] step have bs': "bs' ?k = Some b'" by simp
  have "passed v \<Longrightarrow> w = Inr None" using apply_rule_passed [of rnd "\<lambda>x. x" now ?r i s bs] app step by simp
  with pay have "(if passed v then 1 else 0) + tokens b'
      \<le> tokens b + inflow ?r (last_refill b' - last_refill b) + 2 * (of_int (rl_burst ?r) * unit_roundoff)"
    by (auto split: if_splits)
  moreover have "inflow ?r (T - last_refill b) = inflow ?r (T - last_refill b') + inflow ?r (last_refill b' - last_refill b)"
    using inflow_add [of ?r "T - last_refill b'" "last_refill b' - last_refill b"] by simp
  ultimately show ?thesis
    using start b' t by (auto simp: bs' credit_def bucket_in_def)
qed

theorem passed_for_credit:
  assumes "\<forall>r \<in> set rules. rate_rule_ok r" and "i < length rules"
    and "bucket_in (rules ! i) t0 T (bs (make_state_key i s))"
    and "0 < t0" and "list_all (\<lambda>(now, req). t0 \<le> now \<and> now \<le> T) evs" and "t0 \<le> T"
  shows "of_nat (passed_for rnd rules (i, s) evs bs)
           \<le> credit (rules ! i) t0 T (bs (make_state_key i s))
             + of_nat (requests_for rules (i, s) evs) * (2 * (of_int (rl_burst (rules ! i)) * unit_roundoff))"
  using assms
proof (induction evs arbitrary: bs)
  case Nil
  then have r: "rate_rule_ok (rules ! i)" by simp
  then have "0 \<le> rl_burst (rules ! i)" by (simp add: rate_rule_ok_def)
  with Nil show ?case
    by (auto simp: passed_for_def requests_for_def credit_def bucket_in_def bucket_ok_def
             split: option.splits intro!: add_nonneg_nonneg inflow_nonneg [OF r])
next
  case (Cons ev evs)
  obtain now req where ev: "ev = (now, req)" by fastforce
  obtain v bs' where run: "rate_limit_handle rnd (\<lambda>x. x) now rules req bs = (v, bs')" by fastforce
  show ?case
  proof (cases "governing 0 rules req = Some (i, s)")
    case True
    from handle_credit [OF Cons.prems(1) True Cons.prems(3,4) _ _ run] Cons.prems(5) ev
    have step: "bucket_in (rules ! i) t0 T (bs' (make_state_key i s))"
      "(if passed v then 1 else 0) + credit (rules ! i) t0 T (bs' (make_state_key i s))
         \<le> credit (rules ! i) t0 T (bs (make_state_key i s)) + 2 * (of_int (rl_burst (rules ! i)) * unit_roundoff)"
      by auto
    from Cons.IH [of bs'] Cons.prems step(1) show ?thesis
      using step(2) True run by (simp add: ev passed_for_Cons requests_for_def distrib_right split: if_splits)
  next
    case False
    with Cons.IH [of bs'] Cons.prems handle_other_key [OF False, of rnd now bs] run show ?thesis
      by (simp add: ev passed_for_Cons requests_for_def)
  qed
qed

end

context rounding
begin

lemma refill_keeps:
  assumes "rate_rule_ok r" and "bucket_ok r b" and "int m \<le> rl_burst r" and "of_nat m \<le> tokens b"
  shows "of_nat m \<le> tokens (refill rnd r now b)"
proof -
  let ?e = "elapsed_seconds rnd (now - last_refill b)"
  have "of_nat m \<le> rnd (tokens b + rnd (?e * rate_per_sec rnd r))" if "0 < ?e"
  proof -
    have "rnd (of_nat m) \<le> rnd (tokens b + rnd (?e * rate_per_sec rnd r))"
      using that assms rate_per_sec_pos [OF assms(1)] rnd_nonneg [of "?e * rate_per_sec rnd r"]
      by (intro rnd_mono) auto
    then show ?thesis using assms by (simp add: rnd_nat rate_rule_ok_def)
  qed
  moreover have "(of_nat m :: rat) \<le> of_int (rl_burst r)"
    using assms(3) by (metis of_int_le_iff of_int_of_nat_eq)
  ultimately show ?thesis
    using assms by (auto simp: refill_def Let_def burst_exact)
qed

lemma handle_grants:
  assumes rules: "\<forall>r \<in> set rules. rate_rule_ok r" and g: "governing 0 rules req = Some (i, s)"
    and ok: "pred_option (\<lambda>b. bucket_ok (rules ! i) b \<and> of_nat (Suc m) \<le> tokens b) (bs (make_state_key i s))"
    and m: "int (Suc m) \<le> rl_burst (rules ! i)"
    and run: "rate_limit_handle rnd (\<lambda>x. x) now rules req bs = (v, bs')"
  shows "passed v \<and> pred_option (\<lambda>b. bucket_ok (rules ! i) b \<and> of_nat m \<le> tokens b) (bs' (make_state_key i s))"
proof -
  let ?r = "rules ! i" and ?k = "make_state_key i s"
  define b where "b = refill rnd (rules ! i) now (starting_bucket rnd (rules ! i) i s now bs)"
  from g governing_bound [of 0 rules req i s] rules have r: "rate_rule_ok ?r" by simp
  have "(of_nat (Suc m) :: rat) \<le> of_int (rl_burst ?r)" using m by (metis of_int_le_iff of_int_of_nat_eq)
  then have start: "bucket_ok ?r (starting_bucket rnd ?r i s now bs)"
      "of_nat (Suc m) \<le> tokens (starting_bucket rnd ?r i s now bs)"
    using ok starting_bucket_ok [OF r, of bs i s now] burst_exact [OF r]
    by (auto simp: starting_bucket_def first_use_def new_bucket_def split: option.splits)
  have b: "bucket_ok ?r b" "1 + of_nat m \<le> tokens b"
    using refill_ok [OF r start(1)] refill_keeps [OF r start(1) m start(2)] by (simp_all add: b_def)
  let ?b' = "b\<lparr>tokens := rnd (tokens b - 1)\<rparr>"
  have "rnd (of_nat m) \<le> rnd (tokens b - 1)" using b(2) by (intro rnd_mono) auto
  moreover have "m \<le> 2 ^ 53" using m r by (simp add: rate_rule_ok_def)
  ultimately have left: "of_nat m \<le> tokens ?b'" "bucket_ok ?r ?b'"
    using take_token [OF r b(1)] b(2) by (auto simp: rnd_nat bucket_ok_def)
  have "1 \<le> tokens b" using b(2) of_nat_0_le_iff [of m, where 'a = rat] by linarith
  then have "check_and_consume rnd ?r i s now bs = (Inr None, bs(?k \<mapsto> ?b'))"
    by (simp add: check_and_consume_def Let_def b_def starting_bucket_def)
  moreover obtain n where "remaining_text ?r i s (bs(?k \<mapsto> ?b')) = Inr (show_int n)"
    using remaining_text_ok [OF r, of "bs(?k \<mapsto> ?b')" i s] left(2) by auto
  ultimately have "v = Inr (allowed_result ?r (show_int n))" "bs' = bs(?k \<mapsto> ?b')"
    using run g by (simp_all add: rate_limit_handle_def scan_governing apply_rate_rule_def Let_def)
  with left show ?thesis
    by (simp add: passed_def allowed_result_def res_add_response_header_def res_pass_def)
qed

theorem passed_for_burst:
  assumes "\<forall>r \<in> set rules. rate_rule_ok r" and "int m \<le> rl_burst (rules ! i)"
    and "pred_option (\<lambda>b. bucket_ok (rules ! i) b \<and> of_nat m \<le> tokens b) (bs (make_state_key i s))"
  shows "min m (requests_for rules (i, s) evs) \<le> passed_for rnd rules (i, s) evs bs"
  using assms
proof (induction evs arbitrary: m bs)
  case Nil
  then show ?case by (simp add: requests_for_def)
next
  case (Cons ev evs)
  obtain now req where ev: "ev = (now, req)" by fastforce
  obtain v bs' where run: "rate_limit_handle rnd (\<lambda>x. x) now rules req bs = (v, bs')" by fastforce
  show ?case
  proof (cases "governing 0 rules req = Some (i, s)")
    case True
    show ?thesis
    proof (cases m)
      case (Suc k)
      with handle_grants [OF Cons.prems(1) True _ _ run, of k] Cons.prems(2,3)
      have "passed v" "pred_option (\<lambda>b. bucket_ok (rules ! i) b \<and> of_nat k \<le> tokens b) (bs' (make_state_key i s))"
        by simp_all
      with Cons.IH [of k bs'] Cons.prems Suc True run show ?thesis
        by (simp add: ev passed_for_Cons requests_for_def)
    qed simp
  next
    case False
    with Cons.IH [of m bs'] Cons.prems handle_other_key [OF False, of rnd now bs] run show ?thesis
      by (simp add: ev passed_for_Cons requests_for_def)
  qed
qed

end

section \<open>What the limiter guarantees\<close>

definition key_of :: "rate_rule list \<Rightarrow> request \<Rightarrow> string set" where
  "key_of rules req = (case governing 0 rules req of None \<Rightarrow> {} | Some (i, s) \<Rightarrow> {make_state_key i s})"

lemma dom_check: "dom (snd (check_and_consume rnd r i s now bs)) = insert (make_state_key i s) (dom bs)"
  by (auto simp: check_and_consume_def Let_def)

lemma dom_handle: "dom (snd (rate_limit_handle rnd (\<lambda>x. x) now rules req bs)) = dom bs \<union> key_of rules req"
  by (auto simp: rate_limit_handle_def scan_governing apply_rule_state key_of_def dom_check split: option.splits)

lemma dom_serve_all:
  "dom (snd (serve_all rnd rules evs bs)) = dom bs \<union> (\<Union>(now, req) \<in> set evs. key_of rules req)"
proof (induction evs arbitrary: bs)
  case (Cons ev evs)
  obtain now req where ev: "ev = (now, req)" by fastforce
  with Cons [of "snd (rate_limit_handle rnd (\<lambda>x. x) now rules req bs)"] show ?case
    by (simp add: case_prod_unfold dom_handle Un_assoc)
qed simp

text \<open>
  C3 (bounds). The token bucket in machine arithmetic: let a module be created from a
  configuration and serve any sequence of requests from the start, with clock readings in any
  order between \<open>t0\<close> and \<open>T\<close>. Of the requests a rule counts for one subject, at most
  \<open>burst + limit / window * (T - t0)\<close> are passed on, up to a relative error of \<open>2\<^sup>-\<^sup>5\<^sup>0\<close> in the
  inflow and of \<open>burst * 2\<^sup>-\<^sup>5\<^sup>2\<close> tokens for each request, which is what rounding can add.
\<close>

theorem rate_limit_conforms:
  assumes "rate_limit_create config_text = Inr rules" and "i < length rules"
    and "0 < t0" and "t0 \<le> T" and "list_all (\<lambda>(now, req). t0 \<le> now \<and> now \<le> T) evs"
  shows "of_nat (passed_for rnd64 rules (i, subject) evs Map.empty)
           \<le> of_int (rl_burst (rules ! i))
             + of_int (rl_limit (rules ! i)) / of_int (rl_window_seconds (rules ! i))
               * (of_int (T - t0) / 1000000000) * (1 + 1 / 2 ^ 50)
             + of_nat (requests_for rules (i, subject) evs) * (of_int (rl_burst (rules ! i)) / 2 ^ 52 :: rat)"
proof -
  have u: "2 * (x * unit_roundoff) = x / 2 ^ 52" for x by (simp add: unit_roundoff_def)
  have "\<forall>r \<in> set rules. rate_rule_ok r" using rate_limit_create_ok [OF assms(1)] by blast
  from machine.passed_for_credit [OF this assms(2) _ assms(3,5,4), of Map.empty subject]
  show ?thesis by (simp only: bucket_in_def credit_def inflow_def option.simps option.pred_inject u HOL.simp_thms)
qed

text \<open>Nine requests with one key at one instant under \<open>2\<close> per minute: at most two pass.\<close>

definition limited_config :: string where
  "limited_config = ''rule=*|/api/*|header:K|2|1m''"

definition limited_rule :: rate_rule where
  "limited_rule = \<lparr>rl_method_pattern = ''*'', rl_target_pattern = ''/api/'', rl_target_kind = Prefix_pattern,
     rl_key_type = Key_header, rl_key_name = ''K'', rl_limit = 2, rl_window_seconds = 60, rl_burst = 2\<rparr>"

definition limited_request :: request where
  "limited_request = \<lparr>version_major = 1, version_minor = 1, req_method = ''GET'', target = ''/api/x'',
     req_headers = [\<lparr>hname = ''k'', hvalue = ''v''\<rparr>]\<rparr>"

lemma limited_create: "rate_limit_create limited_config = Inr [limited_rule]"
  by code_simp

lemma limited_governing: "governing 0 [limited_rule] limited_request = Some (0, ''v'')"
  by code_simp

theorem rate_limit_conforms_witness:
  "passed_for rnd64 [limited_rule] (0, ''v'') (replicate 9 (1000000000, limited_request)) Map.empty \<le> 2"
proof -
  have n: "requests_for [limited_rule] (0, ''v'') (replicate 9 (1000000000, limited_request)) = 9"
    by (simp add: requests_for_def limited_governing filter_replicate del: governing.simps)
  have b: "rl_burst ([limited_rule] ! 0) = 2" by (simp add: limited_rule_def)
  show ?thesis
    using rate_limit_conforms [OF limited_create, of 0 1000000000 1000000000
        "replicate 9 (1000000000, limited_request)" "''v''"]
    unfolding n b by (simp add: list_all_iff)
qed

text \<open>
  C26 (liveness). The limiter never refuses a subject within its burst: of the requests a rule counts for one
  subject from the start, at least the first \<open>burst\<close> (or all, if there are fewer) are passed on,
  whatever the clock reads and however other subjects' requests are interleaved.
\<close>

theorem rate_limit_grants_burst:
  assumes "rate_limit_create config_text = Inr rules" and "i < length rules"
  shows "min (nat (rl_burst (rules ! i))) (requests_for rules (i, subject) evs)
           \<le> passed_for rnd64 rules (i, subject) evs Map.empty"
proof -
  have ok: "\<forall>r \<in> set rules. rate_rule_ok r" using rate_limit_create_ok [OF assms(1)] by blast
  then have "rate_rule_ok (rules ! i)" using assms(2) by simp
  then have "0 \<le> rl_burst (rules ! i)" by (simp add: rate_rule_ok_def)
  then show ?thesis
    using machine.passed_for_burst [OF ok, of "nat (rl_burst (rules ! i))" i Map.empty subject evs] by simp
qed

theorem rate_limit_grants_burst_witness:
  "2 \<le> passed_for rnd64 [limited_rule] (0, ''v'') (replicate 9 (1000000000, limited_request)) Map.empty"
proof -
  have n: "requests_for [limited_rule] (0, ''v'') (replicate 9 (1000000000, limited_request)) = 9"
    by (simp add: requests_for_def limited_governing filter_replicate del: governing.simps)
  have b: "rl_burst ([limited_rule] ! 0) = 2" by (simp add: limited_rule_def)
  show ?thesis
    using rate_limit_grants_burst [OF limited_create, of 0 "''v''"
        "replicate 9 (1000000000, limited_request)"] unfolding n b by simp
qed

text \<open>
  C27 (type). The limiter's answers: it never throws and no conversion leaves the range of
  \<^verbatim>\<open>int\<close>. A request no rule governs passes unchanged; one that is governed passes with the
  rule's limit, a remaining count between 0 and \<open>burst\<close> and the window as response headers, or
  is answered 429 with a Retry-After between 1 and the window. This holds from any bucket
  state with \<open>0\<close> to \<open>burst\<close> tokens, whatever other workers do between the two critical
  sections, and the state stays such.
\<close>

theorem rate_limit_answers:
  assumes "rate_limit_create config_text = Inr rules" and "buckets_ok rules bs"
    and "\<And>bs. buckets_ok rules bs \<Longrightarrow> buckets_ok rules (between bs)"
    and "rate_limit_handle rnd64 between now rules req bs = (v, bs')"
  shows "buckets_ok rules bs' \<and>
         (case governing 0 rules req of
            None \<Rightarrow> v = Inr res_pass
          | Some (i, s) \<Rightarrow>
              (\<exists>n. 0 \<le> n \<and> n \<le> rl_burst (rules ! i) \<and> v = Inr (allowed_result (rules ! i) (show_int n))) \<or>
              (\<exists>n. 1 \<le> n \<and> n \<le> rl_window_seconds (rules ! i) \<and>
                 v = Inr (res_respond (too_many_requests (rules ! i) n))))"
  using machine.handle_answers [OF _ assms(2,3,4)] rate_limit_create_ok [OF assms(1)] by blast

theorem rate_limit_answers_witness:
  "(\<exists>n. 0 \<le> n \<and> n \<le> 2 \<and> fst (rate_limit_handle rnd64 (\<lambda>x. x) 5 [limited_rule] limited_request Map.empty) =
      Inr (allowed_result limited_rule (show_int n))) \<or>
   (\<exists>n. 1 \<le> n \<and> n \<le> 60 \<and> fst (rate_limit_handle rnd64 (\<lambda>x. x) 5 [limited_rule] limited_request Map.empty) =
      Inr (res_respond (too_many_requests limited_rule n)))"
proof -
  have "rl_burst limited_rule = 2" "rl_window_seconds limited_rule = 60" by (simp_all add: limited_rule_def)
  then show ?thesis
    using rate_limit_answers [OF limited_create, of Map.empty "\<lambda>x. x" 5 limited_request]
    by (cases "rate_limit_handle rnd64 (\<lambda>x. x) 5 [limited_rule] limited_request Map.empty")
      (simp add: buckets_ok_def limited_governing del: governing.simps)
qed

text \<open>
  Buckets are only ever added: after any sequence of requests there is exactly one bucket
  for each pair of a rule and a subject that was seen, and none is ever removed. The subject
  is a header value the client chooses, so the table grows with every new value.
\<close>

theorem rate_limit_buckets_accumulate:
  "dom (snd (serve_all rnd rules evs bs)) =
     dom bs \<union> {make_state_key i s | i s. list_ex (\<lambda>(now, req). governing 0 rules req = Some (i, s)) evs}"
  unfolding dom_serve_all by (fastforce simp: key_of_def list_ex_iff split: option.splits)

text \<open>
  \<^verbatim>\<open>Retry-After\<close> may fall short of the time until the next token: the waiting time is rounded up by adding 0.999, so a
  fraction below a millisecond is cut off. One token per thousand seconds, a bucket that lacks
  1.0005 seconds of refill: the answer says one second, and a retry after exactly one second is refused again.
\<close>

definition slow_rule :: rate_rule where
  "slow_rule = \<lparr>rl_method_pattern = ''*'', rl_target_pattern = ''/'', rl_target_kind = Prefix_pattern,
     rl_key_type = Key_global, rl_key_name = [], rl_limit = 1, rl_window_seconds = 1000, rl_burst = 1\<rparr>"

lemma retry_after_falls_short:
  "let b1 = refill rnd64 slow_rule 998999500001 \<lparr>tokens = 0, last_refill = 1\<rparr>;
       b2 = refill rnd64 slow_rule 999999500001 b1
   in tokens b1 < 1 \<and> retry_after rnd64 slow_rule (tokens b1) = Inr 1 \<and> tokens b2 < 1"
  by code_simp

end
