(* ===== verification/Command_Line.thy ===== *)
theory Command_Line
  imports Native_Path
begin

text \<open>
  Command-line parsing (\<^verbatim>\<open>src/src/app/command_line.cpp\<close>) and the server configuration it produces
  (\<^verbatim>\<open>src/src/server_config.h\<close>). The arguments are a list of strings with the program's name first; \<^verbatim>\<open>size_t\<close> values
  are naturals with the wrap-around written out.
\<close>

section \<open>Configuration\<close>

record tls_config =
  certificate_file :: string
  private_key_file :: string

record server_config =
  bind_address :: string
  port :: int
  www_root :: string
  module_config_dir :: string
  worker_threads :: nat
  connection_queue_capacity :: nat
  tls :: "tls_config option"

definition https_enabled :: "server_config \<Rightarrow> bool" where
  "https_enabled c \<longleftrightarrow> tls c \<noteq> None"

definition scheme :: "server_config \<Rightarrow> string" where
  "scheme c = (if https_enabled c then ''https'' else ''http'')"

record cli_options =
  opt_bind_address :: string
  opt_port :: "int option"
  opt_worker_threads :: "nat option"
  opt_queue_capacity :: "nat option"
  opt_module_config_dir :: "string option"
  opt_tls_certificate :: "string option"
  opt_tls_private_key :: "string option"

definition default_options :: cli_options where
  "default_options =
     \<lparr>opt_bind_address = ''127.0.0.1'', opt_port = None, opt_worker_threads = None,
      opt_queue_capacity = None, opt_module_config_dir = None, opt_tls_certificate = None,
      opt_tls_private_key = None\<rparr>"

section \<open>Values\<close>

definition parse_port :: "string \<Rightarrow> int option" where
  "parse_port v =
     (case from_chars_signed 32 v of
        None \<Rightarrow> None
      | Some (p, rest) \<Rightarrow> if rest \<noteq> [] then None else if p \<le> 0 \<or> p > 65535 then None else Some p)"

definition parse_count :: "string \<Rightarrow> nat option" where
  "parse_count v =
     (case from_chars_unsigned 64 v of
        None \<Rightarrow> None
      | Some (n, rest) \<Rightarrow> if rest \<noteq> [] \<or> n = 0 then None else Some n)"

section \<open>Defaults\<close>

definition https_requested :: "cli_options \<Rightarrow> bool" where
  "https_requested opts \<longleftrightarrow> opt_tls_certificate opts \<noteq> None \<or> opt_tls_private_key opts \<noteq> None"

definition default_worker_threads :: "environment \<Rightarrow> nat" where
  "default_worker_threads env = (if env_hardware_concurrency env = 0 then 4 else env_hardware_concurrency env)"

definition default_queue_capacity :: "nat \<Rightarrow> nat" where
  "default_queue_capacity workers = workers * 64 mod 2 ^ 64"

text \<open>The loop over the candidates: \<^verbatim>\<open>exists\<close> and, only if it holds, \<^verbatim>\<open>is_directory\<close>.\<close>

fun first_directory :: "environment \<Rightarrow> string list \<Rightarrow> string option result" where
  "first_directory env [] = Inr None"
| "first_directory env (c # cs) =
     bindE (env_exists env c) (\<lambda>present.
       if present then
         bindE (env_is_directory env c) (\<lambda>dir. if dir then Inr (Some c) else first_directory env cs)
       else first_directory env cs)"

definition default_module_config_dir :: "environment \<Rightarrow> string \<Rightarrow> string result" where
  "default_module_config_dir env program_path =
     bindE (if program_path \<noteq> []
            then bindE (env_absolute env program_path) (\<lambda>a. Inr [path_append (parent_path a) ''modules.d''])
            else Inr [])
       (\<lambda>own. let candidates = own @ [''modules.d'', ''/etc/garcon/modules.d''] in
          bindE (first_directory env candidates) (\<lambda>found.
            Inr (case found of Some c \<Rightarrow> c | None \<Rightarrow> hd candidates)))"

definition default_www_root :: "environment \<Rightarrow> string result" where
  "default_www_root env =
     bindE (env_exists env ''www'') (\<lambda>loc.
       if loc then Inr ''www''
       else bindE (env_exists env ''/usr/share/garcon/www'') (\<lambda>installed.
              Inr (if installed then ''/usr/share/garcon/www'' else ''www'')))"

definition value_or :: "'a option \<Rightarrow> 'a \<Rightarrow> 'a" where
  "value_or v d = (case v of None \<Rightarrow> d | Some x \<Rightarrow> x)"

text \<open>The arguments of \<^verbatim>\<open>value_or\<close> are evaluated in any case, so a failing default is an exception even
  when the option was given.\<close>

definition finalize_options :: "environment \<Rightarrow> cli_options \<Rightarrow> string \<Rightarrow> server_config result" where
  "finalize_options env opts program_path =
     throw_if ((opt_tls_certificate opts \<noteq> None) \<noteq> (opt_tls_private_key opts \<noteq> None))
       (Runtime_Error ''--tls-cert and --tls-key must be provided together'')
       (let workers = value_or (opt_worker_threads opts) (default_worker_threads env) in
        bindE (default_www_root env) (\<lambda>root.
        bindE (default_module_config_dir env program_path) (\<lambda>dir.
          Inr \<lparr>bind_address = opt_bind_address opts,
               port = value_or (opt_port opts) (if https_requested opts then 8443 else 8080),
               www_root = root,
               module_config_dir = value_or (opt_module_config_dir opts) dir,
               worker_threads = workers,
               connection_queue_capacity =
                 value_or (opt_queue_capacity opts) (default_queue_capacity workers),
               tls = (case (opt_tls_certificate opts, opt_tls_private_key opts) of
                        (Some c, Some k) \<Rightarrow> Some \<lparr>certificate_file = c, private_key_file = k\<rparr>
                      | _ \<Rightarrow> None)\<rparr>)))"

section \<open>Options\<close>

text \<open>\<open>rest\<close> are the arguments after the current one.\<close>

definition require_value :: "string list \<Rightarrow> string \<Rightarrow> (string \<times> string list) result" where
  "require_value rest option_name =
     (case rest of
        [] \<Rightarrow> Inl (Runtime_Error (''missing value for '' @ option_name))
      | v # rest' \<Rightarrow> Inr (v, rest'))"

definition parse_named_option :: "string \<Rightarrow> cli_options \<Rightarrow> string list \<Rightarrow> (cli_options \<times> string list) result" where
  "parse_named_option arg out rest =
     (if arg = ''--bind'' then
        bindE (require_value rest arg) (\<lambda>(v, r). Inr (out\<lparr>opt_bind_address := v\<rparr>, r))
      else if arg = ''--tls-cert'' then
        bindE (require_value rest arg) (\<lambda>(v, r). Inr (out\<lparr>opt_tls_certificate := Some v\<rparr>, r))
      else if arg = ''--tls-key'' then
        bindE (require_value rest arg) (\<lambda>(v, r). Inr (out\<lparr>opt_tls_private_key := Some v\<rparr>, r))
      else if arg = ''--modules-dir'' then
        bindE (require_value rest arg) (\<lambda>(v, r). Inr (out\<lparr>opt_module_config_dir := Some v\<rparr>, r))
      else if arg = ''--workers'' then
        bindE (require_value rest arg) (\<lambda>(v, r).
          case parse_count v of
            None \<Rightarrow> Inl (Runtime_Error ''invalid worker count'')
          | Some n \<Rightarrow> Inr (out\<lparr>opt_worker_threads := Some n\<rparr>, r))
      else if arg = ''--queue-capacity'' then
        bindE (require_value rest arg) (\<lambda>(v, r).
          case parse_count v of
            None \<Rightarrow> Inl (Runtime_Error ''invalid queue capacity'')
          | Some n \<Rightarrow> Inr (out\<lparr>opt_queue_capacity := Some n\<rparr>, r))
      else if arg = ''--port'' then
        bindE (require_value rest arg) (\<lambda>(v, r).
          case parse_port v of
            None \<Rightarrow> Inl (Runtime_Error ''invalid port'')
          | Some p \<Rightarrow> Inr (out\<lparr>opt_port := Some p\<rparr>, r))
      else Inl (Runtime_Error ''unknown option''))"

lemma require_value_shorter: "require_value rest arg = Inr (v, r) \<Longrightarrow> length r < length rest"
  by (cases rest) (auto simp: require_value_def)

lemma parse_named_option_shorter:
  "parse_named_option arg out rest = Inr (out', r) \<Longrightarrow> length r < length rest"
  by (auto simp: parse_named_option_def outcome_simps dest: require_value_shorter
           split: if_splits option.splits)

datatype command_line_result = Show_help | Show_version | Run_with server_config

datatype scanned = Scan_help | Scan_version | Scan_options cli_options

function scan_arguments :: "cli_options \<Rightarrow> string list \<Rightarrow> scanned result" where
  "scan_arguments out [] = Inr (Scan_options out)"
| "scan_arguments out (arg # rest) =
     (if arg = ''--help'' then Inr Scan_help
      else if arg = ''--version'' then Inr Scan_version
      else if arg \<noteq> [] \<and> hd arg = CHR ''-'' then
        (case parse_named_option arg out rest of
           Inl e \<Rightarrow> Inl e
         | Inr (out', rest') \<Rightarrow> scan_arguments out' rest')
      else (case parse_port arg of
              None \<Rightarrow> Inl (Runtime_Error ''invalid port'')
            | Some p \<Rightarrow> scan_arguments (out\<lparr>opt_port := Some p\<rparr>) rest))"
  by pat_completeness auto
termination
  by (relation "measure (\<lambda>(out, args). length args)") (auto dest: parse_named_option_shorter)

definition command_line_parse :: "environment \<Rightarrow> string list \<Rightarrow> command_line_result result" where
  "command_line_parse env argv =
     bindE (scan_arguments default_options (drop 1 argv)) (\<lambda>s.
       case s of
         Scan_help \<Rightarrow> Inr Show_help
       | Scan_version \<Rightarrow> Inr Show_version
       | Scan_options opts \<Rightarrow>
           bindE (finalize_options env opts (case argv of [] \<Rightarrow> [] | prog # _ \<Rightarrow> prog))
             (\<lambda>c. Inr (Run_with c)))"

definition usage :: "string list \<Rightarrow> string" where
  "usage argv =
     ''usage: '' @ (case argv of [] \<Rightarrow> ''garcon'' | prog # _ \<Rightarrow> prog) @
     '' [port] [--bind ADDRESS] [--port PORT]'' @
     '' [--modules-dir DIR]'' @
     '' [--workers N] [--queue-capacity N]'' @
     '' [--tls-cert PATH --tls-key PATH]'' @
     '' [--help] [--version]'' @ [LF]"

section \<open>The grammar of accepted command lines\<close>

text \<open>An option with its value, or a port on its own.\<close>

datatype cli_item = Named string string | Bare string

fun render_item :: "cli_item \<Rightarrow> string list" where
  "render_item (Named name v) = [name, v]"
| "render_item (Bare v) = [v]"

text \<open>What an item does to the options; \<open>None\<close> for an unknown option or a value it does not take.\<close>

fun apply_item :: "cli_item \<Rightarrow> cli_options \<Rightarrow> cli_options option" where
  "apply_item (Named name v) out =
     (if name = ''--bind'' then Some (out\<lparr>opt_bind_address := v\<rparr>)
      else if name = ''--tls-cert'' then Some (out\<lparr>opt_tls_certificate := Some v\<rparr>)
      else if name = ''--tls-key'' then Some (out\<lparr>opt_tls_private_key := Some v\<rparr>)
      else if name = ''--modules-dir'' then Some (out\<lparr>opt_module_config_dir := Some v\<rparr>)
      else if name = ''--workers'' then map_option (\<lambda>n. out\<lparr>opt_worker_threads := Some n\<rparr>) (parse_count v)
      else if name = ''--queue-capacity'' then map_option (\<lambda>n. out\<lparr>opt_queue_capacity := Some n\<rparr>) (parse_count v)
      else if name = ''--port'' then map_option (\<lambda>p. out\<lparr>opt_port := Some p\<rparr>) (parse_port v)
      else None)"
| "apply_item (Bare v) out = map_option (\<lambda>p. out\<lparr>opt_port := Some p\<rparr>) (parse_port v)"

fun apply_items :: "cli_item list \<Rightarrow> cli_options \<Rightarrow> cli_options option" where
  "apply_items [] out = Some out"
| "apply_items (x # xs) out = (case apply_item x out of None \<Rightarrow> None | Some out' \<Rightarrow> apply_items xs out')"

lemma parse_named_option_item:
  "parse_named_option arg out rest = Inr (out', r) \<longleftrightarrow>
     (\<exists>v. rest = v # r \<and> apply_item (Named arg v) out = Some out')"
proof (cases rest)
  case Nil
  then show ?thesis by (simp add: parse_named_option_def require_value_def)
next
  case (Cons v r')
  have "parse_named_option arg out (v # r') =
      (case apply_item (Named arg v) out of
         Some out' \<Rightarrow> Inr (out', r')
       | None \<Rightarrow> Inl (Runtime_Error (if arg = ''--workers'' then ''invalid worker count''
                                   else if arg = ''--queue-capacity'' then ''invalid queue capacity''
                                   else if arg = ''--port'' then ''invalid port'' else ''unknown option'')))"
    by (cases "parse_count v"; cases "parse_port v")
      (simp_all add: parse_named_option_def require_value_def)
  with Cons show ?thesis by (cases "apply_item (Named arg v) out") auto
qed

lemma apply_named_name:
  "apply_item (Named name v) out = Some out' \<Longrightarrow>
     name \<noteq> [] \<and> hd name = CHR ''-'' \<and> name \<noteq> ''--help'' \<and> name \<noteq> ''--version''"
  by (auto split: if_splits)

lemma parse_port_bounds: "parse_port v = Some p \<Longrightarrow> 1 \<le> p \<and> p \<le> 65535"
  by (auto simp: parse_port_def split: option.splits if_splits)

lemma parse_port_first:
  assumes "parse_port v = Some p"
  shows "v \<noteq> [] \<and> hd v \<noteq> CHR ''-''"
proof -
  from assms obtain r where v: "from_chars_signed 32 v = Some (p, r)" and p: "p > 0"
    by (auto simp: parse_port_def split: option.splits if_splits)
  then show ?thesis
    by (cases v) (auto simp: from_chars_signed_def Let_def split: if_splits)
qed

lemma parse_count_bounds: "parse_count v = Some n \<Longrightarrow> 1 \<le> n \<and> n < 2 ^ 64"
  by (auto simp: parse_count_def from_chars_unsigned_def Let_def split: option.splits if_splits)

lemma scan_items:
  "apply_items items out = Some opts \<Longrightarrow>
     scan_arguments out (concat (map render_item items)) = Inr (Scan_options opts)"
proof (induction items arbitrary: out)
  case (Cons x xs)
  then obtain out' where x: "apply_item x out = Some out'" "apply_items xs out' = Some opts"
    by (auto split: option.splits)
  note IH = Cons.IH [OF x(2)]
  show ?case
  proof (cases x)
    case (Named name v)
    with x(1) have "parse_named_option name out (v # concat (map render_item xs)) = Inr (out', concat (map render_item xs))"
      by (simp only: parse_named_option_item) blast
    with Named IH apply_named_name x(1) show ?thesis by auto
  next
    case (Bare v)
    then obtain p where "parse_port v = Some p" "out' = out\<lparr>opt_port := Some p\<rparr>" using x(1) by auto
    with Bare IH parse_port_first [of v p] show ?thesis by auto
  qed
qed simp

lemma items_of_scan:
  "scan_arguments out args = Inr (Scan_options opts) \<Longrightarrow>
     \<exists>items. args = concat (map render_item items) \<and> apply_items items out = Some opts"
proof (induction out args rule: scan_arguments.induct)
  case (1 out)
  then show ?case by (auto intro: exI [of _ "[]"])
next
  case (2 out arg rest)
  show ?case
  proof (cases "hd arg = CHR ''-'' \<and> arg \<noteq> []")
    case True
    with 2(3) obtain out' rest' where o: "parse_named_option arg out rest = Inr (out', rest')"
        "scan_arguments out' rest' = Inr (Scan_options opts)" and h: "arg \<noteq> ''--help''" "arg \<noteq> ''--version''"
      by (auto split: if_splits sum.splits prod.splits)
    with 2(1) True obtain items where "rest' = concat (map render_item items)" "apply_items items out' = Some opts"
      by blast
    moreover obtain v where "rest = v # rest'" "apply_item (Named arg v) out = Some out'"
      using o(1) parse_named_option_item by blast
    ultimately show ?thesis by (intro exI [of _ "Named arg v # items"]) simp
  next
    case False
    with 2(3) obtain p where p: "parse_port arg = Some p"
        "scan_arguments (out\<lparr>opt_port := Some p\<rparr>) rest = Inr (Scan_options opts)"
      and h: "arg \<noteq> ''--help''" "arg \<noteq> ''--version''"
      by (auto split: if_splits option.splits)
    with 2(2) False obtain items where "rest = concat (map render_item items)"
        "apply_items items (out\<lparr>opt_port := Some p\<rparr>) = Some opts" by blast
    with p(1) show ?thesis by (intro exI [of _ "Bare arg # items"]) simp
  qed
qed

lemma command_line_run_iff:
  "command_line_parse env argv = Inr (Run_with c) \<longleftrightarrow>
     (\<exists>opts. scan_arguments default_options (drop 1 argv) = Inr (Scan_options opts) \<and>
        finalize_options env opts (case argv of [] \<Rightarrow> [] | prog # _ \<Rightarrow> prog) = Inr c)"
proof (cases "scan_arguments default_options (drop 1 argv)")
  case (Inr s)
  then show ?thesis by (cases s) (auto simp: command_line_parse_def outcome_simps)
qed (simp add: command_line_parse_def)

text \<open>
  C33 (equivalence). The command lines that start the server are exactly the sequences of
  options with an acceptable value each and of bare ports; the options take effect from left
  to right (a later one overrides an earlier one), and the configuration is what
  \<^verbatim>\<open>finalize_options\<close> makes of the result.
\<close>

theorem command_line_iff_items:
  "command_line_parse env (prog # args) = Inr (Run_with c) \<longleftrightarrow>
     (\<exists>items opts. args = concat (map render_item items) \<and>
        apply_items items default_options = Some opts \<and> finalize_options env opts prog = Inr c)"
  unfolding command_line_run_iff using scan_items items_of_scan by auto blast+

section \<open>What a configuration satisfies\<close>

definition options_ok :: "cli_options \<Rightarrow> bool" where
  "options_ok opts \<longleftrightarrow>
     pred_option (\<lambda>p. 1 \<le> p \<and> p \<le> 65535) (opt_port opts) \<and>
     pred_option (\<lambda>n. 1 \<le> n \<and> n < 2 ^ 64) (opt_worker_threads opts) \<and>
     pred_option (\<lambda>n. 1 \<le> n \<and> n < 2 ^ 64) (opt_queue_capacity opts)"

lemma apply_item_ok: "apply_item x out = Some out' \<Longrightarrow> options_ok out \<Longrightarrow> options_ok out'"
  using parse_port_bounds parse_count_bounds
  by (cases x) (auto simp: options_ok_def split: if_splits)

lemma apply_items_ok: "apply_items xs out = Some out' \<Longrightarrow> options_ok out \<Longrightarrow> options_ok out'"
  by (induction xs arbitrary: out) (auto split: option.splits dest: apply_item_ok)

lemma command_line_options:
  assumes "command_line_parse env argv = Inr (Run_with c)"
  obtains opts prog where "options_ok opts" and "finalize_options env opts prog = Inr c"
proof -
  from assms obtain opts prog where s: "scan_arguments default_options (drop 1 argv) = Inr (Scan_options opts)"
      "finalize_options env opts prog = Inr c"
    by (auto simp: command_line_run_iff)
  from items_of_scan [OF s(1)] have "options_ok opts"
    using apply_items_ok by (fastforce simp: options_ok_def default_options_def)
  with s(2) show ?thesis using that by blast
qed

text \<open>
  Every configuration the parser produces has a port from 1 to 65535, between 1 and
  \<open>2\<^sup>6\<^sup>4 - 1\<close> workers, certificate and key together or neither, port 8443 or 8080 by default
  according to TLS, and a queue capacity of at least 1, provided there are fewer than \<open>2\<^sup>5\<^sup>8\<close>
  workers (beyond, the default capacity wraps around).
\<close>

theorem command_line_config_valid:
  assumes "command_line_parse env argv = Inr (Run_with c)" and "env_hardware_concurrency env < 2 ^ 32"
  shows "1 \<le> port c \<and> port c \<le> 65535 \<and> 1 \<le> worker_threads c \<and> worker_threads c < 2 ^ 64 \<and>
         connection_queue_capacity c < 2 ^ 64 \<and>
         (worker_threads c < 2 ^ 58 \<longrightarrow> 1 \<le> connection_queue_capacity c)"
proof -
  obtain opts prog where ok: "options_ok opts" and f: "finalize_options env opts prog = Inr c"
    using command_line_options [OF assms(1)] .
  from f have c: "port c = value_or (opt_port opts) (if https_requested opts then 8443 else 8080)"
      "worker_threads c = value_or (opt_worker_threads opts) (default_worker_threads env)"
      "connection_queue_capacity c = value_or (opt_queue_capacity opts) (default_queue_capacity (worker_threads c))"
    by (auto simp: finalize_options_def outcome_simps Let_def)
  have p: "1 \<le> port c \<and> port c \<le> 65535"
    unfolding c(1) using ok by (cases "opt_port opts") (simp_all add: value_or_def options_ok_def)
  have w: "1 \<le> worker_threads c \<and> worker_threads c < 2 ^ 64"
    unfolding c(2) using ok assms(2)
    by (cases "opt_worker_threads opts") (simp_all add: value_or_def options_ok_def default_worker_threads_def)
  have q: "connection_queue_capacity c < 2 ^ 64 \<and> (worker_threads c < 2 ^ 58 \<longrightarrow> 1 \<le> connection_queue_capacity c)"
    unfolding c(3) using ok w
    by (cases "opt_queue_capacity opts") (simp_all add: value_or_def options_ok_def default_queue_capacity_def)
  from p w q show ?thesis by blast
qed

text \<open>A machine with no file of interest.\<close>

definition bare_machine :: environment where
  "bare_machine =
     \<lparr>env_hardware_concurrency = 8, env_absolute = (\<lambda>p. Inr (''/'' @ p)), env_exists = (\<lambda>p. Inr False),
      env_is_directory = (\<lambda>p. Inr False), env_read_dir = (\<lambda>p. Inr []), env_open = (\<lambda>p. None)\<rparr>"

definition bare_config :: "int \<Rightarrow> nat \<Rightarrow> server_config" where
  "bare_config p n =
     \<lparr>bind_address = ''127.0.0.1'', port = p, www_root = ''www'', module_config_dir = ''/modules.d'',
      worker_threads = n, connection_queue_capacity = n * 64 mod 2 ^ 64, tls = None\<rparr>"

lemma bare_finalize:
  "finalize_options bare_machine (default_options\<lparr>opt_port := Some p, opt_worker_threads := Some n\<rparr>) ''garcon'' =
     Inr (bare_config p n)"
  by (simp add: finalize_options_def default_options_def bare_machine_def default_www_root_def
      default_module_config_dir_def parent_path_def path_append_def is_absolute_def value_or_def
      default_queue_capacity_def bare_config_def https_requested_def)

lemma count_of_digits:
  "list_all is_digit v \<Longrightarrow> v \<noteq> [] \<Longrightarrow> digits_value v < 2 ^ 64 \<Longrightarrow> digits_value v \<noteq> 0 \<Longrightarrow>
     parse_count v = Some (digits_value v)"
  by (simp add: parse_count_def from_chars_unsigned_def Let_def list_all_iff takeWhile_eq_all_conv [THEN iffD2]
      dropWhile_eq_Nil_conv [THEN iffD2])

lemma bare_parse:
  assumes "parse_port p = Some pn" and "parse_count v = Some n"
  shows "command_line_parse bare_machine [''garcon'', p, ''--workers'', v] = Inr (Run_with (bare_config pn n))"
  using assms parse_port_first [OF assms(1)] bare_finalize [of n pn]
  by (auto simp: command_line_parse_def parse_named_option_def require_value_def default_options_def)

theorem command_line_config_valid_witness:
  "1 \<le> port (bare_config 8081 2) \<and> connection_queue_capacity (bare_config 8081 2) = 128"
proof -
  have p: "parse_port ''8081'' = Some 8081" by code_simp
  have "parse_count ''2'' = Some 2" using count_of_digits [of "''2''"] by (simp add: is_digit_def in_range_def digits_value_def digit_value_def)
  from command_line_config_valid [OF bare_parse [OF p this]] show ?thesis
    by (simp add: bare_machine_def bare_config_def)
qed

text \<open>With \<open>2\<^sup>5\<^sup>8\<close> workers requested and no capacity given, the default capacity is zero.\<close>

lemma default_capacity_wraps:
  "command_line_parse bare_machine [''garcon'', ''8081'', ''--workers'', ''288230376151711744''] =
     Inr (Run_with (bare_config 8081 (2 ^ 58))) \<and> connection_queue_capacity (bare_config 8081 (2 ^ 58)) = 0"
proof -
  have p: "parse_port ''8081'' = Some 8081" by code_simp
  have "parse_count ''288230376151711744'' = Some (2 ^ 58)"
    using count_of_digits [of "''288230376151711744''"]
    by (simp add: is_digit_def in_range_def digits_value_def digit_value_def)
  from bare_parse [OF p this] show ?thesis by (simp add: bare_config_def)
qed

end
