(* ===== verification/Module_Loader.thy ===== *)
theory Module_Loader
  imports Command_Line Static_Files "HOL-Library.List_Lexorder" "HOL-Library.Char_ord" "HOL-Library.Multiset"
begin

text \<open>
  From the configuration directory to the request pipeline: \<^verbatim>\<open>src/src/app/module_config.cpp\<close>, the
  constructor and destructor in dynamic_module.cpp, the creation entry point of
  module_cpp.h and \<^verbatim>\<open>create_request_handler\<close> of server.cpp. What the dynamic linker does with a
  library is a parameter; acquiring and releasing libraries and instances is a trace.
\<close>

section \<open>Module configuration files (module_config.cpp)\<close>

record configured_module =
  library_file :: string
  cm_config_directory :: string
  cm_config_text :: string

definition read_text_file :: "environment \<Rightarrow> string \<Rightarrow> string result" where
  "read_text_file env file =
     (case env_open env file of
        None \<Rightarrow> Inl (Runtime_Error (''failed to open module config file: '' @ file))
      | Some bytes \<Rightarrow> Inr bytes)"

text \<open>The library a value of \<^verbatim>\<open>path=\<close> in \<open>file\<close> names; when \<^verbatim>\<open>absolute\<close> fails the path stays as it is.\<close>

definition resolve_library :: "environment \<Rightarrow> string \<Rightarrow> string \<Rightarrow> string" where
  "resolve_library env file v =
     (let p = (if \<not> is_absolute v then path_append (parent_path file) v else v)
      in case env_absolute env p of Inl _ \<Rightarrow> p | Inr a \<Rightarrow> a)"

text \<open>module_config.cpp's own \<^verbatim>\<open>trim\<close>.\<close>

definition mc_trim :: "string \<Rightarrow> string" where
  "mc_trim v = trim_with isspace v"

lemma mc_trim_eq [simp]: "mc_trim = trim"
  by (simp add: fun_eq_iff mc_trim_def trim_def)

fun library_from :: "environment \<Rightarrow> string \<Rightarrow> string list \<Rightarrow> string result" where
  "library_from env file [] = Inl (Runtime_Error (''missing path= entry in module config file: '' @ file))"
| "library_from env file (line # rest) =
     (case sv_find_char line (CHR ''='') 0 of
        None \<Rightarrow> library_from env file rest
      | Some eq \<Rightarrow>
          if mc_trim (sv_substr line 0 eq) = ''path'' then
            (let v = mc_trim (drop (eq + 1) line) in
             throw_if (v = []) (Runtime_Error (''empty path= entry in module config file: '' @ file))
               (Inr (resolve_library env file v)))
          else library_from env file rest)"

definition parse_library_path :: "environment \<Rightarrow> string \<Rightarrow> string \<Rightarrow> string result" where
  "parse_library_path env file config_text = library_from env file (config_lines config_text)"

definition load_module_file :: "environment \<Rightarrow> string \<Rightarrow> configured_module result" where
  "load_module_file env file =
     bindE (read_text_file env file) (\<lambda>config_text.
     bindE (parse_library_path env file config_text) (\<lambda>lib.
       Inr \<lparr>library_file = lib, cm_config_directory = parent_path file, cm_config_text = config_text\<rparr>))"

text \<open>The directory loop: \<^verbatim>\<open>is_regular_file\<close> may throw.\<close>

fun conf_names :: "(string \<times> bool result) list \<Rightarrow> string list result" where
  "conf_names [] = Inr []"
| "conf_names ((name, regular) # es) =
     bindE regular (\<lambda>reg.
     bindE (conf_names es) (\<lambda>names.
       Inr (if \<not> reg then names else if extension [name] \<noteq> ''.conf'' then names else name # names)))"

text \<open>
  The outer sum is an exception, the inner one the \<^verbatim>\<open>std::expected\<close>. The entries share the
  directory, so comparing the paths is comparing the names byte by byte.
\<close>

definition load_configured_modules ::
    "environment \<Rightarrow> string \<Rightarrow> (string + configured_module list) result" where
  "load_configured_modules env directory =
     (if env_exists env directory \<noteq> Inr True \<or> env_is_directory env directory \<noteq> Inr True
      then Inr (Inl (''module config directory does not exist: '' @ directory))
      else bindE (bindE (env_read_dir env directory) conf_names) (\<lambda>names.
        case traverse (load_module_file env) (map (path_append directory) (sort names)) of
          Inl e \<Rightarrow> Inr (Inl (what_of e))
        | Inr modules \<Rightarrow>
            Inr (if modules = [] then Inl (''no module config files found in: '' @ directory) else Inr modules)))"

section \<open>Entry points of a library (module_abi.h, module_cpp.h)\<close>

record garcon_host_api =
  ha_abi_version :: nat
  ha_default_document_root :: garcon_string_view
  ha_config_directory :: garcon_string_view

text \<open>
  \<open>md_create\<close> is \<open>Inl\<close> for a null instance, with the error message if one was set; an instance
  is what the descriptor's \<^verbatim>\<open>handle\<close> does with it.
\<close>

record 'w garcon_module_descriptor =
  md_abi_version :: nat
  md_name :: "string option"
  md_create :: "garcon_host_api \<Rightarrow> string \<Rightarrow> string option + 'w abi_handle"
  md_has_destroy :: bool

text \<open>\<^verbatim>\<open>host_context::to_string_view\<close>\<close>

definition to_string_view :: "garcon_string_view \<Rightarrow> string" where
  "to_string_view v = (case v of None \<Rightarrow> [] | Some s \<Rightarrow> s)"

definition make_host_context :: "garcon_host_api \<Rightarrow> host_context" where
  "make_host_context host =
     \<lparr>host_default_document_root = to_string_view (ha_default_document_root host),
      host_config_directory = to_string_view (ha_config_directory host)\<rparr>"

type_synonym 'w constructor = "host_context \<Rightarrow> string \<Rightarrow> 'w implementation result"

text \<open>\<^verbatim>\<open>detail::create<Module>\<close> on non-null arguments\<close>

definition export_create ::
    "'w constructor \<Rightarrow> garcon_host_api \<Rightarrow> string \<Rightarrow> string option + 'w abi_handle" where
  "export_create new host config =
     (case new (make_host_context host) config of
        Inl e \<Rightarrow> Inl (Some (what_of e))
      | Inr impl \<Rightarrow> Inr (Some (\<lambda>x w. case export_handle impl x w of (out, x', w') \<Rightarrow> (Some (out, x'), w'))))"

definition make_descriptor :: "string \<Rightarrow> 'w constructor \<Rightarrow> 'w garcon_module_descriptor" where
  "make_descriptor name new =
     \<lparr>md_abi_version = GARCON_MODULE_ABI_VERSION, md_name = Some name, md_create = export_create new,
      md_has_destroy = True\<rparr>"

section \<open>Loading and unloading (dynamic_module.cpp)\<close>

text \<open>
  The dynamic linker: the text of \<^verbatim>\<open>dlerror\<close> when the library does not open, else what
  looking up the entry point gives (again an error text, or the descriptor, \<open>None\<close> if null).
\<close>

type_synonym 'w linker =
  "string \<Rightarrow> string option + (string option + 'w garcon_module_descriptor option)"

datatype load_event =
    Dl_open string
  | Mod_create string
  | Mod_destroy string
  | Dl_close string

record 'w dynamic_module =
  dm_library :: string
  dm_name :: string
  dm_handle :: "'w abi_handle"
  dm_destroy :: bool

definition require_dlerror :: "string \<Rightarrow> string option \<Rightarrow> string" where
  "require_dlerror operation detail =
     (case detail of None \<Rightarrow> operation | Some d \<Rightarrow> operation @ '': '' @ d)"

text \<open>\<^verbatim>\<open>std::string::c_str\<close> read as a C string\<close>

definition c_string :: "string \<Rightarrow> string" where
  "c_string s = takeWhile (\<lambda>c. c \<noteq> CHR 0x00) s"

definition descriptor_name :: "string \<Rightarrow> 'w garcon_module_descriptor \<Rightarrow> string" where
  "descriptor_name lib d =
     (case md_name d of
        Some n \<Rightarrow> if c_string n \<noteq> [] then c_string n else path_filename lib
      | None \<Rightarrow> path_filename lib)"

definition make_host_api :: "string \<Rightarrow> server_config \<Rightarrow> garcon_host_api" where
  "make_host_api config_directory config =
     \<lparr>ha_abi_version = GARCON_MODULE_ABI_VERSION,
      ha_default_document_root = make_string_view (www_root config),
      ha_config_directory = make_string_view config_directory\<rparr>"

text \<open>After \<^verbatim>\<open>dlopen\<close> has succeeded: the checks on the descriptor and the instance.\<close>

definition instantiate ::
    "string \<Rightarrow> string \<Rightarrow> string \<Rightarrow> server_config \<Rightarrow> string option + 'w garcon_module_descriptor option
       \<Rightarrow> 'w dynamic_module result" where
  "instantiate lib config_directory config_text config entry =
     (case entry of
        Inl detail \<Rightarrow> Inl (Runtime_Error (require_dlerror ''dlsym() failed'' detail))
      | Inr None \<Rightarrow> Inl (Runtime_Error ''module entrypoint returned a null descriptor'')
      | Inr (Some d) \<Rightarrow>
          throw_if (md_abi_version d \<noteq> GARCON_MODULE_ABI_VERSION)
            (Runtime_Error (''module ABI mismatch for: '' @ lib))
            (case md_create d (make_host_api config_directory config) (c_string config_text) of
               Inl msg \<Rightarrow>
                 Inl (Runtime_Error (''failed to create module '' @ [CHR 0x27] @ descriptor_name lib d @ [CHR 0x27] @
                   '': '' @ (case msg of None \<Rightarrow> ''module create() failed'' | Some m \<Rightarrow> m)))
             | Inr h \<Rightarrow>
                 Inr \<lparr>dm_library = lib, dm_name = descriptor_name lib d, dm_handle = h,
                      dm_destroy = md_has_destroy d\<rparr>))"

text \<open>The constructor: a failure after \<^verbatim>\<open>dlopen\<close> closes the library again.\<close>

definition dynamic_module_create ::
    "'w linker \<Rightarrow> server_config \<Rightarrow> configured_module \<Rightarrow> 'w dynamic_module result \<times> load_event list" where
  "dynamic_module_create ld config cm =
     (let lib = library_file cm in
      case ld lib of
        Inl detail \<Rightarrow> (Inl (Runtime_Error (require_dlerror ''dlopen() failed'' detail)), [])
      | Inr entry \<Rightarrow>
          (case instantiate lib (cm_config_directory cm) (cm_config_text cm) config entry of
             Inl e \<Rightarrow> (Inl e, [Dl_open lib, Dl_close lib])
           | Inr m \<Rightarrow> (Inr m, [Dl_open lib, Mod_create lib])))"

definition dynamic_module_destroy :: "'w dynamic_module \<Rightarrow> load_event list" where
  "dynamic_module_destroy m =
     (if dm_destroy m then [Mod_destroy (dm_library m)] else []) @ [Dl_close (dm_library m)]"

section \<open>Building the pipeline (server.cpp)\<close>

text \<open>
  The loop of \<^verbatim>\<open>create_request_handler\<close>; when a module cannot be created the exception destroys the
  pipeline and with it the modules added so far.
\<close>

fun load_modules ::
    "'w linker \<Rightarrow> server_config \<Rightarrow> 'w dynamic_module list \<Rightarrow> configured_module list
       \<Rightarrow> 'w dynamic_module list result \<times> load_event list" where
  "load_modules ld config pipeline [] = (Inr pipeline, [])"
| "load_modules ld config pipeline (cm # cms) =
     (case dynamic_module_create ld config cm of
        (Inl e, tr) \<Rightarrow> (Inl e, tr @ concat (map dynamic_module_destroy pipeline))
      | (Inr m, tr) \<Rightarrow>
          (case load_modules ld config (pipeline @ [m]) cms of (res, tr') \<Rightarrow> (res, tr @ tr')))"

definition create_request_handler ::
    "environment \<Rightarrow> 'w linker \<Rightarrow> server_config \<Rightarrow> 'w dynamic_module list result \<times> load_event list" where
  "create_request_handler env ld config =
     (case load_configured_modules env (module_config_dir config) of
        Inl e \<Rightarrow> (Inl e, [])
      | Inr (Inl msg) \<Rightarrow> (Inl (Runtime_Error msg), [])
      | Inr (Inr cms) \<Rightarrow> load_modules ld config [] cms)"

definition loaded_pipeline :: "'w dynamic_module list \<Rightarrow> 'w req_module list" where
  "loaded_pipeline ms = map (\<lambda>m. dynamic_module_handle (dm_handle m)) ms"

section \<open>Which modules are configured\<close>

lemma library_from_get:
  "library_from env file ls =
     (case get_from ls ''path'' of
        None \<Rightarrow> Inl (Runtime_Error (''missing path= entry in module config file: '' @ file))
      | Some v \<Rightarrow> throw_if (v = []) (Runtime_Error (''empty path= entry in module config file: '' @ file))
                    (Inr (resolve_library env file v)))"
  by (induction ls) (auto simp: Let_def split: option.splits)

text \<open>The module a configuration file describes.\<close>

definition describes :: "environment \<Rightarrow> string \<Rightarrow> configured_module \<Rightarrow> bool" where
  "describes env file cm \<longleftrightarrow>
     env_open env file = Some (cm_config_text cm) \<and> cm_config_directory cm = parent_path file \<and>
     (\<exists>v. config_get (cm_config_text cm) ''path'' = Some v \<and> v \<noteq> [] \<and> library_file cm = resolve_library env file v)"

lemma load_module_file_iff: "load_module_file env file = Inr cm \<longleftrightarrow> describes env file cm"
  by (cases cm) (auto simp: load_module_file_def read_text_file_def parse_library_path_def library_from_get
      config_get_def describes_def outcome_simps split: option.splits)

lemma conf_names_Inr:
  "conf_names es = Inr names \<longleftrightarrow>
     list_all (\<lambda>(n, r). r \<in> range Inr) es \<and>
     names = map fst (filter (\<lambda>(n, r). r = Inr True \<and> extension [n] = ''.conf'') es)"
proof (induction es arbitrary: names)
  case (Cons e es)
  obtain n r where e: "e = (n, r)" by fastforce
  show ?case
  proof (cases r)
    case (Inr b)
    with e Cons show ?thesis by (cases b) (auto simp: outcome_simps)
  qed (auto simp: e)
qed auto

lemma load_configured_modules_cases:
  "load_configured_modules env dir = Inr (Inr cms) \<longleftrightarrow>
     env_exists env dir = Inr True \<and> env_is_directory env dir = Inr True \<and> cms \<noteq> [] \<and>
     (\<exists>names. bindE (env_read_dir env dir) conf_names = Inr names \<and>
        traverse (load_module_file env) (map (path_append dir) (sort names)) = Inr cms)"
proof (cases "bindE (env_read_dir env dir) conf_names")
  case (Inr names)
  then show ?thesis
    by (cases "traverse (load_module_file env) (map (path_append dir) (sort names))")
      (auto simp: load_configured_modules_def)
qed (simp add: load_configured_modules_def)

text \<open>
  Loading the configuration directory succeeds exactly when it exists, can be
  listed, holds at least one regular file with the extension \<^verbatim>\<open>.conf\<close>, and every such file
  opens and names a library by a non-empty \<^verbatim>\<open>path\<close> entry; the result is one module per file, in
  the order of the file names by bytes, with the file's text and directory and the library
  its first \<^verbatim>\<open>path\<close> entry names.
\<close>

theorem load_configured_modules_iff:
  "load_configured_modules env dir = Inr (Inr cms) \<longleftrightarrow>
     env_exists env dir = Inr True \<and> env_is_directory env dir = Inr True \<and> cms \<noteq> [] \<and>
     (\<exists>entries names. env_read_dir env dir = Inr entries \<and> list_all (\<lambda>(n, r). r \<in> range Inr) entries \<and>
        sorted names \<and>
        mset names = mset (map fst (filter (\<lambda>(n, r). r = Inr True \<and> extension [n] = ''.conf'') entries)) \<and>
        list_all2 (\<lambda>n cm. describes env (path_append dir n) cm) names cms)"
proof -
  let ?D = "\<lambda>n cm. describes env (path_append dir n) cm"
  let ?F = "\<lambda>entries. map fst (filter (\<lambda>(n, r). r = Inr True \<and> extension [n] = ''.conf'') entries)"
  have trav: "traverse (load_module_file env) (map (path_append dir) ns) = Inr cms \<longleftrightarrow> list_all2 ?D ns cms" for ns
    by (simp add: traverse_eq_Inr load_module_file_iff list_all2_map1)
  have sort: "list_all2 ?D (sort ns) cms \<longleftrightarrow> (\<exists>names. sorted names \<and> mset names = mset ns \<and> list_all2 ?D names cms)" for ns
    by (metis mset_sort properties_for_sort sorted_sort)
  have "(\<exists>names. bindE (env_read_dir env dir) conf_names = Inr names \<and> list_all2 ?D (sort names) cms) \<longleftrightarrow>
      (\<exists>entries. env_read_dir env dir = Inr entries \<and> list_all (\<lambda>(n, r). r \<in> range Inr) entries \<and>
         list_all2 ?D (sort (?F entries)) cms)"
    unfolding bindE_eq_Inr conf_names_Inr by blast
  then show ?thesis
    unfolding load_configured_modules_cases trav sort by blast
qed

section \<open>Libraries and instances\<close>

definition of_library :: "string \<Rightarrow> 'w dynamic_module list \<Rightarrow> nat" where
  "of_library l ms = length (filter (\<lambda>m. dm_library m = l) ms)"

lemma of_library_simps [simp]:
  "of_library l [] = 0" "of_library l (ms @ ms') = of_library l ms + of_library l ms'"
  "of_library l (m # ms) = (if dm_library m = l then 1 else 0) + of_library l ms"
  by (simp_all add: of_library_def)

text \<open>What a created module comes from.\<close>

definition module_of :: "'w linker \<Rightarrow> server_config \<Rightarrow> configured_module \<Rightarrow> 'w dynamic_module \<Rightarrow> bool" where
  "module_of ld config cm m \<longleftrightarrow>
     dm_library m = library_file cm \<and>
     (\<exists>d. ld (library_file cm) = Inr (Inr (Some d)) \<and> md_abi_version d = GARCON_MODULE_ABI_VERSION \<and>
        md_create d (make_host_api (cm_config_directory cm) config) (c_string (cm_config_text cm)) = Inr (dm_handle m) \<and>
        dm_name m = descriptor_name (library_file cm) d \<and> dm_destroy m = md_has_destroy d)"

lemma dynamic_module_create_cases:
  obtains (failed) e tr where "dynamic_module_create ld config cm = (Inl e, tr)"
      and "tr = [] \<or> tr = [Dl_open (library_file cm), Dl_close (library_file cm)]"
  | (created) m where "dynamic_module_create ld config cm =
        (Inr m, [Dl_open (library_file cm), Mod_create (library_file cm)])" and "module_of ld config cm m"
proof (cases "ld (library_file cm)")
  case (Inl detail)
  then show ?thesis by (intro failed) (auto simp: dynamic_module_create_def)
next
  case (Inr entry)
  show ?thesis
  proof (cases "instantiate (library_file cm) (cm_config_directory cm) (cm_config_text cm) config entry")
    case (Inl e)
    with Inr show ?thesis by (intro failed) (auto simp: dynamic_module_create_def Let_def)
  next
    fix m assume m: "instantiate (library_file cm) (cm_config_directory cm) (cm_config_text cm) config entry = Inr m"
    then have "module_of ld config cm m"
      using Inr by (auto simp: instantiate_def module_of_def outcome_simps split: sum.splits option.splits)
    with Inr m show ?thesis by (intro created) (auto simp: dynamic_module_create_def Let_def)
  qed
qed

lemma load_modules_ok:
  "load_modules ld config pl cms = (Inr ms, tr) \<Longrightarrow>
     \<exists>new. ms = pl @ new \<and> list_all2 (module_of ld config) cms new \<and>
       count_list tr (Dl_open l) = of_library l new \<and> count_list tr (Mod_create l) = of_library l new \<and>
       count_list tr (Dl_close l) = 0 \<and> count_list tr (Mod_destroy l) = 0"
proof (induction cms arbitrary: pl ms tr)
  case (Cons cm cms)
  show ?case
  proof (cases rule: dynamic_module_create_cases [of ld config cm])
    case (created m)
    with Cons.prems obtain tr' where tr': "load_modules ld config (pl @ [m]) cms = (Inr ms, tr')"
      "tr = [Dl_open (library_file cm), Mod_create (library_file cm)] @ tr'"
      by (auto split: prod.splits)
    from Cons.IH [OF tr'(1)] obtain new where "ms = (pl @ [m]) @ new" "list_all2 (module_of ld config) cms new"
      "count_list tr' (Dl_open l) = of_library l new" "count_list tr' (Mod_create l) = of_library l new"
      "count_list tr' (Dl_close l) = 0" "count_list tr' (Mod_destroy l) = 0" by blast
    moreover have "dm_library m = library_file cm" using created(2) by (simp add: module_of_def)
    ultimately show ?thesis
      using created(2) tr'(2) by (intro exI [of _ "m # new"]) auto
  qed (use Cons.prems in auto)
qed simp

lemma destroy_counts:
  "count_list (concat (map dynamic_module_destroy ms)) (Dl_close l) = of_library l ms"
  "list_all dm_destroy ms \<Longrightarrow> count_list (concat (map dynamic_module_destroy ms)) (Mod_destroy l) = of_library l ms"
  "count_list (concat (map dynamic_module_destroy ms)) (Dl_open l) = 0"
  "count_list (concat (map dynamic_module_destroy ms)) (Mod_create l) = 0"
  by (induction ms) (auto simp: dynamic_module_destroy_def)

lemma load_modules_failed:
  assumes "load_modules ld config pl cms = (Inl e, tr)"
  shows "count_list tr (Dl_close l) = count_list tr (Dl_open l) + of_library l pl \<and>
         (list_all dm_destroy pl \<longrightarrow> (\<forall>lib d. ld lib = Inr (Inr (Some d)) \<longrightarrow> md_has_destroy d) \<longrightarrow>
            count_list tr (Mod_destroy l) = count_list tr (Mod_create l) + of_library l pl)"
  using assms
proof (induction cms arbitrary: pl tr)
  case (Cons cm cms)
  show ?case
  proof (cases rule: dynamic_module_create_cases [of ld config cm])
    case (failed e' tr')
    with Cons.prems have "tr = tr' @ concat (map dynamic_module_destroy pl)" by simp
    with failed(2) destroy_counts [of pl l] show ?thesis by auto
  next
    case (created m)
    with Cons.prems obtain tr' where tr': "load_modules ld config (pl @ [m]) cms = (Inl e, tr')"
      "tr = [Dl_open (library_file cm), Mod_create (library_file cm)] @ tr'"
      by (auto split: prod.splits)
    from Cons.IH [OF tr'(1)] created(2) tr'(2) show ?thesis
      by (auto simp: module_of_def)
  qed
qed simp

text \<open>
  Starting up is all or nothing: when building the pipeline fails, every library
  that was opened is closed again as often as it was opened and (with modules that have a
  destroy entry, as exported ones do) every instance created is destroyed; when it
  succeeds, nothing is closed or destroyed and there is one open library and one instance
  per module of the pipeline.
\<close>

lemma startup_counts:
  assumes "create_request_handler env ld config = (res, tr)"
    and "\<And>lib d. ld lib = Inr (Inr (Some d)) \<Longrightarrow> md_has_destroy d"
  shows "case res of
           Inl e \<Rightarrow> count_list tr (Dl_close l) = count_list tr (Dl_open l) \<and>
                    count_list tr (Mod_destroy l) = count_list tr (Mod_create l)
         | Inr ms \<Rightarrow> count_list tr (Dl_open l) = of_library l ms \<and> count_list tr (Mod_create l) = of_library l ms \<and>
                     count_list tr (Dl_close l) = 0 \<and> count_list tr (Mod_destroy l) = 0"
proof (cases res)
  case (Inl e)
  with assms load_modules_failed [of ld config "[]" _ e tr l] show ?thesis
    by (auto simp: create_request_handler_def split: sum.splits)
next
  case (Inr ms)
  with assms(1) obtain cms where "load_modules ld config [] cms = (Inr ms, tr)"
    by (auto simp: create_request_handler_def split: sum.splits)
  from load_modules_ok [OF this, of l] Inr show ?thesis by auto
qed

text \<open>A machine with two configuration files, listed out of order, and libraries that export a passing module.\<close>

definition two_modules :: environment where
  "two_modules =
     bare_machine\<lparr>env_absolute := Inr, env_exists := (\<lambda>p. Inr True), env_is_directory := (\<lambda>p. Inr True),
       env_read_dir := (\<lambda>p. Inr [(''20-b.conf'', Inr True), (''README'', Inr True), (''10-a.conf'', Inr True)]),
       env_open := (\<lambda>p. if p = ''/modules.d/10-a.conf'' then Some ''path=a.so''
                        else if p = ''/modules.d/20-b.conf'' then Some ''path=/b.so'' else None)\<rparr>"

definition passing :: "string \<Rightarrow> unit constructor" where
  "passing lib host config_text = Inr (\<lambda>req w. (Inr res_pass, w))"

lemma two_modules_configured:
  "load_configured_modules two_modules ''/modules.d'' = Inr (Inr
     [\<lparr>library_file = ''/modules.d/a.so'', cm_config_directory = ''/modules.d'', cm_config_text = ''path=a.so''\<rparr>,
      \<lparr>library_file = ''/b.so'', cm_config_directory = ''/modules.d'', cm_config_text = ''path=/b.so''\<rparr>])"
  by code_simp

lemma two_modules_start:
  "\<exists>ms tr. create_request_handler two_modules (\<lambda>lib. Inr (Inr (Some (make_descriptor lib (passing lib))))) (bare_config 80 1) =
     (Inr ms, tr) \<and> length ms = 2 \<and> tr = [Dl_open ''/modules.d/a.so'', Mod_create ''/modules.d/a.so'', Dl_open ''/b.so'', Mod_create ''/b.so'']"
  by (simp add: create_request_handler_def bare_config_def two_modules_configured dynamic_module_create_def
      instantiate_def make_descriptor_def export_create_def passing_def Let_def)

section \<open>The pipeline that results\<close>

definition host_of :: "server_config \<Rightarrow> configured_module \<Rightarrow> host_context" where
  "host_of config cm =
     \<lparr>host_default_document_root = www_root config, host_config_directory = cm_config_directory cm\<rparr>"

lemma module_of_exported:
  assumes "module_of ld config cm m" and "ld (library_file cm) = Inr (Inr (Some (make_descriptor name new)))"
  shows "\<exists>impl. new (host_of config cm) (c_string (cm_config_text cm)) = Inr impl \<and>
           dynamic_module_handle (dm_handle m) = exported_module impl"
  using assms
  by (auto simp: module_of_def make_descriptor_def export_create_def make_host_context_def make_host_api_def
      to_string_view_def make_string_view_def host_of_def exported_module_def split: sum.splits)

text \<open>Exported modules whose constructors succeed load.\<close>

lemma load_modules_exported:
  assumes "list_all (\<lambda>cm. \<exists>name new impl. ld (library_file cm) = Inr (Inr (Some (make_descriptor name new))) \<and>
      new (host_of config cm) (c_string (cm_config_text cm)) = Inr impl) cms"
  shows "\<exists>ms tr. load_modules ld config pl cms = (Inr ms, tr)"
  using assms
proof (induction cms arbitrary: pl)
  case (Cons cm cms)
  then obtain name new impl where m: "ld (library_file cm) = Inr (Inr (Some (make_descriptor name new)))"
      "new (host_of config cm) (c_string (cm_config_text cm)) = Inr impl" by auto
  from m(2) have "\<exists>h. export_create new (make_host_api (cm_config_directory cm) config) (c_string (cm_config_text cm)) = Inr h"
    by (simp add: export_create_def make_host_context_def make_host_api_def to_string_view_def
        make_string_view_def host_of_def)
  with m(1) have "\<exists>x tr. dynamic_module_create ld config cm = (Inr x, tr)"
    by (auto simp: dynamic_module_create_def Let_def instantiate_def make_descriptor_def)
  then obtain x tr where "dynamic_module_create ld config cm = (Inr x, tr)" by blast
  moreover from Cons obtain ms tr' where "load_modules ld config (pl @ [x]) cms = (Inr ms, tr')" by fastforce
  ultimately show ?case by simp
qed simp

lemma startup_modules:
  assumes "create_request_handler env ld config = (Inr ms, tr)"
  obtains cms where "load_configured_modules env (module_config_dir config) = Inr (Inr cms)"
    and "list_all2 (module_of ld config) cms ms"
proof -
  from assms obtain cms where l: "load_configured_modules env (module_config_dir config) = Inr (Inr cms)"
      "load_modules ld config [] cms = (Inr ms, tr)"
    by (auto simp: create_request_handler_def split: sum.splits)
  from load_modules_ok [OF l(2)] have "list_all2 (module_of ld config) cms ms" by auto
  with l(1) show ?thesis using that by blast
qed

lemma pipeline_of_modules:
  assumes "list_all2 (module_of ld config) cms ms"
    and "\<And>lib. \<exists>name. ld lib = Inr (Inr (Some (make_descriptor name (new lib))))"
  shows "\<exists>impls. list_all2 (\<lambda>cm impl. new (library_file cm) (host_of config cm) (c_string (cm_config_text cm)) = Inr impl)
             cms impls \<and> loaded_pipeline ms = map exported_module impls"
  using assms(1)
proof (induction cms ms rule: list_all2_induct)
  case (Cons cm cms m ms)
  from assms(2) obtain name where "ld (library_file cm) = Inr (Inr (Some (make_descriptor name (new (library_file cm)))))"
    by blast
  from module_of_exported [OF Cons.hyps(1) this] Cons.IH show ?case
    by (auto simp: loaded_pipeline_def intro: exI [of _ "_ # _"])
qed (simp add: loaded_pipeline_def)

text \<open>
  C25 (refinement). A server started on libraries that export C++ modules runs exactly those
  modules: the pipeline holds one implementation for each configuration file, in the order of
  the file names, each constructed with the file's text (up to the first zero byte), its
  directory and the default document root.
\<close>

theorem startup_pipeline:
  assumes "create_request_handler env ld config = (Inr ms, tr)"
    and "\<And>lib. \<exists>name. ld lib = Inr (Inr (Some (make_descriptor name (new lib))))"
  shows "\<exists>cms impls. load_configured_modules env (module_config_dir config) = Inr (Inr cms) \<and>
           list_all2 (\<lambda>cm impl. new (library_file cm) (host_of config cm) (c_string (cm_config_text cm)) = Inr impl)
             cms impls \<and>
           loaded_pipeline ms = map exported_module impls"
proof -
  obtain cms where l: "load_configured_modules env (module_config_dir config) = Inr (Inr cms)"
    and m: "list_all2 (module_of ld config) cms ms"
    using startup_modules [OF assms(1)] .
  from pipeline_of_modules [OF m assms(2)] l show ?thesis by blast
qed

theorem startup_pipeline_witness:
  "\<exists>ms tr. create_request_handler two_modules (\<lambda>lib. Inr (Inr (Some (make_descriptor lib (passing lib))))) (bare_config 80 1) = (Inr ms, tr) \<and>
     length ms = 2 \<and> (\<exists>impls. length impls = 2 \<and> loaded_pipeline ms = map exported_module impls)"
proof -
  let ?ld = "\<lambda>lib. Inr (Inr (Some (make_descriptor lib (passing lib))))"
  obtain ms tr where s: "create_request_handler two_modules ?ld (bare_config 80 1) = (Inr ms, tr)" "length ms = 2"
    using two_modules_start by blast
  from startup_pipeline [OF s(1), of passing] obtain cms impls where
      "list_all2 (\<lambda>cm impl. passing (library_file cm) (host_of (bare_config 80 1) cm) (c_string (cm_config_text cm)) = Inr impl) cms impls"
      and l: "loaded_pipeline ms = map exported_module impls" by blast
  moreover have "length impls = 2"
    using arg_cong [OF l, of length] s(2) by (simp add: loaded_pipeline_def)
  ultimately show ?thesis using s by blast
qed

end
