(* ===== verification/Deployment.thy ===== *)
theory Deployment
  imports Router Route_Table Header_Guard Host_Guard Cors Rate_Limit Jwt_Auth Module_Loader
begin

text \<open>
  What a deployed server does with a request: the constructors the module libraries export, where a
  configured module stands in the pipeline, and the modules that decide a request in front of others.
  The theorems about whole servers in the root theory and in \<open>Shipped_Site\<close> rest on these lemmas.
\<close>

section \<open>The exported constructors\<close>

text \<open>One per library; a module without state leaves the world alone.\<close>

definition header_guard_new :: "'w constructor" where
  "header_guard_new host config_text =
     bindE (header_guard_create config_text) (\<lambda>rules. Inr (\<lambda>req w. (Inr (header_guard_handle rules req), w)))"

text \<open>\<^verbatim>\<open>jwt_auth\<close> reads the clock, a part of the world, once per request.\<close>

definition jwt_auth_new :: "hmac \<Rightarrow> ('w \<Rightarrow> int) \<Rightarrow> 'w constructor" where
  "jwt_auth_new hmac clock host config_text =
     bindE (jwt_create config_text) (\<lambda>m. Inr (\<lambda>req w. (jwt_handle hmac (clock w) m req, w)))"

definition static_files_new :: "file_system \<Rightarrow> 'w constructor" where
  "static_files_new fs host config_text =
     bindE (static_files_module_create fs host config_text) (\<lambda>root.
       Inr (\<lambda>req w. (static_files_module_handle fs root req, w)))"

definition router_new :: "'w constructor" where
  "router_new host config_text =
     bindE (router_create config_text) (\<lambda>routes. Inr (\<lambda>req w. (Inr (router_handle routes req), w)))"

definition route_table_new :: "'w constructor" where
  "route_table_new host config_text =
     bindE (route_table_create config_text) (\<lambda>routes. Inr (\<lambda>req w. (Inr (route_table_handle routes req), w)))"

definition host_guard_new :: "'w constructor" where
  "host_guard_new host config_text =
     bindE (host_guard_create config_text) (\<lambda>rules. Inr (\<lambda>req w. (Inr (host_guard_handle rules req), w)))"

definition cors_new :: "'w constructor" where
  "cors_new host config_text =
     bindE (cors_create config_text) (\<lambda>rules. Inr (\<lambda>req w. (cors_handle rules req, w)))"

text \<open>\<^verbatim>\<open>rate_limit\<close> reads the steady clock and keeps its buckets in the world.\<close>

definition rate_limit_new ::
    "(rat \<Rightarrow> rat) \<Rightarrow> (buckets \<Rightarrow> buckets) \<Rightarrow> ('w \<Rightarrow> int) \<Rightarrow> ('w \<Rightarrow> buckets) \<Rightarrow> (buckets \<Rightarrow> 'w \<Rightarrow> 'w) \<Rightarrow> 'w constructor" where
  "rate_limit_new rnd between clock get put host config_text =
     bindE (rate_limit_create config_text) (\<lambda>rules. Inr (\<lambda>req w.
       case rate_limit_handle rnd between (clock w) rules req (get w) of (res, bs) \<Rightarrow> (res, put bs w)))"

section \<open>Modules in the pipeline\<close>

lemma hg_violated_http11 [simp]: "hg_violated r (as_http11 req) = hg_violated r req"
  by (simp add: hg_violated_def hg_covers_def hg_request_satisfies_rule_def as_http11_def header_value_def
      find_header_def)

text \<open>A module that decides whatever the state hides the modules after it.\<close>

lemma pipeline_shield:
  assumes "\<And>w. \<exists>res w'. m req w = (res, w') \<and> decided [] res \<noteq> None"
  shows "pipeline_loop (pre @ m # post) req pending w = pipeline_loop (pre @ [m]) req pending w"
proof (induction pre arbitrary: pending w)
  case Nil
  obtain res w' where m: "m req w = (res, w')" "decided [] res \<noteq> None" using assms by blast
  then obtain r where "decided pending res = Some r" by (cases res) auto
  with m pipeline_loop_decided [of m req w res w' pending r] show ?case by simp
next
  case (Cons x pre)
  then show ?case by (auto split: prod.splits option.splits)
qed

lemma guard_module_decides:
  assumes "header_guard_create text = Inr rules" and "list_ex (\<lambda>r. hg_violated r req) rules"
    and "header_guard_new host text = Inr impl"
  shows "exported_module impl req w =
           (Respond_result (normalize_response (hg_failure_response (the (find (\<lambda>r. hg_violated r req) rules)))), w)"
proof -
  have "find (\<lambda>r. hg_violated r req) rules \<noteq> None"
    using assms(2) by (auto simp: find_None_iff list_ex_iff)
  then obtain r where r: "find (\<lambda>r. hg_violated r req) rules = Some r" by blast
  have "impl = (\<lambda>req w. (Inr (header_guard_handle rules req), w))"
    using assms(1,3) by (simp add: header_guard_new_def)
  with r show ?thesis
    by (simp add: exported_module_eq header_guard.handle_find res_respond_def carried_response_def)
qed

text \<open>Where a configured module stands in the pipeline.\<close>

lemma deployed_split:
  assumes start: "create_request_handler env ld config = (Inr ms, tr)"
    and libs: "\<And>lib. \<exists>name. ld lib = Inr (Inr (Some (make_descriptor name (new lib))))"
    and conf: "load_configured_modules env (module_config_dir config) = Inr (Inr (pre @ cm # post))"
  obtains before impl after where "loaded_pipeline ms = before @ exported_module impl # after"
    and "length before = length pre"
    and "new (library_file cm) (host_of config cm) (c_string (cm_config_text cm)) = Inr impl"
proof -
  let ?N = "\<lambda>cm impl. new (library_file cm) (host_of config cm) (c_string (cm_config_text cm)) = Inr impl"
  obtain cms where "load_configured_modules env (module_config_dir config) = Inr (Inr cms)"
    and "list_all2 (module_of ld config) cms ms" using startup_modules [OF start] .
  with conf have "list_all2 (module_of ld config) (pre @ cm # post) ms" by simp
  from pipeline_of_modules [OF this libs] obtain impls where
    i: "list_all2 ?N (pre @ cm # post) impls" "loaded_pipeline ms = map exported_module impls" by blast
  from i(1) obtain ipre impl ipost where "impls = ipre @ impl # ipost" "list_all2 ?N pre ipre" "?N cm impl"
    by (auto simp: list_all2_append1 list_all2_Cons1)
  with i(2) that [of "map exported_module ipre" impl "map exported_module ipost"] show ?thesis
    by (simp add: list_all2_lengthD)
qed

text \<open>
  A configured module that decides a request alike in every state: no module configured after it
  matters, and when the modules before it pass, its decision is the answer.
\<close>

lemma deployed_decision:
  assumes start: "create_request_handler env ld config = (Inr ms, tr)"
    and libs: "\<And>lib. \<exists>name. ld lib = Inr (Inr (Some (make_descriptor name (new lib))))"
    and conf: "load_configured_modules env (module_config_dir config) = Inr (Inr (pre @ cm # post))"
    and answer: "\<And>impl w. new (library_file cm) (host_of config cm) (c_string (cm_config_text cm)) = Inr impl \<Longrightarrow>
      exported_module impl req w = (res, w)"
    and decides: "\<And>hs. decided hs res = Some (r hs)"
  shows "pipeline_handle (loaded_pipeline ms) req w = pipeline_handle (take (Suc (length pre)) (loaded_pipeline ms)) req w"
    and "passes req (take (length pre) (loaded_pipeline ms)) w hs w1 \<Longrightarrow> pipeline_handle (loaded_pipeline ms) req w = (r hs, w1)"
proof -
  obtain before impl after where p: "loaded_pipeline ms = before @ exported_module impl # after"
      "length before = length pre" "new (library_file cm) (host_of config cm) (c_string (cm_config_text cm)) = Inr impl"
    using deployed_split [OF start libs conf] .
  note g = answer [OF p(3)]
  then show "pipeline_handle (loaded_pipeline ms) req w = pipeline_handle (take (Suc (length pre)) (loaded_pipeline ms)) req w"
    using pipeline_shield [of "exported_module impl" req before after "[]" w] p(1,2) decides
    by (simp add: pipeline_handle_def)
  assume "passes req (take (length pre) (loaded_pipeline ms)) w hs w1"
  with p(1,2) have "passes req before w hs w1" by simp
  with p(1) g decides [of hs] pipeline_loop_decided [of "exported_module impl" req w1 res w1 hs]
  show "pipeline_handle (loaded_pipeline ms) req w = (r hs, w1)"
    by (simp add: pipeline_handle_def pipeline_loop_passes [of req before w hs w1])
qed

lemmas deployed_barrier = deployed_decision [where res = "Respond_result r" and r = "append_response_headers r" for r, simplified]

lemma guarded_pipeline:
  assumes start: "create_request_handler env ld config = (Inr ms, tr)"
    and libs: "\<And>lib. \<exists>name. ld lib = Inr (Inr (Some (make_descriptor name (new lib))))"
    and conf: "load_configured_modules env (module_config_dir config) = Inr (Inr (pre @ cm # post))"
    and guard: "new (library_file cm) = header_guard_new" "header_guard_create (c_string (cm_config_text cm)) = Inr rules"
    and viol: "list_ex (\<lambda>r. hg_violated r req) rules"
  shows "pipeline_handle (loaded_pipeline ms) req w = pipeline_handle (take (Suc (length pre)) (loaded_pipeline ms)) req w"
    and "passes req (take (length pre) (loaded_pipeline ms)) w hs w1 \<Longrightarrow>
           pipeline_handle (loaded_pipeline ms) req w =
             (append_response_headers
                (normalize_response (hg_failure_response (the (find (\<lambda>r. hg_violated r req) rules)))) hs, w1)"
proof -
  have "exported_module impl req w =
      (Respond_result (normalize_response (hg_failure_response (the (find (\<lambda>r. hg_violated r req) rules)))), w)"
    if "new (library_file cm) (host_of config cm) (c_string (cm_config_text cm)) = Inr impl" for impl w
    using guard_module_decides [OF guard(2) viol, of "host_of config cm" impl w] that guard(1) by simp
  note barrier = deployed_barrier [OF start libs conf this]
  show "pipeline_handle (loaded_pipeline ms) req w = pipeline_handle (take (Suc (length pre)) (loaded_pipeline ms)) req w"
    using barrier(1) .
  assume "passes req (take (length pre) (loaded_pipeline ms)) w hs w1"
  then show "pipeline_handle (loaded_pipeline ms) req w =
      (append_response_headers
        (normalize_response (hg_failure_response (the (find (\<lambda>r. hg_violated r req) rules)))) hs, w1)"
    using barrier(2) by blast
qed

text \<open>The JWT module in front of requests without a signed token.\<close>

lemma bearer_token_http11 [simp]: "bearer_token (as_http11 req) = bearer_token req"
  by (simp add: bearer_token_def header_value_def find_header_def as_http11_def)

lemma jwt_http11 [simp]:
  "jwt_enforced m (as_http11 req) = jwt_enforced m req" "signed_request hmac m (as_http11 req) = signed_request hmac m req"
  "unsigned_answer (as_http11 req) = unsigned_answer req"
  by (simp_all add: jwt_enforced_def signed_request_def unsigned_answer_def) (simp add: as_http11_def)

lemma jwt_module_decides:
  assumes "jwt_create text = Inr m" and "jwt_enforced m req" and "\<not> signed_request hmac m req"
    and "jwt_auth_new hmac clock host text = Inr impl"
  shows "exported_module impl req w = (Respond_result (unsigned_answer req), w)"
proof -
  have "impl = (\<lambda>req w. (jwt_handle hmac (clock w) m req, w))" using assms(1,4) by (simp add: jwt_auth_new_def)
  with jwt_refuses_unsigned [of m "as_http11 req" hmac "clock w"] assms(2,3) show ?thesis
    by (simp add: exported_module_eq res_respond_def carried_response_def normalize_response_def)
      (simp add: unsigned_answer_def make_unauthorized_def text_response_def)
qed

text \<open>What the static-file module of a deployed server answers; an exception of the file system is a 500.\<close>

definition site_answer :: "file_system \<Rightarrow> string list \<Rightarrow> request \<Rightarrow> module_result" where
  "site_answer fs site req =
     (case static_files_handle fs site req of Inl e \<Rightarrow> Error_result [] | Inr r \<Rightarrow> Respond_result (normalize_response r))"

lemma static_files_http11: "static_files_handle fs site (as_http11 req) = static_files_handle fs site req"
  by (simp add: static_files_handle_def as_http11_def Let_def)

lemma site_module_decides:
  assumes "static_files_new fs host text = Inr impl"
  obtains site where "static_files_module_create fs host text = Inr site" and "\<And>w. exported_module impl req w = (site_answer fs site req, w)"
proof -
  from assms obtain site where r: "static_files_module_create fs host text = Inr site"
    and i: "impl = (\<lambda>req w. (static_files_module_handle fs site req, w))"
    by (auto simp: static_files_new_def outcome_simps)
  have "exported_module impl req w = (site_answer fs site req, w)" for w
    by (cases "static_files_handle fs site req")
      (simp_all add: i exported_module_eq static_files_module_handle_eq static_files_http11 site_answer_def res_respond_def
        carried_response_def)
  with r that show thesis by blast
qed

end
