(* ===== verification/Shipped_Site.thy ===== *)
theory Shipped_Site
  imports Deployment
begin

text \<open>
  The configuration the repository ships (\<^verbatim>\<open>src/modules.d\<close>), as text, and the site it makes: the modules that
  start from it and what they do with a request. It is the one composition every user of the
  repository runs first, and an instance of all the module theories.
\<close>

section \<open>The files\<close>

definition conf_text :: "string list \<Rightarrow> string" where
  "conf_text ls = concat (map (\<lambda>l. l @ [LF]) ls)"

text \<open>One definition per file; every line ends with a line feed.\<close>

definition host_guard_conf :: string where
  "host_guard_conf = conf_text
     [''# Default development host-guard module.'',
      ''path=../modules/libgarcon_host_guard_module.so'',
      ''rule=*|/*|localhost,127.0.0.1|421|unknown host'']"

definition router_conf :: string where
  "router_conf = conf_text
     [''# Default development router module.'',
      ''# Richer router (lexically 04, before rate-limit) with path param support.'',
      ''# Captures from {name} patterns are injected only on `pass` as'',
      ''# X-Garcon-Route-Param-Name headers (e.g. {id} -> X-Garcon-Route-Param-Id)'',
      ''# so later modules can use them. Health routes use direct respond.'',
      ''path=../modules/libgarcon_router_module.so'',
      ''route=GET|/healthz|respond|200|text/plain; charset=utf-8|ok'',
      ''route=GET|/readyz|respond|200|text/plain; charset=utf-8|ready'',
      ''route=GET|/api/{version}/*|pass'',
      ''route=GET|/users/{id}|pass'']"

definition route_table_conf :: string where
  "route_table_conf = conf_text
     [''# Default development route-table module.'',
      ''path=../modules/libgarcon_route_table_module.so'',
      ''route=GET|/healthz|respond|200|text/plain; charset=utf-8|ok'',
      ''route=GET|/readyz|respond|200|text/plain; charset=utf-8|ready'',
      ''route=GET|/api/*|pass'']"

definition rate_limit_conf :: string where
  "rate_limit_conf = conf_text
     [''# Default development rate limit module.'',
      ''# Protects the /api/* paths using the same API key header as the header-guard.'',
      ''# Limits are intentionally generous for development; tune for production use.'',
      ''path=../modules/libgarcon_rate_limit_module.so'',
      ''rule=*|/api/*|header:X-Garcon-API-Key|100|60s'']"

definition cors_conf :: string where
  "cors_conf = conf_text
     [''# Default development CORS module.'',
      ''path=../modules/libgarcon_cors_module.so'',
      ''rule=/api/*|http://localhost:3000,http://127.0.0.1:3000|GET,HEAD,OPTIONS|X-Garcon-API-Key,Content-Type'']"

definition header_guard_conf :: string where
  "header_guard_conf = conf_text
     [''# Default development header-guard module.'',
      ''path=../modules/libgarcon_header_guard_module.so'',
      ''rule=*|/api/*|X-Garcon-API-Key|dev-key|401|missing or invalid api key'']"

definition jwt_auth_conf :: string where
  "jwt_auth_conf = conf_text
     [''# Example JWT auth module.'',
      ''# Loaded after 08-header-guard.conf due to lexical 09- prefix (before static-files).'',
      ''# Uses rule scoping so it only enforces on selected paths (here /jwt/*) and does'',
      ''# not interfere with default demo paths like /api/* (still guarded by header-guard'',
      ''# + rate-limit in the example chain).'',
      ''path=../modules/libgarcon_jwt_auth_module.so'',
      ''secret=0123456789abcdef0123456789abcdef0123456789abcdef0123456789abcdef'',
      ''alg=HS256'',
      ''# issuer=garcon'',
      ''# audience=api'',
      ''rule=*|/jwt/*'']"

definition static_files_conf :: string where
  "static_files_conf = conf_text
     [''# Default development module order for Garcon.'',
      ''path=../modules/libgarcon_static_files_module.so'']"

lemmas shipped_texts = host_guard_conf_def router_conf_def route_table_conf_def rate_limit_conf_def cors_conf_def
  header_guard_conf_def jwt_auth_conf_def static_files_conf_def

definition shipped_files :: "(string \<times> string) list" where
  "shipped_files =
     [(''03-host-guard.conf'', host_guard_conf), (''04-router.conf'', router_conf), (''05-route-table.conf'', route_table_conf),
      (''06-rate-limit.conf'', rate_limit_conf), (''07-cors.conf'', cors_conf), (''08-header-guard.conf'', header_guard_conf),
      (''09-jwt-auth.conf'', jwt_auth_conf), (''10-static-files.conf'', static_files_conf)]"

section \<open>Reading them\<close>

text \<open>The lines of such a text that count: neither empty nor a comment.\<close>

lemma config_lines_conf_text:
  assumes "list_all (\<lambda>l. LF \<notin> set l) ls"
  shows "config_lines (conf_text ls) = filter (\<lambda>l. l \<noteq> [] \<and> hd l \<noteq> CHR ''#'') (map trim ls)"
  using assms
proof (induction ls)
  case Nil
  then show ?case by (simp add: conf_text_def)
next
  case (Cons l ls)
  have "conf_text (l # ls) = l @ LF # conf_text ls" by (simp add: conf_text_def)
  with Cons config_lines_append [of l "conf_text ls"] show ?case by simp
qed

lemma c_string_conf_text:
  assumes "list_all (\<lambda>l. CHR 0x00 \<notin> set l) ls"
  shows "c_string (conf_text ls) = conf_text ls"
proof -
  have "\<forall>c\<in>set (conf_text ls). c \<noteq> CHR 0x00"
    using assms by (auto simp: conf_text_def list_all_iff)
  then show ?thesis by (simp add: c_string_def takeWhile_eq_all_conv)
qed

lemma shipped_lines:
  "config_lines host_guard_conf =
     [''path=../modules/libgarcon_host_guard_module.so'', ''rule=*|/*|localhost,127.0.0.1|421|unknown host'']"
  "config_lines router_conf =
     [''path=../modules/libgarcon_router_module.so'', ''route=GET|/healthz|respond|200|text/plain; charset=utf-8|ok'',
      ''route=GET|/readyz|respond|200|text/plain; charset=utf-8|ready'', ''route=GET|/api/{version}/*|pass'',
      ''route=GET|/users/{id}|pass'']"
  "config_lines route_table_conf =
     [''path=../modules/libgarcon_route_table_module.so'', ''route=GET|/healthz|respond|200|text/plain; charset=utf-8|ok'',
      ''route=GET|/readyz|respond|200|text/plain; charset=utf-8|ready'', ''route=GET|/api/*|pass'']"
  "config_lines rate_limit_conf =
     [''path=../modules/libgarcon_rate_limit_module.so'', ''rule=*|/api/*|header:X-Garcon-API-Key|100|60s'']"
  "config_lines cors_conf =
     [''path=../modules/libgarcon_cors_module.so'',
      ''rule=/api/*|http://localhost:3000,http://127.0.0.1:3000|GET,HEAD,OPTIONS|X-Garcon-API-Key,Content-Type'']"
  "config_lines header_guard_conf =
     [''path=../modules/libgarcon_header_guard_module.so'',
      ''rule=*|/api/*|X-Garcon-API-Key|dev-key|401|missing or invalid api key'']"
  "config_lines jwt_auth_conf =
     [''path=../modules/libgarcon_jwt_auth_module.so'',
      ''secret=0123456789abcdef0123456789abcdef0123456789abcdef0123456789abcdef'', ''alg=HS256'', ''rule=*|/jwt/*'']"
  "config_lines static_files_conf = [''path=../modules/libgarcon_static_files_module.so'']"
  unfolding shipped_texts
  by (subst config_lines_conf_text, code_simp, code_simp)+

section \<open>The rules they describe\<close>

definition shipped_host_rule :: host_rule where
  "shipped_host_rule =
     \<lparr>ho_method_pattern = ''*'', ho_target_pattern = ''/'', ho_target_kind = Prefix_pattern,
      ho_allowed_hosts = [\<lparr>hp_value = ''localhost'', hp_kind = Exact_host\<rparr>, \<lparr>hp_value = ''127.0.0.1'', hp_kind = Exact_host\<rparr>],
      ho_failure_status = 421, ho_failure_body = ''unknown host''\<rparr>"

definition health_route :: "string \<Rightarrow> string \<Rightarrow> route_entry" where
  "health_route path text =
     \<lparr>method_pattern = ''GET'', target_pattern = path, target_kind = Exact_pattern, route_outcome = Out_respond,
      route_response = Some (empty_response\<lparr>status := 200, reason := ''OK'',
        content_type := ''text/plain; charset=utf-8'', body := text\<rparr>)\<rparr>"

definition pass_route :: "string \<Rightarrow> pattern_kind \<Rightarrow> route_entry" where
  "pass_route path kind =
     \<lparr>method_pattern = ''GET'', target_pattern = path, target_kind = kind, route_outcome = Out_pass, route_response = None\<rparr>"

definition shipped_rate_rule :: rate_rule where
  "shipped_rate_rule =
     \<lparr>rl_method_pattern = ''*'', rl_target_pattern = ''/api/'', rl_target_kind = Prefix_pattern, rl_key_type = Key_header,
      rl_key_name = ''X-Garcon-API-Key'', rl_limit = 100, rl_window_seconds = 60, rl_burst = 100\<rparr>"

definition shipped_cors_rule :: cors_rule where
  "shipped_cors_rule =
     \<lparr>co_target_pattern = ''/api/'', co_target_kind = Prefix_pattern,
      co_allowed_origins = [\<lparr>op_value = ''http://localhost:3000'', op_allow_any = False\<rparr>,
                            \<lparr>op_value = ''http://127.0.0.1:3000'', op_allow_any = False\<rparr>],
      co_allowed_methods = [''get'', ''head'', ''options''], co_allow_methods_header = ''GET,HEAD,OPTIONS'',
      co_allow_headers_header = ''X-Garcon-API-Key,Content-Type''\<rparr>"

definition shipped_header_rule :: header_rule where
  "shipped_header_rule =
     \<lparr>hr_method_pattern = ''*'', hr_target_pattern = ''/api/'', hr_target_kind = Prefix_pattern,
      hr_header_name = ''X-Garcon-API-Key'', hr_expected_value = Some ''dev-key'', hr_failure_status = 401,
      hr_failure_body = ''missing or invalid api key''\<rparr>"

definition shipped_jwt :: jwt_module where
  "shipped_jwt =
     \<lparr>jw_secret = ''0123456789abcdef0123456789abcdef0123456789abcdef0123456789abcdef'', jw_alg = ''HS256'',
      jw_issuer = None, jw_audience = None,
      jw_rules = [\<lparr>au_method_pattern = ''*'', au_target_pattern = ''/jwt/'', au_target_kind = Prefix_pattern\<rparr>]\<rparr>"

lemma shipped_rules:
  "host_guard_create host_guard_conf = Inr [shipped_host_rule]"
  "rate_limit_create rate_limit_conf = Inr [shipped_rate_rule]"
  "cors_create cors_conf = Inr [shipped_cors_rule]"
  "header_guard_create header_guard_conf = Inr [shipped_header_rule]"
  unfolding host_guard_create_def rate_limit_create_def cors_create_def header_guard_create_def parse_selected_def shipped_lines
  by code_simp+

lemma shipped_routes:
  "router_create router_conf =
     Inr [health_route ''/healthz'' ''ok'', health_route ''/readyz'' ''ready'',
          pass_route ''/api/{version}/'' Prefix_pattern, pass_route ''/users/{id}'' Exact_pattern]"
  "route_table_create route_table_conf =
     Inr [health_route ''/healthz'' ''ok'', health_route ''/readyz'' ''ready'', pass_route ''/api/'' Prefix_pattern]"
  unfolding router_create_def route_table_create_def parse_routes_def parse_selected_def shipped_lines
  by code_simp+

lemma shipped_secret: "jwt_create jwt_auth_conf = Inr shipped_jwt"
  unfolding jwt_create_def jwt_parse_rules_def parse_selected_def config_get_def shipped_lines by code_simp

section \<open>Starting from them\<close>

text \<open>The clocks and the rate limiter's buckets, which the modules of the site share.\<close>

record site_world =
  steady_ns :: int
  system_s :: int
  site_buckets :: buckets

definition shipped_library :: "string \<Rightarrow> string" where
  "shipped_library name = ''/modules.d/../modules/libgarcon_'' @ name @ ''_module.so''"

definition shipped_new :: "hmac \<Rightarrow> (buckets \<Rightarrow> buckets) \<Rightarrow> file_system \<Rightarrow> string \<Rightarrow> site_world constructor" where
  "shipped_new hmac between fs lib =
     (if lib = shipped_library ''host_guard'' then host_guard_new
      else if lib = shipped_library ''router'' then router_new
      else if lib = shipped_library ''route_table'' then route_table_new
      else if lib = shipped_library ''rate_limit''
      then rate_limit_new rnd64 between steady_ns site_buckets (\<lambda>bs w. w\<lparr>site_buckets := bs\<rparr>)
      else if lib = shipped_library ''cors'' then cors_new
      else if lib = shipped_library ''header_guard'' then header_guard_new
      else if lib = shipped_library ''jwt_auth'' then jwt_auth_new hmac system_s
      else static_files_new fs)"

definition shipped_linker :: "hmac \<Rightarrow> (buckets \<Rightarrow> buckets) \<Rightarrow> file_system \<Rightarrow> site_world linker" where
  "shipped_linker hmac between fs lib = Inr (Inr (Some (make_descriptor lib (shipped_new hmac between fs lib))))"

text \<open>The directory lists the files in any order; here in reverse.\<close>

definition shipped_machine :: environment where
  "shipped_machine =
     bare_machine\<lparr>env_absolute := Inr, env_exists := (\<lambda>p. Inr True), env_is_directory := (\<lambda>p. Inr True),
       env_read_dir := (\<lambda>p. Inr (map (\<lambda>(name, text). (name, Inr True)) (rev shipped_files))),
       env_open := map_of (map (\<lambda>(name, text). (''/modules.d/'' @ name, text)) shipped_files)\<rparr>"

definition shipped_config :: configured_module where
  "shipped_config = \<lparr>library_file = [], cm_config_directory = ''/modules.d'', cm_config_text = []\<rparr>"

definition shipped_module :: "string \<times> string \<Rightarrow> configured_module" where
  "shipped_module lt = shipped_config\<lparr>library_file := shipped_library (fst lt), cm_config_text := snd lt\<rparr>"

definition shipped_modules :: "(string \<times> string) list" where
  "shipped_modules =
     [(''host_guard'', host_guard_conf), (''router'', router_conf), (''route_table'', route_table_conf),
      (''rate_limit'', rate_limit_conf), (''cors'', cors_conf), (''header_guard'', header_guard_conf),
      (''jwt_auth'', jwt_auth_conf), (''static_files'', static_files_conf)]"

text \<open>The \<^verbatim>\<open>path=\<close> line of each file names its library.\<close>

lemma path_line:
  assumes "\<forall>c\<in>set lib. \<not> isspace c" and "lib \<noteq> []" and "parent_path file = ''/modules.d''" "\<not> is_absolute lib"
  shows "library_from shipped_machine file ((''path='' @ lib) # rest) = Inr (path_append ''/modules.d'' lib)"
proof -
  have "sv_find_char (''path='' @ lib) (CHR ''='') 0 = Some 4" by (simp add: sv_find_char_def)
  moreover have "trim ''path'' = ''path''" by code_simp
  moreover have "trim lib = lib"
    using assms(1,2) by (intro trim_id) (auto simp: stripped_def)
  ultimately show ?thesis
    using assms(2-4) by (simp add: sv_substr_def resolve_library_def shipped_machine_def throw_if_def)
qed

lemma shipped_load:
  assumes "env_open shipped_machine (''/modules.d/'' @ file) = Some text"
    and "config_lines text = (''path='' @ ''../modules/libgarcon_'' @ name @ ''_module.so'') # rest"
    and "\<forall>c\<in>set name. \<not> isspace c" and "CHR ''/'' \<notin> set file" and "file \<noteq> []"
  shows "load_module_file shipped_machine (''/modules.d/'' @ file) = Inr (shipped_module (name, text))"
proof -
  have p: "parent_path (''/modules.d/'' @ file) = ''/modules.d''"
    using assms(4,5) parent_path_append [where name = "file" and dir = "''/modules.d''"]
    by (cases "file") (auto simp: path_append_def is_absolute_def)
  have "library_from shipped_machine (''/modules.d/'' @ file) (config_lines text) =
      Inr (path_append ''/modules.d'' (''../modules/libgarcon_'' @ name @ ''_module.so''))"
    unfolding assms(2) by (rule path_line) (use assms(3) p in \<open>auto simp: isspace_def is_absolute_def\<close>)
  with assms(1) p show ?thesis
    by (simp add: load_module_file_def read_text_file_def parse_library_path_def shipped_module_def shipped_config_def
        shipped_library_def path_append_def is_absolute_def)
qed

lemma shipped_open: "env_open shipped_machine = map_of (map (\<lambda>(name, text). (''/modules.d/'' @ name, text)) shipped_files)"
  by (simp add: shipped_machine_def)

lemma shipped_listing:
  "bindE (env_read_dir shipped_machine ''/modules.d'') conf_names = Inr (rev (map fst shipped_files))"
  "sort (rev (map fst shipped_files)) = map fst shipped_files"
  by (simp add: shipped_machine_def shipped_files_def del: conf_names.simps, code_simp)
    (simp only: shipped_files_def list.map fst_conv, code_simp)

lemma shipped_loaded:
  "load_module_file shipped_machine ''/modules.d/03-host-guard.conf'' = Inr (shipped_module (''host_guard'', host_guard_conf))"
  "load_module_file shipped_machine ''/modules.d/04-router.conf'' = Inr (shipped_module (''router'', router_conf))"
  "load_module_file shipped_machine ''/modules.d/05-route-table.conf'' = Inr (shipped_module (''route_table'', route_table_conf))"
  "load_module_file shipped_machine ''/modules.d/06-rate-limit.conf'' = Inr (shipped_module (''rate_limit'', rate_limit_conf))"
  "load_module_file shipped_machine ''/modules.d/07-cors.conf'' = Inr (shipped_module (''cors'', cors_conf))"
  "load_module_file shipped_machine ''/modules.d/08-header-guard.conf'' = Inr (shipped_module (''header_guard'', header_guard_conf))"
  "load_module_file shipped_machine ''/modules.d/09-jwt-auth.conf'' = Inr (shipped_module (''jwt_auth'', jwt_auth_conf))"
  "load_module_file shipped_machine ''/modules.d/10-static-files.conf'' = Inr (shipped_module (''static_files'', static_files_conf))"
  using shipped_load [of "''03-host-guard.conf''" host_guard_conf "''host_guard''"]
    shipped_load [of "''04-router.conf''" router_conf "''router''"]
    shipped_load [of "''05-route-table.conf''" route_table_conf "''route_table''"]
    shipped_load [of "''06-rate-limit.conf''" rate_limit_conf "''rate_limit''"]
    shipped_load [of "''07-cors.conf''" cors_conf "''cors''"]
    shipped_load [of "''08-header-guard.conf''" header_guard_conf "''header_guard''"]
    shipped_load [of "''09-jwt-auth.conf''" jwt_auth_conf "''jwt_auth''"]
    shipped_load [of "''10-static-files.conf''" static_files_conf "''static_files''"]
  by (simp_all add: shipped_lines shipped_open shipped_files_def isspace_def)

lemma shipped_configured:
  "load_configured_modules shipped_machine (module_config_dir (bare_config p n)) = Inr (Inr (map shipped_module shipped_modules))"
proof -
  have "traverse (load_module_file shipped_machine) (map (path_append ''/modules.d'') (map fst shipped_files)) =
      Inr (map shipped_module shipped_modules)"
    by (simp add: shipped_files_def shipped_modules_def path_append_def is_absolute_def shipped_loaded)
  then show ?thesis
    unfolding load_configured_modules_def bare_config_def server_config.simps shipped_listing
    by (simp add: shipped_machine_def shipped_listing shipped_modules_def)
qed


text \<open>The pipeline they make, as the handlers of the eight modules.\<close>

definition shipped_routes_router :: "route_entry list" where
  "shipped_routes_router =
     [health_route ''/healthz'' ''ok'', health_route ''/readyz'' ''ready'',
      pass_route ''/api/{version}/'' Prefix_pattern, pass_route ''/users/{id}'' Exact_pattern]"

definition shipped_routes_table :: "route_entry list" where
  "shipped_routes_table =
     [health_route ''/healthz'' ''ok'', health_route ''/readyz'' ''ready'', pass_route ''/api/'' Prefix_pattern]"

definition shipped_rate_module :: "(buckets \<Rightarrow> buckets) \<Rightarrow> site_world implementation" where
  "shipped_rate_module between req w =
     (case rate_limit_handle rnd64 between (steady_ns w) [shipped_rate_rule] req (site_buckets w) of
        (res, bs) \<Rightarrow> (res, w\<lparr>site_buckets := bs\<rparr>))"

definition shipped_guards :: "(buckets \<Rightarrow> buckets) \<Rightarrow> site_world implementation list" where
  "shipped_guards between =
     [\<lambda>req w. (Inr (host_guard_handle [shipped_host_rule] req), w),
      \<lambda>req w. (Inr (router_handle shipped_routes_router req), w),
      \<lambda>req w. (Inr (route_table_handle shipped_routes_table req), w),
      shipped_rate_module between,
      \<lambda>req w. (cors_handle [shipped_cors_rule] req, w),
      \<lambda>req w. (Inr (header_guard_handle [shipped_header_rule] req), w)]"

definition shipped_pipeline ::
    "hmac \<Rightarrow> (buckets \<Rightarrow> buckets) \<Rightarrow> file_system \<Rightarrow> string list \<Rightarrow> site_world req_module list" where
  "shipped_pipeline hmac between fs site =
     map exported_module
       (shipped_guards between @
        [\<lambda>req w. (jwt_handle hmac (system_s w) shipped_jwt req, w),
         \<lambda>req w. (static_files_module_handle fs site req, w)])"

lemma shipped_c_string: "list_all (\<lambda>lt. c_string (snd lt) = snd lt) shipped_modules"
proof -
  have "c_string host_guard_conf = host_guard_conf" "c_string router_conf = router_conf"
    "c_string route_table_conf = route_table_conf" "c_string rate_limit_conf = rate_limit_conf"
    "c_string cors_conf = cors_conf" "c_string header_guard_conf = header_guard_conf"
    "c_string jwt_auth_conf = jwt_auth_conf" "c_string static_files_conf = static_files_conf"
    unfolding shipped_texts by (rule c_string_conf_text, simp)+
  then show ?thesis by (simp add: shipped_modules_def)
qed

lemma static_root_conf: "resolve_path static_files_conf ''root'' host fallback = fallback"
proof -
  have "config_get static_files_conf ''root'' = None"
    unfolding config_get_def shipped_lines by code_simp
  then show ?thesis by (simp add: resolve_path_def)
qed

text \<open>What the constructors make of the texts.\<close>

lemma shipped_instances:
  assumes "static_files_create fs (if www_root config = [] then ''www'' else www_root config) = Inr site"
  shows "list_all2 (\<lambda>lt impl. shipped_new hmac between fs (shipped_library (fst lt)) (host_of config (shipped_module lt))
             (c_string (snd lt)) = Inr impl)
           shipped_modules (shipped_guards between @
             [\<lambda>req w. (jwt_handle hmac (system_s w) shipped_jwt req, w),
              \<lambda>req w. (static_files_module_handle fs site req, w)])"
  using assms shipped_c_string
  by (cases "www_root config = []") (simp_all add: shipped_modules_def shipped_guards_def shipped_new_def shipped_library_def host_guard_new_def router_new_def
      route_table_new_def rate_limit_new_def cors_new_def header_guard_new_def jwt_auth_new_def static_files_new_def
      shipped_rules shipped_routes shipped_secret shipped_rate_module_def [abs_def] shipped_routes_router_def
      shipped_routes_table_def static_files_module_create_def static_root_conf host_of_def)


lemma shipped_libraries:
  "\<exists>name. shipped_linker hmac between fs lib = Inr (Inr (Some (make_descriptor name (shipped_new hmac between fs lib))))"
  by (auto simp: shipped_linker_def)

lemma list_all2_fun:
  "list_all2 (\<lambda>x y. f x = Inr y) xs ys \<Longrightarrow> list_all2 (\<lambda>x y. f x = Inr y) xs zs \<Longrightarrow> ys = zs"
proof (induction xs arbitrary: ys zs)
  case (Cons x xs)
  then show ?case by (auto simp: list_all2_Cons1)
qed simp

lemma list_all2_some: "list_all2 P xs ys \<Longrightarrow> list_all (\<lambda>x. \<exists>y. P x y) xs"
  by (induction rule: list_all2_induct) auto

lemma shipped_start:
  assumes "static_files_create fs ''www'' = Inr site"
  shows "\<exists>ms tr. create_request_handler shipped_machine (shipped_linker hmac between fs) (bare_config p n) = (Inr ms, tr) \<and>
           loaded_pipeline ms = shipped_pipeline hmac between fs site"
proof -
  let ?c = "bare_config p n"
  let ?new = "shipped_new hmac between fs"
  let ?impls = "shipped_guards between @
      [\<lambda>req w. (jwt_handle hmac (system_s w) shipped_jwt req, w), \<lambda>req w. (static_files_module_handle fs site req, w)]"
  let ?N = "\<lambda>cm impl. ?new (library_file cm) (host_of ?c cm) (c_string (cm_config_text cm)) = Inr impl"
  have "static_files_create fs (if www_root ?c = [] then ''www'' else www_root ?c) = Inr site"
    using assms by (simp add: bare_config_def)
  from shipped_instances [OF this] have inst: "list_all2 ?N (map shipped_module shipped_modules) ?impls"
    by (simp add: list_all2_map1 shipped_module_def shipped_config_def)
  then have "list_all (\<lambda>cm. \<exists>impl. ?N cm impl) (map shipped_module shipped_modules)"
    by (rule list_all2_some)
  then have "list_all (\<lambda>cm. \<exists>name new impl. shipped_linker hmac between fs (library_file cm) = Inr (Inr (Some (make_descriptor name new))) \<and>
      new (host_of ?c cm) (c_string (cm_config_text cm)) = Inr impl) (map shipped_module shipped_modules)"
    unfolding list_all_iff shipped_linker_def by blast
  from load_modules_exported [OF this, of "[]"] obtain ms tr where
    start: "create_request_handler shipped_machine (shipped_linker hmac between fs) ?c = (Inr ms, tr)"
    by (auto simp: create_request_handler_def shipped_configured)
  obtain cms where "load_configured_modules shipped_machine (module_config_dir ?c) = Inr (Inr cms)"
    and of: "list_all2 (module_of (shipped_linker hmac between fs) ?c) cms ms" using startup_modules [OF start] .
  then have "cms = map shipped_module shipped_modules" by (simp add: shipped_configured)
  with pipeline_of_modules [OF of shipped_libraries] obtain impls where
    "list_all2 ?N (map shipped_module shipped_modules) impls" "loaded_pipeline ms = map exported_module impls" by blast
  with list_all2_fun [OF this(1) inst] start show ?thesis by (auto simp: shipped_pipeline_def)
qed


text \<open>
  C14 (functional). The configuration the repository ships starts: when the document root is a directory, the
  eight files, read in the order of their names, load the eight modules they name, none refuses
  its text, and the pipeline is host guard, router, route table, rate limit, CORS, header guard, JWT and
  static files, each with exactly the rules its file describes.
\<close>

theorem shipped_site_starts:
  assumes "static_files_create fs ''www'' = Inr site"
  shows "\<exists>ms tr. create_request_handler shipped_machine (shipped_linker hmac between fs) (bare_config p n) = (Inr ms, tr) \<and>
           loaded_pipeline ms = shipped_pipeline hmac between fs site"
  by (rule shipped_start [OF assms])


theorem shipped_site_starts_witness:
  "\<exists>ms tr. create_request_handler shipped_machine (shipped_linker toy_mac (\<lambda>bs. bs) sample_fs) (bare_config 8080 1) = (Inr ms, tr) \<and>
     length (loaded_pipeline ms) = 8"
proof -
  have "static_files_create sample_fs ''www'' = Inr [''/'', ''www'']"
    by (simp add: static_files_create_def canonicalize_path_def sample_fs_def throw_if_def)
  from shipped_site_starts [OF this, of toy_mac "\<lambda>bs. bs" 8080 1] show ?thesis
    by (auto simp: shipped_pipeline_def shipped_guards_def)
qed

end
