(* ===== verification/Site_Policy.thy ===== *)
theory Site_Policy
  imports Shipped_Site
begin

text \<open>
  What the shipped site does with a request: the answer outside \<^verbatim>\<open>/api/\<close> as a table, the guard in front
  of \<^verbatim>\<open>/api/\<close>, and the targets that name a protected file without being protected.
\<close>

section \<open>The modules one by one\<close>

definition starts :: "string \<Rightarrow> string \<Rightarrow> bool" where
  "starts p s \<longleftrightarrow> take (length p) s = p"

lemma starts_append [simp]: "starts p (p @ s)"
  by (simp add: starts_def)

lemma starts_iff: "starts p s \<longleftrightarrow> (\<exists>rest. s = p @ rest)"
  by (auto simp: starts_def) (metis append_take_drop_id)

lemma prefix_matches: "target_matches Prefix_pattern p s = starts p s"
  by (simp add: starts_def sv_substr_def)

text \<open>The request names this machine.\<close>

definition local_host :: "request \<Rightarrow> bool" where
  "local_host req \<longleftrightarrow>
     (case header_value req ''Host'' of
        None \<Rightarrow> False
      | Some h \<Rightarrow> normalize_host_header h \<in> {''localhost'', ''127.0.0.1''})"

definition keyed :: "request \<Rightarrow> bool" where
  "keyed req \<longleftrightarrow> header_value req ''X-Garcon-API-Key'' = Some ''dev-key''"

definition wrong_host_answer :: response where
  "wrong_host_answer = text_response 421 ''Misdirected Request'' ''unknown host''"

lemma exact_lower:
  assumes "ascii_lowercase a = a" and "ascii_lowercase b = b"
  shows "ascii_iequals a b \<longleftrightarrow> a = b"
  using assms by (simp add: ascii_iequals_header_name_equals header_name_equals_map ascii_lowercase_def)

lemma host_satisfied: "ho_request_satisfies_rule shipped_host_rule req = local_host req"
proof (cases "header_value req ''Host''")
  case (Some h)
  have l: "ascii_lowercase ''localhost'' = ''localhost''" "ascii_lowercase ''127.0.0.1'' = ''127.0.0.1''"
    by code_simp+
  from Some show ?thesis
    by (auto simp: ho_request_satisfies_rule_def local_host_def shipped_host_rule_def host_matches_def Let_def
        exact_lower [OF l(1) normalize_lowercase] exact_lower [OF l(2) normalize_lowercase])
qed (simp add: ho_request_satisfies_rule_def local_host_def)

lemma http11_fields [simp]:
  "target (as_http11 req) = target req" "req_method (as_http11 req) = req_method req"
  "header_value (as_http11 req) name = header_value req name"
  by (simp_all add: as_http11_def header_value_def find_header_def)

lemma http11_site [simp]: "local_host (as_http11 req) = local_host req" "keyed (as_http11 req) = keyed req"
  by (simp_all add: local_host_def keyed_def)

lemma host_step:
  "host_guard_handle [shipped_host_rule] req =
     (if starts ''/'' (target req) \<and> \<not> local_host req then res_respond wrong_host_answer else res_pass)"
  by (simp add: host_satisfied) (simp add: shipped_host_rule_def method_matches_def prefix_matches ho_failure_response_def
      ho_reason_phrase_def wrong_host_answer_def del: target_matches.simps)


text \<open>The router's patterns, one literal and one with a parameter.\<close>

lemma match_literal:
  assumes "CHR ''{'' \<notin> set l"
  shows "match_target Exact_pattern l tgt = (if extract_path tgt = l then Some [] else None)"
proof -
  have "match_list l path = (if take (length l) path = l then Some (drop (length l) path, []) else None)" for path
    using match_list_lit [OF assms, of "[]" path] by simp
  then show ?thesis by (auto simp: match_target_list)
qed

lemma match_literal_start:
  "CHR ''{'' \<notin> set l \<Longrightarrow> \<not> starts l (extract_path tgt) \<Longrightarrow> match_target kind (l @ pat) tgt = None"
  by (simp add: match_target_list match_list_lit starts_def)

definition user_id :: "string \<Rightarrow> string option" where
  "user_id path = (if starts ''/users/'' path \<and> CHR ''/'' \<notin> set (drop 7 path) then Some (drop 7 path) else None)"

lemma match_user:
  "match_target Exact_pattern ''/users/{id}'' tgt =
     map_option (\<lambda>v. [\<lparr>cp_name = ''id'', cp_value = v\<rparr>]) (user_id (extract_path tgt))"
proof -
  have n: "''/users/{id}'' = ''/users/'' @ CHR ''{'' # ''id'' @ CHR ''}'' # []" by simp
  have m: "match_list ''/users/{id}'' path =
      (if starts ''/users/'' path
       then Some (dropWhile (\<lambda>x. x \<noteq> CHR ''/'') (drop 7 path),
                  [\<lparr>cp_name = ''id'', cp_value = takeWhile (\<lambda>x. x \<noteq> CHR ''/'') (drop 7 path)\<rparr>])
       else None)" for path
    unfolding n by (subst match_list_lit, simp) (subst match_list_param, simp, simp, simp add: starts_def eval_nat_numeral)
  have e: "dropWhile (\<lambda>x. x \<noteq> CHR ''/'') q = [] \<longleftrightarrow> CHR ''/'' \<notin> set q" for q by auto
  have t: "CHR ''/'' \<notin> set q \<Longrightarrow> takeWhile (\<lambda>x. x \<noteq> CHR ''/'') q = q" for q
    by (auto simp: takeWhile_eq_all_conv)
  show ?thesis
    unfolding match_target_list m user_id_def
    by (cases "starts ''/users/'' (extract_path tgt)"; cases "CHR ''/'' \<in> set (drop 7 (extract_path tgt))")
      (simp_all only: if_True if_False option.case prod.case e t simp_thms option.map pattern_kind.simps)
qed

lemma extract_path_takeWhile: "extract_path tgt = takeWhile (\<lambda>c. c \<noteq> CHR ''?'') tgt"
proof (cases "sv_find_char tgt (CHR ''?'') 0")
  case None
  then have "\<forall>c\<in>set tgt. c \<noteq> CHR ''?''" by (auto simp: sv_find_char_None)
  then have t: "takeWhile (\<lambda>c. c \<noteq> CHR ''?'') tgt = tgt" by (simp only: takeWhile_eq_all_conv)
  show ?thesis unfolding extract_path_def None option.case t ..
next
  case (Some q)
  then have "index_of (\<lambda>c. c = CHR ''?'') tgt = Some q" by (simp add: sv_find_char_def)
  then have "q < length tgt" "tgt ! q = CHR ''?''" "\<forall>i<q. tgt ! i \<noteq> CHR ''?''" by (simp_all add: index_of_eq_Some)
  then have "takeWhile (\<lambda>c. c \<noteq> CHR ''?'') tgt = take q tgt"
    by (intro takeWhile_eq_take_P_nth) auto
  with Some show ?thesis by (simp add: extract_path_def sv_substr_def)
qed

lemma starts_path: "starts p (extract_path tgt) \<Longrightarrow> starts p tgt"
  unfolding extract_path_takeWhile starts_def
  by (metis append.assoc append_eq_conv_conj append_take_drop_id takeWhile_dropWhile_id)

definition health_answer :: "string \<Rightarrow> response" where
  "health_answer text = empty_response\<lparr>content_type := ''text/plain; charset=utf-8'', body := text\<rparr>"

lemma router_step:
  assumes "\<not> starts ''/api/'' (target req)"
  shows "router_handle shipped_routes_router req =
     (if req_method req \<noteq> ''GET'' then res_pass
      else if extract_path (target req) = ''/healthz'' then res_respond (health_answer ''ok'')
      else if extract_path (target req) = ''/readyz'' then res_respond (health_answer ''ready'')
      else (case user_id (extract_path (target req)) of
              None \<Rightarrow> res_pass
            | Some v \<Rightarrow> res_add_response_header ''X-Garcon-Route-Param-Id'' v res_pass))"
proof -
  have api: "match_target Prefix_pattern ''/api/{version}/'' (target req) = None"
    using match_literal_start [of "''/api/''" "target req" Prefix_pattern "''{version}/''"] assms starts_path by auto
  have param: "make_route_param_header ''id'' = ''Id''" by code_simp
  show ?thesis
    by (simp add: shipped_routes_router_def health_route_def pass_route_def method_matches_def match_literal api match_user
        health_answer_def empty_response_def add_captures_def param split: option.splits)
qed

lemma table_step:
  assumes "extract_path (target req) \<noteq> ''/healthz''" and "extract_path (target req) \<noteq> ''/readyz''"
  shows "route_table_handle shipped_routes_table req = res_pass"
proof -
  have "target req \<noteq> ''/healthz''" "target req \<noteq> ''/readyz''"
    using assms by (auto simp: extract_path_takeWhile)
  then show ?thesis
    by (simp add: shipped_routes_table_def health_route_def pass_route_def method_matches_def)
qed

lemma outside_api_steps:
  assumes "\<not> starts ''/api/'' (target req)"
  shows "shipped_rate_module between req w = (Inr res_pass, w)"
    and "cors_handle [shipped_cors_rule] req = Inr res_pass"
    and "header_guard_handle [shipped_header_rule] req = res_pass"
  using assms
  by (simp_all add: shipped_rate_module_def rate_limit_handle_def shipped_rate_rule_def cors_handle_def shipped_cors_rule_def
      shipped_header_rule_def prefix_matches split: option.splits del: target_matches.simps)


section \<open>Outside /api/\<close>

text \<open>The static-file module's answer with the headers of the modules before it.\<close>

definition site_response :: "file_system \<Rightarrow> string list \<Rightarrow> header_field list \<Rightarrow> request \<Rightarrow> response" where
  "site_response fs site hs req = the (decided hs (site_answer fs site req))"

definition public_answer :: "file_system \<Rightarrow> string list \<Rightarrow> request \<Rightarrow> response" where
  "public_answer fs site req =
     (let path = extract_path (target req); get = (req_method req = ''GET'') in
      if starts ''/'' (target req) \<and> \<not> local_host req then wrong_host_answer
      else if get \<and> path = ''/healthz'' then health_answer ''ok''
      else if get \<and> path = ''/readyz'' then health_answer ''ready''
      else if starts ''/jwt/'' (target req) then unsigned_answer req
      else site_response fs site
             (case user_id path of
                None \<Rightarrow> []
              | Some v \<Rightarrow> if get then [\<lparr>hname = ''X-Garcon-Route-Param-Id'', hvalue = v\<rparr>] else []) req)"

lemma shipped_jwt_enforced: "jwt_enforced shipped_jwt req = starts ''/jwt/'' (target req)"
  by (simp add: jwt_enforced_def shipped_jwt_def method_matches_def prefix_matches del: target_matches.simps)

lemma append_no_headers [simp]: "append_response_headers r [] = r"
  by (simp add: append_response_headers_def)

lemma visit_passed: "visit_result pending (lift_result (Inr res_pass)) = (None, pending)"
  by (simp add: res_pass_def carried_headers_def)

lemma visit_responded:
  "visit_result pending (lift_result (Inr (res_respond r))) = (Some (append_response_headers (normalize_response r) pending), pending)"
  by (simp add: res_respond_def carried_response_def finalize_response_def)

lemma visit_site:
  "visit_result pending (lift_result (static_files_module_handle fs site (as_http11 req))) =
     (Some (site_response fs site pending req), pending)"
  by (cases "static_files_handle fs site req")
    (simp_all add: static_files_module_handle_eq static_files_http11 site_response_def site_answer_def visit_responded
      finalize_response_def del: lift_result.simps(2))

lemma normalize_answers [simp]:
  "normalize_response wrong_host_answer = wrong_host_answer" "normalize_response (health_answer text) = health_answer text"
  "normalize_response (unsigned_answer req) = unsigned_answer req"
  by (simp_all add: normalize_response_def wrong_host_answer_def health_answer_def unsigned_answer_def make_unauthorized_def
      text_response_def empty_response_def)

lemma visit_param:
  "visit_result pending (lift_result (Inr (res_add_response_header n v res_pass))) = (None, pending @ [\<lparr>hname = n, hvalue = v\<rparr>])"
  by (simp add: res_pass_def res_add_response_header_def carried_headers_def)

text \<open>The last two modules.\<close>

lemma site_tail:
  assumes "starts ''/jwt/'' (target req) \<Longrightarrow> \<not> signed_request hmac shipped_jwt req"
  shows "pipeline_loop (map exported_module
           [\<lambda>req w. (jwt_handle hmac (system_s w) shipped_jwt req, w), \<lambda>req w. (static_files_module_handle fs site req, w)])
           req pending w =
         (if starts ''/jwt/'' (target req) then append_response_headers (unsigned_answer req) pending
          else site_response fs site pending req, w)"
proof (cases "starts ''/jwt/'' (target req)")
  case True
  with assms have "jwt_handle hmac (system_s w) shipped_jwt (as_http11 req) = Inr (res_respond (unsigned_answer req))"
    using jwt_refuses_unsigned [of shipped_jwt "as_http11 req" hmac "system_s w"] by (simp add: shipped_jwt_enforced)
  with True show ?thesis by (simp add: exported_module_eq visit_responded del: lift_result.simps)
next
  case False
  then have "jwt_handle hmac (system_s w) shipped_jwt (as_http11 req) = Inr res_pass"
    by (simp add: jwt_handle_def shipped_jwt_enforced)
  with False show ?thesis by (simp add: exported_module_eq visit_passed visit_site del: lift_result.simps)
qed

lemma jwt_no_user:
  assumes "starts ''/jwt/'' tgt"
  shows "user_id (extract_path tgt) = None"
proof -
  have "\<not> starts ''/users/'' tgt" using assms by (auto simp: starts_iff)
  with starts_path show ?thesis by (auto simp: user_id_def)
qed

lemmas handler_loops = lift_result.simps host_guard_handle.simps header_guard_handle.simps router_handle.simps route_table_handle.simps

lemma public_guards:
  assumes "\<not> starts ''/api/'' (target req)"
  shows "pipeline_loop (map exported_module (shipped_guards between) @ tail) req [] w =
     (let path = extract_path (target req); get = (req_method req = ''GET'') in
      if starts ''/'' (target req) \<and> \<not> local_host req then (wrong_host_answer, w)
      else if get \<and> path = ''/healthz'' then (health_answer ''ok'', w)
      else if get \<and> path = ''/readyz'' then (health_answer ''ready'', w)
      else pipeline_loop tail req
             (case user_id path of
                None \<Rightarrow> []
              | Some v \<Rightarrow> if get then [\<lparr>hname = ''X-Garcon-Route-Param-Id'', hvalue = v\<rparr>] else []) w)"
proof -
  let ?q = "as_http11 req"
  have o: "\<not> starts ''/api/'' (target ?q)" using assms by simp
  note steps = exported_module_eq host_step router_step [OF o] outside_api_steps [OF o] visit_passed visit_responded visit_param
  consider "starts ''/'' (target req)" "\<not> local_host req" | "\<not> (starts ''/'' (target req) \<and> \<not> local_host req)" "req_method req = ''GET''"
      "extract_path (target req) \<in> {''/healthz'', ''/readyz''}"
    | "\<not> (starts ''/'' (target req) \<and> \<not> local_host req)" "req_method req = ''GET''"
      "extract_path (target req) \<noteq> ''/healthz''" "extract_path (target req) \<noteq> ''/readyz''"
    | "\<not> (starts ''/'' (target req) \<and> \<not> local_host req)" "req_method req \<noteq> ''GET''" by blast
  then show ?thesis
  proof cases
    case 1
    then show ?thesis by (simp add: shipped_guards_def steps del: handler_loops)
  next
    case 2
    then show ?thesis
      by (auto simp: shipped_guards_def steps Let_def simp del: handler_loops)
  next
    case 3
    then have "route_table_handle shipped_routes_table ?q = res_pass" by (intro table_step) simp_all
    with 3 show ?thesis
      by (cases "user_id (extract_path (target req))"; cases "starts ''/'' (target req)")
        (simp_all add: shipped_guards_def steps Let_def del: handler_loops)
  next
    case 4
    then have "route_table_handle shipped_routes_table ?q = res_pass"
      by (simp add: shipped_routes_table_def health_route_def pass_route_def method_matches_def)
    with 4 show ?thesis
      by (cases "starts ''/'' (target req)") (simp_all add: shipped_guards_def steps Let_def del: handler_loops split: option.split)
  qed
qed

lemma public_request:
  assumes "\<not> starts ''/api/'' (target req)"
    and "starts ''/jwt/'' (target req) \<Longrightarrow> \<not> signed_request hmac shipped_jwt req"
  shows "pipeline_handle (shipped_pipeline hmac between fs site) req w = (public_answer fs site req, w)"
proof -
  let ?rest = "map exported_module
    [\<lambda>req w. (jwt_handle hmac (system_s w) shipped_jwt req, w), \<lambda>req w. (static_files_module_handle fs site req, w)]"
  have tail: "pipeline_loop ?rest req pending w =
      (if starts ''/jwt/'' (target req) then append_response_headers (unsigned_answer req) pending
       else site_response fs site pending req, w)" for pending w
    by (rule site_tail) (rule assms(2))
  have "pipeline_handle (shipped_pipeline hmac between fs site) req w =
      pipeline_loop (map exported_module (shipped_guards between) @ ?rest) req [] w"
    by (simp only: shipped_pipeline_def map_append pipeline_handle_def)
  also have "\<dots> = (public_answer fs site req, w)"
    unfolding public_guards [OF assms(1)] tail public_answer_def Let_def
    by (simp add: jwt_no_user)
  finally show ?thesis .
qed


text \<open>The deployed server's pipeline is the shipped one.\<close>

lemma deployed_pipeline:
  assumes "create_request_handler shipped_machine (shipped_linker hmac between fs) (bare_config p n) = (Inr ms, tr)"
    and "static_files_create fs ''www'' = Inr site"
  shows "loaded_pipeline ms = shipped_pipeline hmac between fs site"
  using shipped_start [OF assms(2), of hmac between p n] assms(1) by auto

text \<open>
  C9 (equivalence). The shipped site outside \<^verbatim>\<open>/api/\<close>: a request without a signed token is answered as the table
  \<open>public_answer\<close> says, whatever the buckets and the clock hold, and leaves them as they are. A wrong
  \<^verbatim>\<open>Host\<close> is a 421 before anything else, then come the two health checks of the router, the 401 of the JWT
  module below \<^verbatim>\<open>/jwt/\<close>, and the files, with the user's id in a header for \<^verbatim>\<open>/users/{id}\<close>.
\<close>

theorem shipped_public_table:
  assumes "create_request_handler shipped_machine (shipped_linker hmac between fs) (bare_config p n) = (Inr ms, tr)"
    and "static_files_create fs ''www'' = Inr site"
    and "\<not> starts ''/api/'' (target req)"
    and "starts ''/jwt/'' (target req) \<longrightarrow> \<not> signed_request hmac shipped_jwt req"
  shows "pipeline_handle (loaded_pipeline ms) req w = (public_answer fs site req, w)"
  using public_request [of req hmac between fs site w] deployed_pipeline [OF assms(1,2)] assms(3,4) by simp

section \<open>Spellings of a target\<close>

text \<open>A doubled slash is lost on the way to the file name.\<close>

lemma double_slash_maps:
  assumes "rest \<noteq> []" and "hd rest \<noteq> CHR ''?''"
  shows "map_to_relative_path (''//'' @ rest) = map_to_relative_path (''/'' @ rest)"
proof -
  obtain path q query where r: "rest = path @ (if q then CHR ''?'' # query else [])" "CHR ''?'' \<notin> set path"
  proof (cases "CHR ''?'' \<in> set rest")
    case True
    then obtain a b where "rest = a @ CHR ''?'' # b" "CHR ''?'' \<notin> set a" by (metis split_list_first)
    with that [of a True b] show thesis by simp
  next
    case False
    with that [of rest False "[]"] show thesis by simp
  qed
  with assms have "path \<noteq> []" by (cases path) (auto split: if_splits)
  have q: "CHR ''?'' \<notin> set (''/'' @ path)" "CHR ''?'' \<notin> set (''//'' @ path)" using r(2) by simp_all
  have "map_to_relative_path (''//'' @ rest) = Some rel \<longleftrightarrow> map_to_relative_path (''/'' @ rest) = Some rel" for rel
    using map_to_relative_path_segments [OF q(1), of q query rel] map_to_relative_path_segments [OF q(2), of q query rel]
      \<open>path \<noteq> []\<close> unfolding r(1) by simp
  then show ?thesis by (metis not_Some_eq)
qed

lemma same_file:
  assumes "map_to_relative_path t = map_to_relative_path t'"
  shows "site_response fs site hs (req\<lparr>target := t\<rparr>) = site_response fs site hs (req\<lparr>target := t'\<rparr>)"
proof -
  have "serve_file fs site t b = serve_file fs site t' b" for b
    unfolding serve_file_def assms ..
  then have "static_files_handle fs site (req\<lparr>target := t\<rparr>) = static_files_handle fs site (req\<lparr>target := t'\<rparr>)"
    by (cases "req_method req = ''GET''"; cases "req_method req = ''HEAD''") (simp_all add: static_files_handle_def Let_def)
  then show ?thesis by (simp only: site_response_def site_answer_def)
qed

text \<open>
  C13 (safety). What protects a path protects one spelling of it: with a second leading slash the same file is
  served by the shipped site to a request without a token, without a key and without a place in the rate
  limiter's buckets, where the usual spelling below \<^verbatim>\<open>/jwt/\<close> is a 401. The guards compare
  the target as it was sent; the static-file service drops the empty segment.
\<close>

theorem double_slash_unprotected:
  assumes "create_request_handler shipped_machine (shipped_linker hmac between fs) (bare_config p n) = (Inr ms, tr)"
    and "static_files_create fs ''www'' = Inr site"
    and "local_host req" and "area \<in> {''api/'', ''jwt/''}" and "\<not> signed_request hmac shipped_jwt req"
  shows "pipeline_handle (loaded_pipeline ms) (req\<lparr>target := ''//'' @ area @ rest\<rparr>) w =
           (site_response fs site [] (req\<lparr>target := ''/'' @ area @ rest\<rparr>), w) \<and>
         (area = ''jwt/'' \<longrightarrow>
            pipeline_handle (loaded_pipeline ms) (req\<lparr>target := ''/'' @ area @ rest\<rparr>) w = (unsigned_answer req, w))"
proof -
  obtain c cs where a: "area @ rest = c # cs" "c \<noteq> CHR ''?''" "c \<noteq> CHR ''/''" using assms(4) by auto
  let ?two = "req\<lparr>target := ''//'' @ area @ rest\<rparr>" and ?one = "req\<lparr>target := ''/'' @ area @ rest\<rparr>"
  note pipe = deployed_pipeline [OF assms(1,2)]
  have m: "local_host ?two" "\<not> signed_request hmac shipped_jwt ?two" "local_host ?one" "\<not> signed_request hmac shipped_jwt ?one"
    using assms(3,5) by (simp_all add: local_host_def signed_request_def bearer_token_def header_value_def find_header_def)
  have two: "\<not> starts ''/api/'' (target ?two)" "\<not> starts ''/jwt/'' (target ?two)" "user_id (extract_path (target ?two)) = None"
    "extract_path (target ?two) \<noteq> ''/healthz''" "extract_path (target ?two) \<noteq> ''/readyz''"
    using a by (auto simp: starts_def user_id_def extract_path_takeWhile)
  have "public_answer fs site ?two = site_response fs site [] ?two"
    using m(1) two by (simp add: public_answer_def Let_def)
  also have "\<dots> = site_response fs site [] ?one"
    by (rule same_file) (use double_slash_maps [of "area @ rest"] a in simp)
  finally have "pipeline_handle (loaded_pipeline ms) ?two w = (site_response fs site [] ?one, w)"
    unfolding pipe using public_request [OF two(1) m(2)] by simp
  moreover have "pipeline_handle (loaded_pipeline ms) ?one w = (unsigned_answer req, w)" if "area = ''jwt/''"
  proof -
    have "\<not> starts ''/api/'' (target ?one)" "starts ''/jwt/'' (target ?one)"
      "extract_path (target ?one) \<noteq> ''/healthz''" "extract_path (target ?one) \<noteq> ''/readyz''"
      using that by (simp_all add: starts_def extract_path_takeWhile)
    moreover from this have "public_answer fs site ?one = unsigned_answer req"
      using m(3) by (simp add: public_answer_def Let_def unsigned_answer_def bearer_token_def header_value_def find_header_def)
    ultimately show ?thesis unfolding pipe using public_request [of ?one hmac between fs site w] m(4) by simp
  qed
  ultimately show ?thesis by blast
qed


section \<open>Below /api/\<close>

text \<open>A module whose outcomes keep a condition on the world and answer with a status in \<open>S\<close> if they answer.\<close>

definition answers_within :: "('w \<Rightarrow> bool) \<Rightarrow> int set \<Rightarrow> request \<Rightarrow> 'w req_module \<Rightarrow> bool" where
  "answers_within ok S req m \<longleftrightarrow>
     (\<forall>w. ok w \<longrightarrow> (case m req w of (res, w1) \<Rightarrow> ok w1 \<and> (\<forall>hs r. decided hs res = Some r \<longrightarrow> status r \<in> S)))"

lemma loop_within:
  assumes "list_all (answers_within ok S req) ms" and "answers_within ok S req m"
    and "\<And>w. \<exists>res w'. m req w = (res, w') \<and> decided [] res \<noteq> None" and "ok w"
    and "pipeline_loop (ms @ [m]) req pending w = (resp, w')"
  shows "ok w' \<and> status resp \<in> S"
  using assms(1,4,5)
proof (induction ms arbitrary: pending w)
  case Nil
  obtain res w1 where m: "m req w = (res, w1)" "decided [] res \<noteq> None" using assms(3) by blast
  then obtain r where r: "decided pending res = Some r" by (cases res) auto
  with pipeline_loop_decided [of m req w res w1 pending r "[]"] Nil.prems m(1) assms(2) show ?case
    by (auto simp: answers_within_def dest!: spec [of _ w])
next
  case (Cons x ms)
  obtain res w1 where x: "x req w = (res, w1)" by fastforce
  with Cons.prems(1,2) have ok: "ok w1" "\<And>hs r. decided hs res = Some r \<Longrightarrow> status r \<in> S"
    by (auto simp: answers_within_def dest!: spec [of _ w])
  show ?case
  proof (cases "decided pending res")
    case None
    then obtain hs where "res = Pass_result hs" by (cases res) auto
    with x Cons.prems(1,3) Cons.IH [of w1 "pending @ hs"] ok(1) show ?thesis by simp
  next
    case (Some r)
    with pipeline_loop_decided [of x req w res w1 pending r "ms @ [m]"] x Cons.prems(3) ok show ?thesis by auto
  qed
qed

lemma within_pure:
  assumes "\<And>hs r. decided hs (lift_result v) = Some r \<Longrightarrow> status r \<in> S" and "\<And>w. impl (as_http11 req) w = (v, w)"
  shows "answers_within ok S req (exported_module impl)"
  using assms by (simp add: answers_within_def exported_module_eq)

lemma decided_passed [simp]: "mr_next res = Out_pass \<Longrightarrow> decided hs (lift_result (Inr res)) = None"
  by simp

lemma decided_responded:
  "decided hs (lift_result (Inr (res_respond r))) = Some (append_response_headers (normalize_response r) hs)"
  by (simp add: res_respond_def carried_response_def)

lemma decided_status [simp]: "status r \<noteq> 0 \<Longrightarrow> status (append_response_headers (normalize_response r) hs) = status r"
  by (simp add: append_response_headers_def normalize_response_def)

lemma add_captures_next [simp]: "mr_next (add_captures caps res) = mr_next res"
  by (simp add: add_captures_headers)

lemma api_path: "starts ''/api/'' tgt \<Longrightarrow> starts ''/api/'' (extract_path tgt)"
  by (auto simp: starts_iff extract_path_takeWhile)

lemma router_api:
  assumes "starts ''/api/'' (target req)"
  shows "mr_next (router_handle shipped_routes_router req) = Out_pass"
proof -
  obtain x where x: "extract_path (target req) = ''/api/'' @ x"
    using api_path [OF assms] by (auto simp: starts_iff)
  have u: "user_id (''/api/'' @ x) = None" by (simp add: user_id_def starts_def)
  show ?thesis
    by (simp add: shipped_routes_router_def health_route_def pass_route_def method_matches_def match_literal x match_user u
        split: option.splits)
qed

lemma table_api:
  assumes "starts ''/api/'' (target req)"
  shows "route_table_handle shipped_routes_table req = res_pass"
  using assms
  by (auto simp: shipped_routes_table_def health_route_def pass_route_def method_matches_def prefix_matches starts_iff
      simp del: target_matches.simps(2))

definition api_ok :: "int \<Rightarrow> int \<Rightarrow> site_world \<Rightarrow> bool" where
  "api_ok steady sys w \<longleftrightarrow> steady_ns w = steady \<and> system_s w = sys \<and> buckets_ok [shipped_rate_rule] (site_buckets w)"

lemma rate_within:
  assumes "\<And>bs. buckets_ok [shipped_rate_rule] bs \<Longrightarrow> buckets_ok [shipped_rate_rule] (between bs)"
  shows "answers_within (api_ok steady sys) {429} req (exported_module (shipped_rate_module between))"
proof -
  have ok: "\<forall>r\<in>set [shipped_rate_rule]. rate_rule_ok r"
    using rate_limit_create_ok [OF shipped_rules(2)] by (simp add: list_all_iff)
  have "api_ok steady sys w1 \<and> (\<forall>hs r. decided hs (lift_result v) = Some r \<longrightarrow> status r \<in> {429})"
    if run: "api_ok steady sys w" "shipped_rate_module between (as_http11 req) w = (v, w1)" for w v w1
  proof -
    obtain bs where h: "rate_limit_handle rnd64 between (steady_ns w) [shipped_rate_rule] (as_http11 req) (site_buckets w) = (v, bs)"
      and w1: "w1 = w\<lparr>site_buckets := bs\<rparr>"
      using run(2) by (auto simp: shipped_rate_module_def split: prod.splits)
    have n: "mr_next (allowed_result r t) = Out_pass" for r t
      by (simp add: allowed_result_def res_add_response_header_def)
    have st: "status (too_many_requests r k) = 429" for r k
      by (simp add: too_many_requests_def text_response_def)
    from machine.handle_answers [OF ok _ assms h] run(1) w1 show ?thesis
      by (auto simp: api_ok_def decided_responded n st simp del: lift_result.simps governing.simps split: option.splits)
  qed
  then show ?thesis by (auto simp: answers_within_def exported_module_eq split: prod.splits)
qed


lemma cors_within:
  assumes "decided hs (lift_result (cors_handle [shipped_cors_rule] req)) = Some r"
  shows "header_value req ''Origin'' \<noteq> None \<and> status r \<in> {204, 403, 405}"
proof -
  have err: "status (make_cors_error s t b) = s" for s t b
    by (simp add: make_cors_error_def)
  have pass: "mr_next res_pass = Out_pass" "mr_next (res_add_response_header n v m) = mr_next m" for n v m
    by (simp_all add: res_pass_def res_add_response_header_def)
  have texts: "valid_header_value ''GET,HEAD,OPTIONS''" "valid_header_value ''X-Garcon-API-Key,Content-Type''"
      "valid_header_value ''http://localhost:3000''" "valid_header_value ''http://127.0.0.1:3000''"
    by code_simp+
  have pre: "\<exists>p. make_preflight_response shipped_cors_rule orig = Inr p \<and> status p = 204"
    if "origin_allowed shipped_cors_rule orig" for orig
  proof -
    have "valid_header_value orig"
      using that texts by (auto simp: origin_allowed_def origin_matches_def shipped_cors_rule_def)
    then obtain p where p: "make_preflight_response shipped_cors_rule orig = Inr p"
      using make_preflight_response_ok [of orig shipped_cors_rule] texts by (auto simp: shipped_cors_rule_def)
    with make_preflight_response_headers [OF p] show ?thesis by simp
  qed
  obtain orig where orig: "header_value req ''Origin'' = Some orig"
    using assms by (cases "header_value req ''Origin''") (auto simp: cors_handle_def pass simp del: lift_result.simps)
  show ?thesis
  proof (cases "origin_allowed shipped_cors_rule orig")
    case True
    from pre [OF this] obtain p where "make_preflight_response shipped_cors_rule orig = Inr p" "status p = 204" by blast
    with True assms orig show ?thesis
      by (auto simp: cors_handle_def decided_responded pass err Let_def simp del: lift_result.simps split: if_splits)
  next
    case False
    with assms orig show ?thesis
      by (auto simp: cors_handle_def decided_responded pass err simp del: lift_result.simps split: if_splits)
  qed
qed

definition refusals :: "request \<Rightarrow> int set" where
  "refusals req = {401, 421, 429} \<union> (if header_value req ''Origin'' = None then {} else {204, 403, 405})"

definition key_refusal :: response where
  "key_refusal = text_response 401 ''Unauthorized'' ''missing or invalid api key''"

lemma guard_step:
  assumes "starts ''/api/'' (target req)" and "\<not> keyed req"
  shows "header_guard_handle [shipped_header_rule] req = res_respond key_refusal"
  using assms
  by (simp add: shipped_header_rule_def method_matches_def prefix_matches hg_request_satisfies_rule_def keyed_def
      hg_failure_response_def hg_reason_phrase_def key_refusal_def del: target_matches.simps split: option.splits)

lemma guard_refuses:
  assumes "starts ''/api/'' (target req)" and "\<not> keyed req"
  shows "exported_module (\<lambda>req w. (Inr (header_guard_handle [shipped_header_rule] req), w)) req w = (Respond_result key_refusal, w)"
proof -
  have q: "starts ''/api/'' (target (as_http11 req))" "\<not> keyed (as_http11 req)" using assms by simp_all
  show ?thesis
    unfolding exported_module_eq prod.case guard_step [OF q]
    by (simp add: res_respond_def carried_response_def) (simp add: normalize_response_def key_refusal_def text_response_def)
qed

lemma within_mono: "answers_within ok S req m \<Longrightarrow> S \<subseteq> T \<Longrightarrow> answers_within ok T req m"
  by (fastforce simp: answers_within_def split: prod.splits)

lemma api_guards:
  assumes "starts ''/api/'' (target req)" and "\<not> keyed req" and "api_ok steady sys w"
    and "\<And>bs. buckets_ok [shipped_rate_rule] bs \<Longrightarrow> buckets_ok [shipped_rate_rule] (between bs)"
    and "pipeline_handle (map exported_module (shipped_guards between)) req w = (resp, w')"
  shows "api_ok steady sys w' \<and> status resp \<in> refusals req"
proof -
  let ?q = "as_http11 req"
  let ?guard = "\<lambda>req w. (Inr (header_guard_handle [shipped_header_rule] req), w)"
  let ?before = "[\<lambda>req w. (Inr (host_guard_handle [shipped_host_rule] req), w),
      \<lambda>req w. (Inr (router_handle shipped_routes_router req), w),
      \<lambda>req w. (Inr (route_table_handle shipped_routes_table req), w),
      shipped_rate_module between,
      \<lambda>req w. (cors_handle [shipped_cors_rule] req, w)]"
  let ?W = "\<lambda>impl. answers_within (api_ok steady sys) (refusals req) req (exported_module impl)"
  have q: "starts ''/api/'' (target ?q)" "\<not> keyed ?q" using assms(1,2) by simp_all
  have pass: "mr_next res_pass = Out_pass" by (simp add: res_pass_def)
  have st: "status wrong_host_answer = 421" "status key_refusal = 401" by (simp_all add: wrong_host_answer_def key_refusal_def)
  have "?W (\<lambda>req w. (Inr (host_guard_handle [shipped_host_rule] req), w))"
    by (rule within_pure [OF _ refl])
      (auto simp: host_step decided_responded pass st refusals_def append_response_headers_def simp del: lift_result.simps host_guard_handle.simps split: if_splits)
  moreover have "?W (\<lambda>req w. (Inr (router_handle shipped_routes_router req), w))"
    by (rule within_pure [OF _ refl]) (simp add: router_api [OF q(1)] del: lift_result.simps router_handle.simps)
  moreover have "?W (\<lambda>req w. (Inr (route_table_handle shipped_routes_table req), w))"
    by (rule within_pure [OF _ refl]) (simp add: table_api [OF q(1)] pass del: lift_result.simps route_table_handle.simps)
  moreover have "?W (shipped_rate_module between)"
    by (rule within_mono [OF rate_within [OF assms(4)]]) (simp_all add: refusals_def)
  moreover have "?W (\<lambda>req w. (cors_handle [shipped_cors_rule] req, w))"
    by (rule within_pure [OF _ refl], drule cors_within) (auto simp: refusals_def)
  ultimately have before: "list_all (answers_within (api_ok steady sys) (refusals req) req) (map exported_module ?before)" by simp
  have guard: "?W ?guard"
    unfolding answers_within_def guard_refuses [OF assms(1,2)] by (simp add: append_response_headers_def st refusals_def)
  have decides: "\<exists>res w'. exported_module ?guard req u = (res, w') \<and> decided [] res \<noteq> None" for u
    by (intro exI conjI) (rule guard_refuses [OF assms(1,2)], simp)
  show ?thesis
    by (rule loop_within [OF before guard decides assms(3), of "[]"])
      (use assms(5) in \<open>simp only: shipped_guards_def pipeline_handle_def append.simps list.map\<close>)
qed


text \<open>
  C10 (safety). Nothing below \<^verbatim>\<open>/api/\<close> without the key: on the shipped site such a request is refused with
  401, 421 or 429, or answered by the CORS module (204, 403, 405) if it has an \<^verbatim>\<open>Origin\<close>; the JWT and the
  static-file module are not consulted, and the rate limiter's buckets stay within their
  bounds, whatever the other workers do to them in the meantime within these bounds.
\<close>

theorem shipped_api_guarded:
  assumes "create_request_handler shipped_machine (shipped_linker hmac between fs) (bare_config p n) = (Inr ms, tr)"
    and "static_files_create fs ''www'' = Inr site"
    and "starts ''/api/'' (target req)" and "\<not> keyed req"
    and "buckets_ok [shipped_rate_rule] (site_buckets w)"
    and "\<And>bs. buckets_ok [shipped_rate_rule] bs \<Longrightarrow> buckets_ok [shipped_rate_rule] (between bs)"
    and "pipeline_handle (loaded_pipeline ms) req w = (resp, w')"
  shows "status resp \<in> refusals req \<and> buckets_ok [shipped_rate_rule] (site_buckets w') \<and>
         pipeline_handle (map exported_module (shipped_guards between)) req w = (resp, w')"
proof -
  let ?before = "map exported_module (butlast (shipped_guards between))"
  let ?guard = "exported_module (\<lambda>req w. (Inr (header_guard_handle [shipped_header_rule] req), w))"
  let ?rest = "map exported_module
    [\<lambda>req w. (jwt_handle hmac (system_s w) shipped_jwt req, w), \<lambda>req w. (static_files_module_handle fs site req, w)]"
  have split: "map exported_module (shipped_guards between) = ?before @ [?guard]" by (simp add: shipped_guards_def)
  have decides: "\<exists>res w'. ?guard req u = (res, w') \<and> decided [] res \<noteq> None" for u
    by (intro exI conjI) (rule guard_refuses [OF assms(3,4)], simp)
  have "loaded_pipeline ms = ?before @ ?guard # ?rest"
    unfolding deployed_pipeline [OF assms(1,2)] shipped_pipeline_def map_append split by (simp only: append.assoc append.simps)
  then have run: "pipeline_handle (map exported_module (shipped_guards between)) req w = (resp, w')"
    using pipeline_shield [of ?guard req ?before ?rest "[]" w, OF decides] assms(7)
    by (simp only: pipeline_handle_def split)
  have "api_ok (steady_ns w) (system_s w) w" using assms(5) by (simp add: api_ok_def)
  from api_guards [OF assms(3,4) this assms(6) run] run show ?thesis by (simp add: api_ok_def)
qed

section \<open>A request each\<close>

text \<open>A document root with a file below \<^verbatim>\<open>/jwt/\<close>, and a client that asks for it without a token.\<close>

definition site_fs :: file_system where
  "site_fs =
     sample_fs\<lparr>fs_canonical := Some,
       fs_entry := (\<lambda>p. if p = [''/'', ''www'', ''jwt'', ''plan.txt''] then Some (True, Inr 6) else None),
       fs_open := (\<lambda>p. if p = [''/'', ''www'', ''jwt'', ''plan.txt''] then Some ''secret'' else None)\<rparr>"

definition local_request :: request where
  "local_request =
     \<lparr>version_major = 1, version_minor = 1, req_method = ''GET'', target = ''/jwt/plan.txt'',
      req_headers = [\<lparr>hname = ''Host'', hvalue = ''localhost:8080''\<rparr>]\<rparr>"

definition idle_world :: site_world where
  "idle_world = \<lparr>steady_ns = 0, system_s = 0, site_buckets = Map.empty\<rparr>"

lemma site_root: "static_files_create site_fs ''www'' = Inr [''/'', ''www'']"
  by (simp add: static_files_create_def canonicalize_path_def site_fs_def sample_fs_def throw_if_def)

lemma local_request_facts:
  "local_host local_request" "\<not> signed_request hmac shipped_jwt local_request" "\<not> keyed (local_request\<lparr>target := t\<rparr>)"
  "unsigned_answer local_request = text_response 401 ''Unauthorized'' (''missing token'' @ [LF])"
proof -
  have v: "header_value local_request ''Host'' = Some ''localhost:8080''" by code_simp
  moreover have "normalize_host_header ''localhost:8080'' = ''localhost''" by code_simp
  ultimately show "local_host local_request" by (simp add: local_host_def)
  have a: "header_value local_request ''Authorization'' = None" by code_simp
  then show "\<not> signed_request hmac shipped_jwt local_request" by (simp add: signed_request_def bearer_token_def)
  have "header_value local_request ''X-Garcon-API-Key'' = None" by code_simp
  then show "\<not> keyed (local_request\<lparr>target := t\<rparr>)" by (simp add: keyed_def header_value_def find_header_def)
  from a show "unsigned_answer local_request = text_response 401 ''Unauthorized'' (''missing token'' @ [LF])"
    by (simp add: unsigned_answer_def bearer_token_def make_unauthorized_def)
qed


lemma site_starts:
  obtains ms tr where "create_request_handler shipped_machine (shipped_linker toy_mac (\<lambda>bs. bs) site_fs) (bare_config 8080 1) = (Inr ms, tr)"
  using shipped_start [OF site_root, of toy_mac "\<lambda>bs. bs" 8080 1] by blast

theorem shipped_public_table_witness:
  "\<exists>ms tr. create_request_handler shipped_machine (shipped_linker toy_mac (\<lambda>bs. bs) site_fs) (bare_config 8080 1) = (Inr ms, tr) \<and>
     pipeline_handle (loaded_pipeline ms) local_request idle_world =
       (text_response 401 ''Unauthorized'' (''missing token'' @ [LF]), idle_world)"
proof -
  obtain ms tr where s: "create_request_handler shipped_machine (shipped_linker toy_mac (\<lambda>bs. bs) site_fs) (bare_config 8080 1) = (Inr ms, tr)"
    by (rule site_starts)
  have t: "\<not> starts ''/api/'' (target local_request)" "starts ''/jwt/'' (target local_request)"
    "extract_path (target local_request) \<noteq> ''/healthz''" "extract_path (target local_request) \<noteq> ''/readyz''"
    by (simp_all add: local_request_def starts_def extract_path_takeWhile)
  have "public_answer site_fs [''/'', ''www''] local_request = unsigned_answer local_request"
    using t local_request_facts(1) by (simp add: public_answer_def Let_def)
  with shipped_public_table [OF s site_root t(1), of idle_world] local_request_facts s show ?thesis by auto
qed

theorem double_slash_unprotected_witness:
  "\<exists>ms tr. create_request_handler shipped_machine (shipped_linker toy_mac (\<lambda>bs. bs) site_fs) (bare_config 8080 1) = (Inr ms, tr) \<and>
     body (fst (pipeline_handle (loaded_pipeline ms) (local_request\<lparr>target := ''//jwt/plan.txt''\<rparr>) idle_world)) = ''secret'' \<and>
     status (fst (pipeline_handle (loaded_pipeline ms) (local_request\<lparr>target := ''/jwt/plan.txt''\<rparr>) idle_world)) = 401"
proof -
  obtain ms tr where s: "create_request_handler shipped_machine (shipped_linker toy_mac (\<lambda>bs. bs) site_fs) (bare_config 8080 1) = (Inr ms, tr)"
    by (rule site_starts)
  let ?r = "local_request\<lparr>target := ''/jwt/plan.txt''\<rparr>"
  let ?file = "empty_response\<lparr>content_type := ''text/plain; charset=utf-8'', content_length := Some 6, body := ''secret''\<rparr>"
  have m: "map_to_relative_path (target ?r) = Some [''jwt'', ''plan.txt'']" by code_simp
  have g: "guess_content_type [''/'', ''www'', ''jwt'', ''plan.txt''] = ''text/plain; charset=utf-8''" by code_simp
  have q: "req_method ?r = ''GET''" by code_simp
  have "static_files_handle site_fs [''/'', ''www''] ?r = Inr ?file"
    unfolding static_files_handle_def Let_def serve_file_def m q
    by (simp add: resolve_under_root_def site_fs_def read_file_bytes_def max_file_bytes_def g empty_response_def)
  then have "body (site_response site_fs [''/'', ''www''] [] ?r) = ''secret''"
    by (simp add: site_response_def site_answer_def normalize_response_def)
  moreover have "status (unsigned_answer local_request) = 401" by (simp add: local_request_facts(4))
  ultimately show ?thesis
    using double_slash_unprotected [OF s site_root local_request_facts(1) _ local_request_facts(2), of "''jwt/''" "''plan.txt''" idle_world] s
    by simp
qed

theorem shipped_api_guarded_witness:
  "\<exists>ms tr resp w'. create_request_handler shipped_machine (shipped_linker toy_mac (\<lambda>bs. bs) site_fs) (bare_config 8080 1) = (Inr ms, tr) \<and>
     pipeline_handle (loaded_pipeline ms) (local_request\<lparr>target := ''/api/v1/users''\<rparr>) idle_world = (resp, w') \<and>
     status resp \<in> {401, 421, 429}"
proof -
  obtain ms tr where s: "create_request_handler shipped_machine (shipped_linker toy_mac (\<lambda>bs. bs) site_fs) (bare_config 8080 1) = (Inr ms, tr)"
    by (rule site_starts)
  let ?r = "local_request\<lparr>target := ''/api/v1/users''\<rparr>"
  obtain resp w' where run: "pipeline_handle (loaded_pipeline ms) ?r idle_world = (resp, w')" by fastforce
  have t: "starts ''/api/'' (target ?r)" by (simp add: starts_def)
  have b: "buckets_ok [shipped_rate_rule] (site_buckets idle_world)" by (simp add: idle_world_def buckets_ok_def)
  have "header_value ?r ''Origin'' = None" by code_simp
  with shipped_api_guarded [OF s site_root t local_request_facts(3) b _ run] s run show ?thesis
    by (auto simp: refusals_def)
qed

end
