(* ===== verification/Socket_Ownership.thy ===== *)
theory Socket_Ownership
  imports Prelude
begin

text \<open>
  Who owns which descriptor: the special member functions of \<^verbatim>\<open>net::socket\<close>
  (\<^verbatim>\<open>src/src/net/socket.cpp\<close>) on a store of socket objects, so that aliasing (a move onto
  itself) is visible, together with the descriptors the process has open.
\<close>

section \<open>Objects and descriptors\<close>

text \<open>
  \<open>sw_objects\<close> maps the address of each live object to its \<^verbatim>\<open>_fd\<close>; \<open>sw_closed\<close> are the descriptors
  passed to \<^verbatim>\<open>::close\<close>, in order; \<open>sw_stale\<close> records a \<^verbatim>\<open>::close\<close> of a descriptor that is not open.
\<close>

record sock_world =
  sw_objects :: "nat \<rightharpoonup> int"
  sw_open :: "int list"
  sw_closed :: "int list"
  sw_stale :: bool

definition no_sockets :: sock_world where
  "no_sockets = \<lparr>sw_objects = Map.empty, sw_open = [], sw_closed = [], sw_stale = False\<rparr>"

definition os_close :: "int \<Rightarrow> sock_world \<Rightarrow> sock_world" where
  "os_close fd w =
     w\<lparr>sw_open := remove1 fd (sw_open w), sw_closed := sw_closed w @ [fd],
       sw_stale := (sw_stale w \<or> fd \<notin> set (sw_open w))\<rparr>"

definition set_fd :: "nat \<Rightarrow> int \<Rightarrow> sock_world \<Rightarrow> sock_world" where
  "set_fd a fd w = w\<lparr>sw_objects := (sw_objects w)(a \<mapsto> fd)\<rparr>"

definition get_fd :: "sock_world \<Rightarrow> nat \<Rightarrow> int" where
  "get_fd w a = (case sw_objects w a of None \<Rightarrow> - 1 | Some fd \<Rightarrow> fd)"

section \<open>Member functions (socket.cpp)\<close>

definition socket_default :: "nat \<Rightarrow> sock_world \<Rightarrow> sock_world" where
  "socket_default this w = set_fd this (- 1) w"

definition socket_adopt :: "nat \<Rightarrow> int \<Rightarrow> sock_world \<Rightarrow> sock_world" where
  "socket_adopt this fd w = set_fd this fd w"

definition socket_is_valid :: "sock_world \<Rightarrow> nat \<Rightarrow> bool" where
  "socket_is_valid w this \<longleftrightarrow> get_fd w this \<ge> 0"

text \<open>The \<^verbatim>\<open>::shutdown\<close> before the \<^verbatim>\<open>::close\<close> leaves the descriptor open and its result is ignored.\<close>

definition socket_close :: "nat \<Rightarrow> sock_world \<Rightarrow> sock_world" where
  "socket_close this w =
     (if get_fd w this \<ge> 0 then set_fd this (- 1) (os_close (get_fd w this) w) else w)"

definition socket_move_construct :: "nat \<Rightarrow> nat \<Rightarrow> sock_world \<Rightarrow> sock_world" where
  "socket_move_construct this other w = set_fd other (- 1) (set_fd this (get_fd w other) w)"

definition socket_move_assign :: "nat \<Rightarrow> nat \<Rightarrow> sock_world \<Rightarrow> sock_world" where
  "socket_move_assign this other w =
     (if this \<noteq> other
      then (let w1 = socket_close this w in set_fd other (- 1) (set_fd this (get_fd w1 other) w1))
      else w)"

definition socket_destroy :: "nat \<Rightarrow> sock_world \<Rightarrow> sock_world" where
  "socket_destroy this w = (let w1 = socket_close this w in w1\<lparr>sw_objects := (sw_objects w1)(this := None)\<rparr>)"

section \<open>Programs\<close>

text \<open>
  One step of any program that follows the language's rules: constructors run on fresh
  storage, other members on live objects. A system call that yields a descriptor yields one
  that is not open, or a negative value.
\<close>

inductive sock_step :: "sock_world \<Rightarrow> sock_world \<Rightarrow> bool" where
  step_default: "sw_objects w a = None \<Longrightarrow> sock_step w (socket_default a w)"
| step_open: "sw_objects w a = None \<Longrightarrow> fd \<notin> set (sw_open w) \<Longrightarrow> 0 \<le> fd \<Longrightarrow>
     sock_step w (socket_adopt a fd (w\<lparr>sw_open := fd # sw_open w\<rparr>))"
| step_open_failed: "sw_objects w a = None \<Longrightarrow> fd < 0 \<Longrightarrow> sock_step w (socket_adopt a fd w)"
| step_move_construct: "sw_objects w a = None \<Longrightarrow> sw_objects w b \<noteq> None \<Longrightarrow>
     sock_step w (socket_move_construct a b w)"
| step_move_assign: "sw_objects w a \<noteq> None \<Longrightarrow> sw_objects w b \<noteq> None \<Longrightarrow>
     sock_step w (socket_move_assign a b w)"
| step_close: "sw_objects w a \<noteq> None \<Longrightarrow> sock_step w (socket_close a w)"
| step_destroy: "sw_objects w a \<noteq> None \<Longrightarrow> sock_step w (socket_destroy a w)"

inductive sock_reachable :: "sock_world \<Rightarrow> bool" where
  reach_start: "sock_reachable no_sockets"
| reach_step: "sock_reachable w \<Longrightarrow> sock_step w w' \<Longrightarrow> sock_reachable w'"

section \<open>Ownership\<close>

text \<open>Every open descriptor has exactly one owner, every owned descriptor is open, nothing stale was closed.\<close>

definition owned :: "sock_world \<Rightarrow> bool" where
  "owned w \<longleftrightarrow>
     distinct (sw_open w) \<and> \<not> sw_stale w \<and>
     (\<forall>fd. 0 \<le> fd \<longrightarrow> (fd \<in> set (sw_open w) \<longleftrightarrow> (\<exists>a. sw_objects w a = Some fd))) \<and>
     (\<forall>fd \<in> set (sw_open w). 0 \<le> fd) \<and>
     (\<forall>a b fd. 0 \<le> fd \<longrightarrow> sw_objects w a = Some fd \<longrightarrow> sw_objects w b = Some fd \<longrightarrow> a = b)"

lemmas sock_defs = set_fd_def get_fd_def os_close_def

lemma owned_start: "owned no_sockets"
  by (simp add: owned_def no_sockets_def)

lemma owned_fresh: "owned w \<Longrightarrow> sw_objects w a = None \<Longrightarrow> fd < 0 \<Longrightarrow> owned (set_fd a fd w)"
  unfolding owned_def set_fd_def by (auto split: if_splits) (metis option.distinct(1))+

lemma owned_open:
  "owned w \<Longrightarrow> sw_objects w a = None \<Longrightarrow> fd \<notin> set (sw_open w) \<Longrightarrow> 0 \<le> fd \<Longrightarrow>
     owned (set_fd a fd (w\<lparr>sw_open := fd # sw_open w\<rparr>))"
  unfolding owned_def set_fd_def by (auto split: if_splits) (metis option.distinct(1))+

text \<open>The objects that hold a descriptor after a transfer, and after a close.\<close>

lemma holds_after_transfer:
  assumes "get_fd w a < 0" and "a \<noteq> b" and "0 \<le> fd"
  shows "sw_objects (set_fd b (- 1) (set_fd a (get_fd w b) w)) c = Some fd \<longleftrightarrow>
           c \<noteq> b \<and> sw_objects w (if c = a then b else c) = Some fd"
  using assms by (auto simp: sock_defs split: option.splits)

lemma holds_after_close:
  assumes "0 \<le> fd"
  shows "sw_objects (socket_close a w) c = Some fd \<longleftrightarrow> c \<noteq> a \<and> sw_objects w c = Some fd"
  using assms by (auto simp: socket_close_def sock_defs split: option.splits)

lemma owned_transfer:
  assumes "owned w" and "get_fd w a < 0" and "a \<noteq> b"
  shows "owned (set_fd b (- 1) (set_fd a (get_fd w b) w))"
proof -
  let ?w = "set_fd b (- 1) (set_fd a (get_fd w b) w)"
  note holds = holds_after_transfer [OF assms(2,3)]
  have same: "sw_open ?w = sw_open w" "sw_stale ?w = sw_stale w" by (simp_all add: set_fd_def)
  have none: "0 \<le> fd \<Longrightarrow> sw_objects w a \<noteq> Some fd" for fd using assms(2) by (auto simp: get_fd_def)
  have "(\<exists>c. sw_objects ?w c = Some fd) \<longleftrightarrow> (\<exists>c. sw_objects w c = Some fd)" if "0 \<le> fd" for fd
    unfolding holds [OF that] using none [OF that] assms(3) by metis
  moreover have "c = d" if "0 \<le> fd" "sw_objects ?w c = Some fd" "sw_objects ?w d = Some fd" for c d fd
  proof -
    have "(if c = a then b else c) = (if d = a then b else d)"
      using that assms(1) unfolding holds [OF that(1)] owned_def by blast
    with that show ?thesis unfolding holds [OF that(1)] by (auto split: if_splits)
  qed
  ultimately show ?thesis using assms(1) unfolding owned_def same by simp
qed

lemma close_effect:
  assumes "owned w"
  shows "sw_stale (socket_close a w) = sw_stale w"
    and "sw_open (socket_close a w) = (if get_fd w a \<ge> 0 then remove1 (get_fd w a) (sw_open w) else sw_open w)"
proof -
  have "get_fd w a \<ge> 0 \<Longrightarrow> get_fd w a \<in> set (sw_open w)"
    using assms unfolding owned_def get_fd_def by (cases "sw_objects w a") auto
  then show "sw_stale (socket_close a w) = sw_stale w"
    and "sw_open (socket_close a w) = (if get_fd w a \<ge> 0 then remove1 (get_fd w a) (sw_open w) else sw_open w)"
    by (auto simp: socket_close_def set_fd_def os_close_def)
qed

lemma owned_close:
  assumes "owned w"
  shows "owned (socket_close a w)"
proof -
  note eff = close_effect [OF assms, of a]
  have d: "distinct (sw_open w)" using assms by (simp add: owned_def)
  have mem: "fd \<in> set (sw_open (socket_close a w)) \<longleftrightarrow> fd \<in> set (sw_open w) \<and> fd \<noteq> get_fd w a" if "0 \<le> fd" for fd
    using d that by (auto simp: eff)
  have ex: "(fd \<in> set (sw_open w) \<and> fd \<noteq> get_fd w a) = (\<exists>c. c \<noteq> a \<and> sw_objects w c = Some fd)" if "0 \<le> fd" for fd
  proof
    assume l: "fd \<in> set (sw_open w) \<and> fd \<noteq> get_fd w a"
    then obtain c where c: "sw_objects w c = Some fd" using assms that unfolding owned_def by blast
    with l have "c \<noteq> a" by (auto simp: get_fd_def)
    with c show "\<exists>c. c \<noteq> a \<and> sw_objects w c = Some fd" by blast
  next
    assume "\<exists>c. c \<noteq> a \<and> sw_objects w c = Some fd"
    then obtain c where c: "c \<noteq> a" "sw_objects w c = Some fd" by blast
    then have "sw_objects w a \<noteq> Some fd" using assms that unfolding owned_def by blast
    with that have "fd \<noteq> get_fd w a" by (auto simp: get_fd_def split: option.splits)
    with c(2) show "fd \<in> set (sw_open w) \<and> fd \<noteq> get_fd w a" using assms that unfolding owned_def by blast
  qed
  have dist: "distinct (sw_open (socket_close a w))" using d unfolding eff by simp
  have "set (sw_open (socket_close a w)) \<subseteq> set (sw_open w)"
    unfolding eff using set_remove1_subset by (cases "get_fd w a \<ge> 0") simp_all
  then have pos: "\<forall>fd \<in> set (sw_open (socket_close a w)). 0 \<le> fd" using assms unfolding owned_def by blast
  have uniq: "c = e" if "0 \<le> fd" "c \<noteq> a \<and> sw_objects w c = Some fd" "e \<noteq> a \<and> sw_objects w e = Some fd" for c e fd
    using that assms unfolding owned_def by blast
  show ?thesis
    unfolding owned_def
  proof (intro conjI allI impI)
    show "\<not> sw_stale (socket_close a w)" using assms unfolding eff owned_def by blast
    show "fd \<in> set (sw_open (socket_close a w)) \<longleftrightarrow> (\<exists>c. sw_objects (socket_close a w) c = Some fd)" if "0 \<le> fd" for fd
      unfolding mem [OF that] ex [OF that] holds_after_close [OF that] ..
    show "c = e" if "0 \<le> fd" "sw_objects (socket_close a w) c = Some fd" "sw_objects (socket_close a w) e = Some fd" for c e fd
      using that(2,3) uniq [OF that(1)] unfolding holds_after_close [OF that(1)] by blast
  qed (fact dist pos)+
qed

lemma closed_fd: "get_fd (socket_close a w) a < 0"
  by (simp add: socket_close_def sock_defs split: option.splits)

lemma owned_forget:
  assumes "owned w" and "get_fd w a < 0"
  shows "owned (w\<lparr>sw_objects := (sw_objects w)(a := None)\<rparr>)"
proof -
  have "((sw_objects w)(a := None)) c = Some fd \<longleftrightarrow> sw_objects w c = Some fd" if "0 \<le> fd" for c fd
    using assms(2) that by (auto simp: get_fd_def)
  with assms(1) show ?thesis by (simp add: owned_def del: fun_upd_apply)
qed

lemma owned_step: "sock_step w w' \<Longrightarrow> owned w \<Longrightarrow> owned w'"
proof (induction rule: sock_step.induct)
  case (step_move_construct w a b)
  then show ?case
    unfolding socket_move_construct_def by (intro owned_transfer) (auto simp: get_fd_def)
next
  case (step_move_assign w a b)
  then show ?case
    unfolding socket_move_assign_def Let_def by (auto intro: owned_transfer owned_close closed_fd)
next
  case (step_destroy w a)
  then show ?case unfolding socket_destroy_def Let_def by (intro owned_forget owned_close closed_fd)
qed (auto simp: socket_default_def socket_adopt_def intro: owned_fresh owned_open owned_close)

text \<open>
  C24 (invariant). Whatever a program does with sockets (constructing, adopting descriptors,
  moving them around, onto themselves too, closing and destroying), every open descriptor
  has exactly one owner, every descriptor an object holds is open, no descriptor is
  closed that is not open (so none is closed twice), and once every object is destroyed no
  descriptor is left open.
\<close>

theorem sockets_own_descriptors:
  assumes "sock_reachable w"
  shows "distinct (sw_open w) \<and> \<not> sw_stale w \<and>
         (\<forall>fd. 0 \<le> fd \<longrightarrow> (fd \<in> set (sw_open w) \<longleftrightarrow> (\<exists>!a. sw_objects w a = Some fd))) \<and>
         (sw_objects w = Map.empty \<longrightarrow> sw_open w = [])"
proof -
  have "owned w" using assms by (induction rule: sock_reachable.induct) (auto intro: owned_start owned_step)
  then have "distinct (sw_open w)" "\<not> sw_stale w"
      "\<forall>fd. 0 \<le> fd \<longrightarrow> (fd \<in> set (sw_open w) \<longleftrightarrow> (\<exists>!a. sw_objects w a = Some fd))"
      "\<forall>fd \<in> set (sw_open w). 0 \<le> fd \<and> (\<exists>a. sw_objects w a = Some fd)"
    unfolding owned_def by blast+
  then show ?thesis by (auto intro: last_in_set)
qed

text \<open>A descriptor is accepted into a temporary, moved into a member, and released with it.\<close>

theorem sockets_own_descriptors_witness:
  "\<exists>w. sock_reachable w \<and> sw_closed w = [7] \<and> sw_objects w = Map.empty \<and> sw_open w = []"
proof -
  let ?w1 = "socket_adopt 1 7 (no_sockets\<lparr>sw_open := [7]\<rparr>)"
  let ?w2 = "socket_move_construct 2 1 ?w1"
  let ?w3 = "socket_destroy 1 ?w2"
  let ?w4 = "socket_destroy 2 ?w3"
  have "sock_step no_sockets ?w1"
    using step_open [of no_sockets 1 7] by (simp add: no_sockets_def)
  then have 1: "sock_reachable ?w1" using reach_start reach_step by blast
  have "sock_step ?w1 ?w2"
    by (rule step_move_construct) (simp_all add: socket_adopt_def no_sockets_def set_fd_def)
  with 1 have 2: "sock_reachable ?w2" using reach_step by blast
  have "sock_step ?w2 ?w3"
    by (rule step_destroy) (simp add: socket_move_construct_def set_fd_def)
  with 2 have 3: "sock_reachable ?w3" using reach_step by blast
  have "sock_step ?w3 ?w4"
    by (rule step_destroy) (simp add: socket_destroy_def Let_def socket_close_def socket_move_construct_def
        socket_adopt_def no_sockets_def sock_defs)
  with 3 have r: "sock_reachable ?w4" using reach_step by blast
  have e: "sw_closed ?w4 = [7]" "sw_objects ?w4 = Map.empty"
    by (simp_all add: socket_destroy_def Let_def socket_close_def socket_move_construct_def
        socket_adopt_def no_sockets_def sock_defs fun_eq_iff)
  from sockets_own_descriptors [OF r] r e show ?thesis by auto
qed

end
