(* ===== verification/Stream_Lifetime.thy ===== *)
theory Stream_Lifetime
  imports Socket_Ownership Net_Stream
begin

text \<open>
  The objects behind one connection: the sockets a descriptor is moved through from the worker
  to the stream, and the \<^verbatim>\<open>SSL\<close> object of a TLS stream (\<^verbatim>\<open>src/src/tls/stream.cpp\<close>,
  \<^verbatim>\<open>src/src/net/plain_stream.cpp\<close>, \<^verbatim>\<open>default_stream_factory::create\<close>, \<^verbatim>\<open>connection_handler::handle_connection\<close> and
  the worker's call of it). Addresses of objects are arguments; what OpenSSL answers is one too.
\<close>

section \<open>The store\<close>

text \<open>
  \<open>lw_ssl\<close> maps each live \<^verbatim>\<open>SSL\<close> object to the descriptor bound to it (\<open>-1\<close> for none), \<open>lw_freed\<close> are the freed ones
  in order, and \<open>lw_dangling\<close> records a descriptor closed while a live \<^verbatim>\<open>SSL\<close> object is bound to it.
\<close>

record life_world =
  lw_socks :: sock_world
  lw_ssl :: "nat \<rightharpoonup> int"
  lw_next :: nat
  lw_freed :: "nat list"
  lw_dangling :: bool

definition on_socks :: "(sock_world \<Rightarrow> sock_world) \<Rightarrow> life_world \<Rightarrow> life_world" where
  "on_socks f w = w\<lparr>lw_socks := f (lw_socks w)\<rparr>"

definition closing :: "nat \<Rightarrow> life_world \<Rightarrow> life_world" where
  "closing a w =
     (let fd = get_fd (lw_socks w) a
      in w\<lparr>lw_dangling := (lw_dangling w \<or> (0 \<le> fd \<and> fd \<in> ran (lw_ssl w)))\<rparr>)"

definition move_socket :: "nat \<Rightarrow> nat \<Rightarrow> life_world \<Rightarrow> life_world" where
  "move_socket this other = on_socks (socket_move_construct this other)"

definition destroy_socket :: "nat \<Rightarrow> life_world \<Rightarrow> life_world" where
  "destroy_socket this w = on_socks (socket_destroy this) (closing this w)"

section \<open>OpenSSL (answers)\<close>

record ssl_conn =
  sc_new :: bool                          \<comment> \<open>\<^verbatim>\<open>SSL_new\<close> yields an object\<close>
  sc_set_fd :: bool                       \<comment> \<open>\<^verbatim>\<open>SSL_set_fd\<close> returns 1\<close>
  sc_first_error :: "string option"

definition ssl_new :: "ssl_conn \<Rightarrow> life_world \<Rightarrow> nat option \<times> life_world" where
  "ssl_new a w =
     (if sc_new a then (Some (lw_next w), w\<lparr>lw_ssl := (lw_ssl w)(lw_next w \<mapsto> - 1), lw_next := Suc (lw_next w)\<rparr>)
      else (None, w))"

definition ssl_set_fd :: "ssl_conn \<Rightarrow> nat \<Rightarrow> int \<Rightarrow> life_world \<Rightarrow> bool \<times> life_world" where
  "ssl_set_fd a ssl fd w = (sc_set_fd a, if sc_set_fd a then w\<lparr>lw_ssl := (lw_ssl w)(ssl \<mapsto> fd)\<rparr> else w)"

text \<open>The deleter of the owning pointer; a null pointer is not passed to it.\<close>

definition ssl_free :: "nat option \<Rightarrow> life_world \<Rightarrow> life_world" where
  "ssl_free p w =
     (case p of None \<Rightarrow> w | Some ssl \<Rightarrow> w\<lparr>lw_ssl := (lw_ssl w)(ssl := None), lw_freed := lw_freed w @ [ssl]\<rparr>)"

section \<open>Streams (tls/stream.cpp, plain_stream.cpp)\<close>

datatype stream_object =
    Plain_object nat                \<comment> \<open>address of \<^verbatim>\<open>_socket\<close>\<close>
  | Tls_object nat "nat option"     \<comment> \<open>address of \<^verbatim>\<open>_socket\<close>, \<^verbatim>\<open>_ssl\<close>\<close>

definition create_ssl :: "ssl_conn \<Rightarrow> int \<Rightarrow> life_world \<Rightarrow> nat result \<times> life_world" where
  "create_ssl a fd w =
     (case ssl_new a w of
        (None, w1) \<Rightarrow> (Inl (Runtime_Error (ssl_error_message (sc_first_error a) ''failed to create TLS connection state'')), w1)
      | (Some ssl, w1) \<Rightarrow>
          (case ssl_set_fd a ssl fd w1 of
             (False, w2) \<Rightarrow> (Inl (Runtime_Error (ssl_error_message (sc_first_error a) ''failed to bind TLS state to socket'')), ssl_free (Some ssl) w2)
           | (True, w2) \<Rightarrow> (Inr ssl, w2)))"

text \<open>The constructor with its member at \<open>this\<close> and its argument at \<open>arg\<close>; an exception destroys the member.\<close>

definition tls_stream_new :: "ssl_conn \<Rightarrow> nat \<Rightarrow> nat \<Rightarrow> life_world \<Rightarrow> stream_object result \<times> life_world" where
  "tls_stream_new a this arg w =
     (let w1 = move_socket this arg w in
      case create_ssl a (get_fd (lw_socks w1) this) w1 of
        (Inl e, w2) \<Rightarrow> (Inl e, destroy_socket this w2)
      | (Inr ssl, w2) \<Rightarrow> (Inr (Tls_object this (Some ssl)), w2))"

definition plain_stream_new :: "nat \<Rightarrow> nat \<Rightarrow> life_world \<Rightarrow> stream_object \<times> life_world" where
  "plain_stream_new this arg w = (Plain_object this, move_socket this arg w)"

fun stream_is_valid :: "life_world \<Rightarrow> stream_object \<Rightarrow> bool" where
  "stream_is_valid w (Plain_object s) = socket_is_valid (lw_socks w) s"
| "stream_is_valid w (Tls_object s ssl) = (socket_is_valid (lw_socks w) s \<and> ssl \<noteq> None)"

text \<open>\<^verbatim>\<open>close\<close> resets \<^verbatim>\<open>_ssl\<close> before it closes the socket; the destructor does so in the reverse order of the members.\<close>

fun stream_close :: "stream_object \<Rightarrow> life_world \<Rightarrow> stream_object \<times> life_world" where
  "stream_close (Plain_object s) w = (Plain_object s, on_socks (socket_close s) (closing s w))"
| "stream_close (Tls_object s ssl) w =
     (let w1 = ssl_free ssl w in (Tls_object s None, on_socks (socket_close s) (closing s w1)))"

fun stream_destroy :: "stream_object \<Rightarrow> life_world \<Rightarrow> life_world" where
  "stream_destroy (Plain_object s) w = destroy_socket s w"
| "stream_destroy (Tls_object s ssl) w = destroy_socket s (ssl_free ssl w)"

section \<open>From the worker to the stream\<close>

text \<open>
  \<^verbatim>\<open>default_stream_factory::create\<close>, its parameter at \<open>client\<close>: a TLS stream when there is a context. The constructor's
  argument is a temporary at \<open>tmp\<close>, the stream's member is at \<open>member\<close>.
\<close>

definition factory_create ::
    "ssl_conn option \<Rightarrow> nat \<Rightarrow> nat \<Rightarrow> nat \<Rightarrow> life_world \<Rightarrow> stream_object result \<times> life_world" where
  "factory_create tls client tmp member w =
     (let w1 = move_socket tmp client w in
      case (case tls of
              Some a \<Rightarrow> tls_stream_new a member tmp w1
            | None \<Rightarrow> (case plain_stream_new member tmp w1 of (s, w2) \<Rightarrow> (Inr s, w2))) of
        (res, w3) \<Rightarrow> (res, destroy_socket tmp w3))"

text \<open>
  An I/O call on a stream. It needs an open descriptor and, for TLS, a live \<^verbatim>\<open>SSL\<close> object bound to it.
\<close>

fun stream_io :: "stream_object \<Rightarrow> life_world \<Rightarrow> life_world" where
  "stream_io (Plain_object s) w = w\<lparr>lw_dangling := (lw_dangling w \<or> \<not> socket_is_valid (lw_socks w) s)\<rparr>"
| "stream_io (Tls_object s ssl) w =
     w\<lparr>lw_dangling := (lw_dangling w \<or> \<not> socket_is_valid (lw_socks w) s \<or>
         Option.bind ssl (lw_ssl w) \<noteq> Some (get_fd (lw_socks w) s))\<rparr>"

text \<open>
  \<^verbatim>\<open>handle_connection\<close>, its parameter at \<open>client\<close>: the stream lives until the function returns; the request loop only
  makes I/O calls on it, and only when it is valid. The result tells whether a stream was made.
\<close>

definition handle_connection_objects ::
    "ssl_conn option \<Rightarrow> nat \<Rightarrow> nat \<Rightarrow> nat \<Rightarrow> nat \<Rightarrow> nat \<Rightarrow> life_world \<Rightarrow> stream_object result \<times> life_world" where
  "handle_connection_objects tls calls client arg tmp member w =
     (let w1 = move_socket arg client w in
      case factory_create tls arg tmp member w1 of
        (res, w2) \<Rightarrow>
          let w3 = destroy_socket arg w2 in
          (res, case res of
                  Inl e \<Rightarrow> w3
                | Inr s \<Rightarrow> stream_destroy s (if stream_is_valid w3 s then (stream_io s ^^ calls) w3 else w3)))"

text \<open>
  The worker calls a \<^verbatim>\<open>std::function\<close> with the popped socket, which calls the lambda of \<^verbatim>\<open>server::run\<close>, which calls
  \<^verbatim>\<open>handle_connection\<close>: each parameter is moved from the one before and destroyed when its call ends.
\<close>

fun call_chain :: "nat list \<Rightarrow> (nat \<Rightarrow> life_world \<Rightarrow> 'r \<times> life_world) \<Rightarrow> nat \<Rightarrow> life_world \<Rightarrow> 'r \<times> life_world" where
  "call_chain [] f a w = f a w"
| "call_chain (p # ps) f a w = (case call_chain ps f p (move_socket p a w) of (r, w') \<Rightarrow> (r, destroy_socket p w'))"

definition worker_connection ::
    "ssl_conn option \<Rightarrow> nat \<Rightarrow> nat \<Rightarrow> nat \<times> nat \<times> nat \<Rightarrow> nat \<Rightarrow> nat \<Rightarrow> nat \<Rightarrow> life_world \<Rightarrow> stream_object result \<times> life_world" where
  "worker_connection tls calls popped params arg tmp member w =
     (case params of (wrapper, lambda, client) \<Rightarrow>
      case call_chain [wrapper, lambda, client] (\<lambda>c. handle_connection_objects tls calls c arg tmp member) popped w of
        (res, w') \<Rightarrow> (res, destroy_socket popped w'))"

section \<open>Everything is released once\<close>

text \<open>The store with the descriptor \<open>fd\<close> held by the object at \<open>a\<close>, next to moved-from objects.\<close>

definition held_by :: "life_world \<Rightarrow> nat \<Rightarrow> int \<Rightarrow> nat list \<Rightarrow> life_world" where
  "held_by w a fd empties =
     on_socks (\<lambda>s. s\<lparr>sw_objects := (foldr (\<lambda>e m. m(e \<mapsto> - 1)) empties (sw_objects s))(a \<mapsto> fd)\<rparr>) w"

lemma move_held: "b \<notin> set (a # es) \<Longrightarrow> a \<notin> set es \<Longrightarrow> move_socket b a (held_by w a fd es) = held_by w b fd (a # es)"
  by (auto simp: move_socket_def held_by_def on_socks_def socket_move_construct_def set_fd_def get_fd_def fun_eq_iff)

text \<open>The store after \<open>fd\<close> has been closed, with the moved-from objects still there.\<close>

definition gone :: "life_world \<Rightarrow> int \<Rightarrow> nat list \<Rightarrow> life_world" where
  "gone w fd empties =
     on_socks (\<lambda>s. (os_close fd s)\<lparr>sw_objects := foldr (\<lambda>e m. m(e \<mapsto> - 1)) empties (sw_objects s)\<rparr>)
       (w\<lparr>lw_dangling := (lw_dangling w \<or> fd \<in> ran (lw_ssl w))\<rparr>)"

lemma foldr_empties: "x \<notin> set es \<Longrightarrow> foldr (\<lambda>e m. m(e \<mapsto> - 1 :: int)) es m x = m x"
  by (induction es) auto

lemma foldr_forget:
  "e \<notin> set es \<Longrightarrow> m e = None \<Longrightarrow> (foldr (\<lambda>e m. m(e \<mapsto> - 1 :: int)) (e # es) m)(e := None) = foldr (\<lambda>e m. m(e \<mapsto> - 1)) es m"
  using foldr_empties [of e es m] by (simp add: fun_upd_idem)

lemmas life_defs = move_socket_def destroy_socket_def closing_def held_by_def gone_def on_socks_def Let_def
  socket_destroy_def socket_close_def socket_move_construct_def set_fd_def get_fd_def os_close_def

lemma destroy_moved_from:
  assumes "e \<notin> set (a # es)" and "sw_objects (lw_socks w) e = None"
  shows "destroy_socket e (held_by w a fd (e # es)) = held_by w a fd es"
  using assms foldr_forget [of e es "sw_objects (lw_socks w)"] by (simp add: life_defs fun_upd_twist)

lemma destroy_owner:
  assumes "a \<notin> set es" and "sw_objects (lw_socks w) a = None" and "0 \<le> fd"
  shows "destroy_socket a (held_by w a fd es) = gone w fd es"
  using assms foldr_empties [of a es "sw_objects (lw_socks w)"] by (simp add: life_defs fun_upd_idem)

lemma destroy_gone:
  assumes "e \<notin> set es" and "sw_objects (lw_socks w) e = None"
  shows "destroy_socket e (gone w fd (e # es)) = gone w fd es"
  using assms foldr_forget [of e es "sw_objects (lw_socks w)"] by (simp add: life_defs)

lemma held_by_ssl [simp]:
  "lw_ssl (held_by w a fd es) = lw_ssl w" "lw_next (held_by w a fd es) = lw_next w" "lw_dangling (held_by w a fd es) = lw_dangling w"
  "lw_freed (held_by w a fd es) = lw_freed w" "get_fd (lw_socks (held_by w a fd es)) a = fd"
  "lw_ssl_update f (held_by w a fd es) = held_by (lw_ssl_update f w) a fd es"
  "lw_next_update g (held_by w a fd es) = held_by (lw_next_update g w) a fd es"
  "lw_freed_update h (held_by w a fd es) = held_by (lw_freed_update h w) a fd es"
  by (simp_all add: held_by_def on_socks_def get_fd_def)

lemma held_valid: "0 \<le> fd \<Longrightarrow> socket_is_valid (lw_socks (held_by w a fd es)) a"
  by (simp add: socket_is_valid_def)

lemma io_plain: "0 \<le> fd \<Longrightarrow> (stream_io (Plain_object a) ^^ n) (held_by w a fd es) = held_by w a fd es"
  by (induction n) (simp_all add: held_valid)

lemma io_tls:
  "0 \<le> fd \<Longrightarrow> lw_ssl w ssl = Some fd \<Longrightarrow> (stream_io (Tls_object a (Some ssl)) ^^ n) (held_by w a fd es) = held_by w a fd es"
  by (induction n) (simp_all add: held_valid)

text \<open>Building a stream from the factory's parameter.\<close>

lemma factory_create_held:
  assumes "distinct (member # tmp # arg # es)" and "list_all (\<lambda>e. sw_objects (lw_socks w) e = None) (member # tmp # arg # es)"
    and "0 \<le> fd" and "lw_ssl w (lw_next w) = None"
  obtains (plain) "tls = None" and "factory_create tls arg tmp member (held_by w arg fd es) =
      (Inr (Plain_object member), held_by w member fd (arg # es))"
  | (tls) w' where "tls \<noteq> None" and "factory_create tls arg tmp member (held_by w arg fd es) =
      (Inr (Tls_object member (Some (lw_next w))), held_by w' member fd (arg # es))"
      and "w' = w\<lparr>lw_next := Suc (lw_next w), lw_ssl := (lw_ssl w)(lw_next w \<mapsto> fd)\<rparr>"
  | (failed) e w' where "tls \<noteq> None" and "factory_create tls arg tmp member (held_by w arg fd es) = (Inl e, gone w' fd (arg # es))"
      and "w' = w \<or> w' = w\<lparr>lw_next := Suc (lw_next w), lw_freed := lw_freed w @ [lw_next w]\<rparr>"
proof -
  have m1: "move_socket tmp arg (held_by w arg fd es) = held_by w tmp fd (arg # es)"
    and m2: "move_socket member tmp (held_by w tmp fd (arg # es)) = held_by w member fd (tmp # arg # es)"
    using assms(1) by (auto intro!: move_held)
  have d: "destroy_socket tmp (held_by v member fd (tmp # arg # es)) = held_by v member fd (arg # es)"
    and g: "destroy_socket tmp (destroy_socket member (held_by v member fd (tmp # arg # es))) = gone v fd (arg # es)"
    if "lw_socks v = lw_socks w" for v
    using that assms(1,2) destroy_owner [of member "tmp # arg # es" v fd] assms(3)
    by (auto intro!: destroy_moved_from destroy_gone)
  show thesis
  proof (cases tls)
    case None
    with plain m1 m2 d show thesis by (simp add: factory_create_def plain_stream_new_def)
  next
    case (Some a)
    note new = factory_create_def tls_stream_new_def create_ssl_def ssl_new_def ssl_set_fd_def ssl_free_def
    have same: "(lw_ssl w)(lw_next w := None) = lw_ssl w" using assms(4) by (simp add: fun_upd_idem)
    consider "\<not> sc_new a" | "sc_new a" "\<not> sc_set_fd a" | "sc_new a" "sc_set_fd a" by blast
    then show thesis
    proof cases
      case 1
      with Some m1 m2 g [of w] have "factory_create tls arg tmp member (held_by w arg fd es) =
          (Inl (Runtime_Error (ssl_error_message (sc_first_error a) ''failed to create TLS connection state'')), gone w fd (arg # es))"
        by (simp add: new Let_def)
      with failed Some show thesis by blast
    next
      case 2
      let ?w = "w\<lparr>lw_next := Suc (lw_next w), lw_freed := lw_freed w @ [lw_next w]\<rparr>"
      from 2 Some m1 m2 g [of ?w] have "factory_create tls arg tmp member (held_by w arg fd es) =
          (Inl (Runtime_Error (ssl_error_message (sc_first_error a) ''failed to bind TLS state to socket'')), gone ?w fd (arg # es))"
        by (simp add: new Let_def same)
      with failed Some show thesis by blast
    next
      case 3
      with Some tls m1 m2 d show thesis by (simp add: new)
    qed
  qed
qed

text \<open>The end of the stream, and of the socket it came from.\<close>

lemma handle_connection_end:
  assumes "distinct (member # tmp # arg # client # es)"
    and "list_all (\<lambda>a. sw_objects (lw_socks w) a = None) (member # tmp # arg # client # es)"
    and "0 \<le> fd" and "lw_ssl w (lw_next w) = None"
    and "handle_connection_objects tls calls client arg tmp member (held_by w client fd es) = (res, w')"
  shows "\<exists>v. w' = gone v fd (client # es) \<and> lw_socks v = lw_socks w \<and> lw_ssl v = lw_ssl w \<and> lw_dangling v = lw_dangling w \<and>
      lw_freed v = lw_freed w @ [lw_next w..<lw_next v]"
proof -
  have m: "move_socket arg client (held_by w client fd es) = held_by w arg fd (client # es)"
    using assms(1) by (auto intro!: move_held)
  have da: "destroy_socket arg (held_by v member fd (arg # client # es)) = held_by v member fd (client # es)"
    and dm: "destroy_socket member (held_by v member fd (client # es)) = gone v fd (client # es)"
    and dg: "destroy_socket arg (gone v fd (arg # client # es)) = gone v fd (client # es)"
    if "lw_socks v = lw_socks w" for v
    using that assms(1-3) by (auto intro!: destroy_moved_from destroy_owner destroy_gone)
  note run = handle_connection_objects_def m Let_def
  show ?thesis
  proof (cases rule: factory_create_held [OF assms(1-4), of tls])
    case 1
    with assms(3,5) da [of w] dm [of w] have "w' = gone w fd (client # es)"
      by (auto simp: run held_valid io_plain)
    moreover have "lw_freed w = lw_freed w @ [lw_next w..<lw_next w]" by simp
    ultimately show ?thesis by blast
  next
    case tls: (2 v)
    let ?v = "v\<lparr>lw_ssl := (lw_ssl v)(lw_next w := None), lw_freed := lw_freed v @ [lw_next w]\<rparr>"
    have v: "lw_socks v = lw_socks w" "lw_socks ?v = lw_socks w" "lw_ssl v (lw_next w) = Some fd"
      "lw_ssl ?v = lw_ssl w" "lw_dangling ?v = lw_dangling w" "lw_freed ?v = lw_freed w @ [lw_next w..<lw_next ?v]"
      using tls(3) assms(4) by (simp_all add: fun_upd_idem)
    from tls(2) assms(3,5) da [OF v(1)] dm [OF v(2)] v(3) have "w' = gone ?v fd (client # es)"
      by (auto simp: run held_valid io_tls ssl_free_def)
    with v(2,4-6) show ?thesis by blast
  next
    case failed: (3 e v)
    then have v: "lw_socks v = lw_socks w" "lw_ssl v = lw_ssl w" "lw_dangling v = lw_dangling w"
      "lw_freed v = lw_freed w @ [lw_next w..<lw_next v]" by auto
    from failed(2) assms(5) dg [OF v(1)] have "w' = gone v fd (client # es)" by (auto simp: run)
    with v show ?thesis by blast
  qed
qed

text \<open>Back through the parameters of the calls.\<close>

lemma worker_connection_end:
  assumes "distinct [popped, wrapper, lambda, client, arg, tmp, member]"
    and "list_all (\<lambda>a. sw_objects (lw_socks w) a = None) [popped, wrapper, lambda, client, arg, tmp, member]"
    and "0 \<le> fd" and "lw_ssl w (lw_next w) = None"
    and "worker_connection tls calls popped (wrapper, lambda, client) arg tmp member (held_by w popped fd []) = (res, w')"
  shows "\<exists>v. w' = gone v fd [] \<and> lw_socks v = lw_socks w \<and> lw_ssl v = lw_ssl w \<and> lw_dangling v = lw_dangling w \<and>
      lw_freed v = lw_freed w @ [lw_next w..<lw_next v]"
proof -
  let ?es = "[lambda, wrapper, popped]"
  have m: "move_socket wrapper popped (held_by w popped fd []) = held_by w wrapper fd [popped]"
      "move_socket lambda wrapper (held_by w wrapper fd [popped]) = held_by w lambda fd [wrapper, popped]"
      "move_socket client lambda (held_by w lambda fd [wrapper, popped]) = held_by w client fd ?es"
    using assms(1) by (auto intro!: move_held)
  obtain res1 w1 where h: "handle_connection_objects tls calls client arg tmp member (held_by w client fd ?es) = (res1, w1)"
    by fastforce
  have d: "distinct (member # tmp # arg # client # ?es)" using assms(1) by auto
  have n: "list_all (\<lambda>a. sw_objects (lw_socks w) a = None) (member # tmp # arg # client # ?es)" using assms(2) by simp
  from handle_connection_end [OF d n assms(3,4) h] obtain v where
    v: "w1 = gone v fd (client # ?es)" "lw_socks v = lw_socks w" "lw_ssl v = lw_ssl w" "lw_dangling v = lw_dangling w"
    "lw_freed v = lw_freed w @ [lw_next w..<lw_next v]" by blast
  have "w' = destroy_socket popped (destroy_socket wrapper (destroy_socket lambda (destroy_socket client w1)))"
    using assms(5) h by (simp add: worker_connection_def m)
  also have "\<dots> = gone v fd []"
    using assms(1,2) v(2) by (auto simp: v(1) destroy_gone)
  finally show ?thesis using v(2-5) by blast
qed

text \<open>All of it together, on the store of the process.\<close>

lemma worker_connection_run:
  assumes "owned (lw_socks w)" and "sw_objects (lw_socks w) popped = Some fd" and "0 \<le> fd"
    and "distinct [popped, wrapper, lambda, client, arg, tmp, member]"
    and "list_all (\<lambda>a. sw_objects (lw_socks w) a = None) [wrapper, lambda, client, arg, tmp, member]"
    and "lw_ssl w (lw_next w) = None" and "fd \<notin> ran (lw_ssl w)" and "\<not> lw_dangling w"
    and "worker_connection tls calls popped (wrapper, lambda, client) arg tmp member w = (res, w')"
  shows "lw_socks w' = socket_destroy popped (lw_socks w) \<and> owned (lw_socks w') \<and>
         sw_closed (lw_socks w') = sw_closed (lw_socks w) @ [fd] \<and> fd \<notin> set (sw_open (lw_socks w')) \<and>
         lw_ssl w' = lw_ssl w \<and> lw_freed w' = lw_freed w @ [lw_next w..<lw_next w'] \<and> \<not> lw_dangling w'"
proof -
  let ?w0 = "on_socks (\<lambda>s. s\<lparr>sw_objects := (sw_objects s)(popped := None)\<rparr>) w"
  have w: "held_by ?w0 popped fd [] = w" using assms(2) by (simp add: held_by_def on_socks_def fun_upd_idem)
  have "list_all (\<lambda>a. sw_objects (lw_socks ?w0) a = None) [popped, wrapper, lambda, client, arg, tmp, member]"
      "lw_ssl ?w0 (lw_next ?w0) = None"
    using assms(5,6) by (auto simp: on_socks_def)
  from worker_connection_end [OF assms(4) this(1) assms(3) this(2), of tls calls res w'] assms(9) w obtain v where
    v: "w' = gone v fd []" "lw_socks v = lw_socks ?w0" "lw_ssl v = lw_ssl ?w0" "lw_dangling v = lw_dangling ?w0"
      "lw_freed v = lw_freed ?w0 @ [lw_next ?w0..<lw_next v]" by auto
  have s: "lw_socks w' = socket_destroy popped (lw_socks w)"
    using assms(2,3) v(1,2) by (simp add: life_defs)
  have o: "owned (lw_socks w')" unfolding s by (rule owned_step [OF step_destroy assms(1)]) (simp add: assms(2))
  have "distinct (sw_open (lw_socks w))" using assms(1) by (simp add: owned_def)
  then have c: "sw_closed (lw_socks w') = sw_closed (lw_socks w) @ [fd]" "fd \<notin> set (sw_open (lw_socks w'))"
    using assms(2,3) unfolding s by (simp_all add: socket_destroy_def socket_close_def Let_def set_fd_def get_fd_def os_close_def)
  have "lw_ssl w' = lw_ssl w" "\<not> lw_dangling w'" "lw_freed w' = lw_freed w @ [lw_next w..<lw_next w']"
    using v(1,3-5) assms(7,8) by (simp_all add: gone_def on_socks_def)
  with s o c show ?thesis by blast
qed

text \<open>
  C17 (safety). What a worker takes from the queue is released exactly once, whatever OpenSSL answers and
  however many I/O calls are made: the descriptor, moved through seven socket objects, is closed
  once and by then nothing else owns it, the \<^verbatim>\<open>SSL\<close> objects made for it are freed, each once, I/O calls only
  ever see a live \<^verbatim>\<open>SSL\<close> object bound to the open descriptor, and no \<^verbatim>\<open>SSL\<close> object outlives its
  descriptor; for the sockets of the process all this amounts to destroying the popped one.
\<close>

theorem worker_connection_releases:
  assumes "owned (lw_socks w)" and "sw_objects (lw_socks w) popped = Some fd" and "0 \<le> fd"
    and "distinct [popped, wrapper, lambda, client, arg, tmp, member]"
    and "list_all (\<lambda>a. sw_objects (lw_socks w) a = None) [wrapper, lambda, client, arg, tmp, member]"
    and "lw_ssl w (lw_next w) = None" and "fd \<notin> ran (lw_ssl w)" and "\<not> lw_dangling w"
    and "worker_connection tls calls popped (wrapper, lambda, client) arg tmp member w = (res, w')"
  shows "lw_socks w' = socket_destroy popped (lw_socks w) \<and> owned (lw_socks w') \<and>
         sw_closed (lw_socks w') = sw_closed (lw_socks w) @ [fd] \<and> fd \<notin> set (sw_open (lw_socks w')) \<and>
         lw_ssl w' = lw_ssl w \<and> lw_freed w' = lw_freed w @ [lw_next w..<lw_next w'] \<and> \<not> lw_dangling w'"
  by (rule worker_connection_run [OF assms])

text \<open>Closing a stream early changes nothing: the destructor finds nothing left to free or close.\<close>

lemma close_then_destroy: "stream_destroy (fst (stream_close s w)) (snd (stream_close s w)) = stream_destroy s w"
  by (cases s) (auto simp: life_defs ssl_free_def split: option.splits)

text \<open>A TLS connection on descriptor 7.\<close>

definition accepted_world :: life_world where
  "accepted_world =
     \<lparr>lw_socks = socket_adopt 0 7 (no_sockets\<lparr>sw_open := [7]\<rparr>), lw_ssl = Map.empty, lw_next = 0, lw_freed = [], lw_dangling = False\<rparr>"

theorem worker_connection_releases_witness:
  "\<exists>res w'. worker_connection (Some \<lparr>sc_new = True, sc_set_fd = True, sc_first_error = None\<rparr>) 3 0 (1, 2, 3) 4 5 6 accepted_world =
          (res, w') \<and> sw_closed (lw_socks w') = [7] \<and> lw_ssl w' = Map.empty \<and> \<not> lw_dangling w'"
proof -
  let ?tls = "Some \<lparr>sc_new = True, sc_set_fd = True, sc_first_error = None\<rparr>"
  obtain res w' where r: "worker_connection ?tls 3 0 (1, 2, 3) 4 5 6 accepted_world = (res, w')" by fastforce
  have o: "owned (lw_socks accepted_world)"
    using owned_step [OF step_open [of no_sockets 0 7] owned_start] by (simp add: accepted_world_def no_sockets_def)
  have s: "sw_objects (lw_socks accepted_world) 0 = Some 7" "sw_closed (lw_socks accepted_world) = []"
      "list_all (\<lambda>a. sw_objects (lw_socks accepted_world) a = None) [1, 2, 3, 4, 5, 6]"
      "lw_ssl accepted_world (lw_next accepted_world) = None" "7 \<notin> ran (lw_ssl accepted_world)" "\<not> lw_dangling accepted_world"
      "lw_ssl accepted_world = Map.empty"
    by (simp_all add: accepted_world_def socket_adopt_def no_sockets_def set_fd_def)
  from worker_connection_releases [OF o s(1) _ _ s(3-6) r] r s(2,7) show ?thesis by auto
qed

end
