(* ===== verification/Server_Sockets.thy ===== *)
theory Server_Sockets
  imports Module_Loader Server_Runtime Stream_Lifetime
begin

text \<open>
  The socket objects of a running server: where the descriptor of each client is, from
  \<^verbatim>\<open>accept\<close> (\<^verbatim>\<open>src/src/net/listener.cpp\<close>) through the accept loop (\<^verbatim>\<open>src/src/server.cpp\<close>), the queue
  (\<^verbatim>\<open>src/src/app/work_queue.cpp\<close>) and the workers (\<^verbatim>\<open>src/src/app/worker_pool.cpp\<close>) to its close. Each step of the
  server runs the member functions of the sockets it touches on the store of \<open>Socket_Ownership\<close>, and the trace of
  descriptors opened and closed is read off that store.
\<close>

section \<open>Resources\<close>

datatype resource_event =
    Fd_open int
  | Fd_close int
  | Ctx_new
  | Ctx_free
  | Module_event load_event
  | Thread_start nat
  | Thread_join nat

section \<open>Addresses\<close>

text \<open>
  The frame of the accept loop has three sockets, the frame of a worker eight; elements of the queue are
  allocated one after the other.
\<close>

definition accept_temporary :: nat where "accept_temporary = 0"
definition accepted_object :: nat where "accepted_object = 2"
definition push_parameter :: nat where "push_parameter = 4"

definition frame_slot :: "nat \<Rightarrow> nat \<Rightarrow> nat" where
  "frame_slot i k = 6 + 16 * i + 2 * k"

definition queue_element :: "nat \<Rightarrow> nat" where
  "queue_element j = 2 * j + 1"

lemma addresses [simp]:
  "frame_slot i k \<noteq> accept_temporary" "frame_slot i k \<noteq> accepted_object" "frame_slot i k \<noteq> push_parameter"
  "accept_temporary \<noteq> frame_slot i k" "accepted_object \<noteq> frame_slot i k" "push_parameter \<noteq> frame_slot i k"
  "accept_temporary \<noteq> accepted_object" "accepted_object \<noteq> accept_temporary"
  "accept_temporary \<noteq> push_parameter" "push_parameter \<noteq> accept_temporary"
  "accepted_object \<noteq> push_parameter" "push_parameter \<noteq> accepted_object"
  by (simp_all add: frame_slot_def accept_temporary_def accepted_object_def push_parameter_def)

lemma element_frame: "queue_element j \<noteq> frame_slot i k"
proof -
  have "odd (queue_element j)" "even (frame_slot i k)" by (simp_all add: queue_element_def frame_slot_def)
  then show ?thesis by metis
qed

lemma element_addresses [simp]:
  "queue_element j \<noteq> frame_slot i k" "frame_slot i k \<noteq> queue_element j"
  using element_frame [of j i k] by simp_all

lemma element_accept [simp]:
  "queue_element j \<noteq> accept_temporary" "accept_temporary \<noteq> queue_element j"
  "queue_element j \<noteq> accepted_object" "accepted_object \<noteq> queue_element j"
  "queue_element j \<noteq> push_parameter" "push_parameter \<noteq> queue_element j"
  "queue_element j = queue_element j' \<longleftrightarrow> j = j'"
  unfolding queue_element_def accept_temporary_def accepted_object_def push_parameter_def by arith+

lemma frame_slot_eq:
  assumes "k < 8" and "k' < 8"
  shows "frame_slot i k = frame_slot i' k' \<longleftrightarrow> i = i' \<and> k = k'"
proof
  assume "frame_slot i k = frame_slot i' k'"
  then have e: "i * 8 + k = i' * 8 + k'" by (simp add: frame_slot_def)
  from arg_cong [OF e, of "\<lambda>x. x div 8"] arg_cong [OF e, of "\<lambda>x. x mod 8"] assms show "i = i' \<and> k = k'" by simp
qed simp

section \<open>What each step does to the objects\<close>

record held =
  hd_world :: life_world
  hd_queue :: "nat list"        \<comment> \<open>addresses of the queue's elements\<close>
  hd_next :: nat

definition nothing_held :: held where
  "nothing_held =
     \<lparr>hd_world = \<lparr>lw_socks = no_sockets, lw_ssl = Map.empty, lw_next = 0, lw_freed = [], lw_dangling = False\<rparr>,
      hd_queue = [], hd_next = 0\<rparr>"

text \<open>\<^verbatim>\<open>listener::accept\<close> makes a socket of the new descriptor and moves it into the result.\<close>

definition accept_objects :: "int \<Rightarrow> life_world \<Rightarrow> life_world" where
  "accept_objects fd w =
     (let w1 = on_socks (\<lambda>s. socket_adopt accept_temporary fd (s\<lparr>sw_open := fd # sw_open s\<rparr>)) w;
          w2 = move_socket accepted_object accept_temporary w1
      in destroy_socket accept_temporary w2)"

text \<open>\<^verbatim>\<open>work_queue::try_push\<close> owns its parameter: it ends in the queue, or with the call.\<close>

definition push_objects :: "nat \<Rightarrow> life_world \<Rightarrow> life_world" where
  "push_objects element w =
     (let w1 = move_socket push_parameter accepted_object w;
          w2 = move_socket element push_parameter w1
      in destroy_socket push_parameter w2)"

definition push_refused_objects :: "life_world \<Rightarrow> life_world" where
  "push_refused_objects w = destroy_socket push_parameter (move_socket push_parameter accepted_object w)"

text \<open>\<^verbatim>\<open>work_queue::pop\<close> by worker \<open>i\<close>: through a local variable into the result.\<close>

definition pop_objects :: "nat \<Rightarrow> nat \<Rightarrow> life_world \<Rightarrow> life_world" where
  "pop_objects i element w =
     (let w1 = move_socket (frame_slot i 0) element w;
          w2 = destroy_socket element w1;
          w3 = move_socket (frame_slot i 1) (frame_slot i 0) w2
      in destroy_socket (frame_slot i 0) w3)"

text \<open>What OpenSSL answers on a connection, and the number of its I/O calls.\<close>

record connection_answers =
  ca_tls :: "ssl_conn option"
  ca_calls :: nat

text \<open>The rest of the worker's iteration.\<close>

definition serve_objects :: "nat \<Rightarrow> connection_answers \<Rightarrow> life_world \<Rightarrow> life_world" where
  "serve_objects i a w =
     snd (worker_connection (ca_tls a) (ca_calls a) (frame_slot i 1) (frame_slot i 2, frame_slot i 3, frame_slot i 4)
            (frame_slot i 5) (frame_slot i 6) (frame_slot i 7) w)"

text \<open>The accept loop's \<^verbatim>\<open>accepted\<close> ends with the iteration, also by \<^verbatim>\<open>continue\<close>.\<close>

fun step_objects :: "label \<Rightarrow> connection_answers \<Rightarrow> held \<Rightarrow> held" where
  "step_objects (L_refused c) a h =
     h\<lparr>hd_world := destroy_socket accepted_object (accept_objects (int (sock_fd c)) (hd_world h))\<rparr>"
| "step_objects (L_acquired c) a h = h\<lparr>hd_world := accept_objects (int (sock_fd c)) (hd_world h)\<rparr>"
| "step_objects (L_queued c) a h =
     h\<lparr>hd_world := destroy_socket accepted_object (push_objects (queue_element (hd_next h)) (hd_world h)),
       hd_queue := hd_queue h @ [queue_element (hd_next h)], hd_next := Suc (hd_next h)\<rparr>"
| "step_objects (L_not_queued c) a h = h\<lparr>hd_world := push_refused_objects (hd_world h)\<rparr>"
| "step_objects (L_dropped c r) a h = h\<lparr>hd_world := destroy_socket accepted_object (hd_world h)\<rparr>"
| "step_objects (L_started i c) a h =
     h\<lparr>hd_world := pop_objects i (hd (hd_queue h)) (hd_world h), hd_queue := tl (hd_queue h)\<rparr>"
| "step_objects (L_finished i c e) a h = h\<lparr>hd_world := serve_objects i a (hd_world h)\<rparr>"
| "step_objects _ a h = h"

text \<open>The queue's destructor.\<close>

definition destroy_queue :: "held \<Rightarrow> held" where
  "destroy_queue h = h\<lparr>hd_world := fold destroy_socket (hd_queue h) (hd_world h), hd_queue := []\<rparr>"

section \<open>Traces\<close>

fun opened :: "label \<Rightarrow> int list" where
  "opened (L_refused c) = [int (sock_fd c)]"
| "opened (L_acquired c) = [int (sock_fd c)]"
| "opened _ = []"

definition closed_since :: "held \<Rightarrow> held \<Rightarrow> resource_event list" where
  "closed_since h h' = map Fd_close (drop (length (sw_closed (lw_socks (hd_world h)))) (sw_closed (lw_socks (hd_world h'))))"

type_synonym history = "(label \<times> connection_answers) list"

fun replay :: "history \<Rightarrow> held \<Rightarrow> held \<times> resource_event list" where
  "replay [] h = (h, [])"
| "replay ((l, a) # hs) h =
     (let h1 = step_objects l a h in
      case replay hs h1 of (h2, tr) \<Rightarrow> (h2, map Fd_open (opened l) @ closed_since h h1 @ tr))"

text \<open>
  The executions of a server: steps of the runtime in which the kernel hands out descriptors that are not
  open, and connections are TLS connections exactly when there is a TLS context.
\<close>

definition kernel_fresh :: "label \<Rightarrow> held \<Rightarrow> bool" where
  "kernel_fresh l h \<longleftrightarrow> list_all (\<lambda>fd. fd \<notin> set (sw_open (lw_socks (hd_world h)))) (opened l)"

inductive srv_exec :: "bool \<Rightarrow> server_state \<Rightarrow> history \<Rightarrow> server_state \<Rightarrow> bool" for has_tls s0 where
  exec_nil: "srv_exec has_tls s0 [] s0"
| exec_snoc: "srv_exec has_tls s0 hs s \<Longrightarrow> srv_step s l s' \<Longrightarrow> kernel_fresh l (fst (replay hs nothing_held)) \<Longrightarrow>
     ca_tls a \<noteq> None \<longleftrightarrow> has_tls \<Longrightarrow> srv_exec has_tls s0 (hs @ [(l, a)]) s'"

lemma exec_run: "srv_exec has_tls s0 hs s \<Longrightarrow> srv_run s0 (map fst hs) s"
  by (induction rule: srv_exec.induct) (auto intro: srv_run.intros)

lemma replay_snoc:
  "replay (hs @ [(l, a)]) h =
     (case replay hs h of (h1, tr) \<Rightarrow>
        (step_objects l a h1, tr @ map Fd_open (opened l) @ closed_since h1 (step_objects l a h1)))"
  by (induction hs h rule: replay.induct) (auto simp: Let_def split: prod.splits)

section \<open>Operations on a sound store\<close>

text \<open>Every open descriptor has one owner, nothing stale was closed, and no \<^verbatim>\<open>SSL\<close> object is alive.\<close>

definition sound :: "life_world \<Rightarrow> bool" where
  "sound w \<longleftrightarrow> owned (lw_socks w) \<and> lw_ssl w = Map.empty \<and> \<not> lw_dangling w"

text \<open>What can be seen of a store: the objects, the open descriptors, the closed ones.\<close>

definition view :: "life_world \<Rightarrow> (nat \<rightharpoonup> int) \<times> int list \<times> int list" where
  "view w = (sw_objects (lw_socks w), sw_open (lw_socks w), sw_closed (lw_socks w))"

lemma view_move:
  assumes "sound w" and "view w = (m, op, cl)" and "m a = Some x" and "m b = None"
  shows "sound (move_socket b a w) \<and> view (move_socket b a w) = (m(b \<mapsto> x, a \<mapsto> - 1), op, cl)"
proof -
  have "owned (socket_move_construct b a (lw_socks w))"
    using assms by (intro owned_step [OF step_move_construct]) (auto simp: sound_def view_def)
  with assms show ?thesis
    by (auto simp: sound_def view_def move_socket_def on_socks_def socket_move_construct_def set_fd_def get_fd_def)
qed

lemma view_destroy:
  assumes "sound w" and "view w = (m, op, cl)" and "m a = Some x"
  shows "sound (destroy_socket a w) \<and>
         view (destroy_socket a w) = (m(a := None), if 0 \<le> x then remove1 x op else op, if 0 \<le> x then cl @ [x] else cl)"
proof -
  have "owned (socket_destroy a (lw_socks w))"
    using assms by (intro owned_step [OF step_destroy]) (auto simp: sound_def view_def)
  with assms show ?thesis
    by (auto simp: sound_def view_def destroy_socket_def closing_def on_socks_def socket_destroy_def socket_close_def
        Let_def set_fd_def get_fd_def os_close_def)
qed

lemma view_adopt:
  assumes "sound w" and "view w = (m, op, cl)" and "m a = None" and "fd \<notin> set op" and "0 \<le> fd"
  shows "sound (on_socks (\<lambda>s. socket_adopt a fd (s\<lparr>sw_open := fd # sw_open s\<rparr>)) w) \<and>
         view (on_socks (\<lambda>s. socket_adopt a fd (s\<lparr>sw_open := fd # sw_open s\<rparr>)) w) = (m(a \<mapsto> fd), fd # op, cl)"
proof -
  have "owned (socket_adopt a fd ((lw_socks w)\<lparr>sw_open := fd # sw_open (lw_socks w)\<rparr>))"
    using assms by (intro owned_step [OF step_open]) (auto simp: sound_def view_def)
  with assms show ?thesis by (auto simp: sound_def view_def on_socks_def socket_adopt_def set_fd_def)
qed

lemma accept_view:
  assumes "sound w" and "view w = (m, op, cl)" and "m accept_temporary = None" and "m accepted_object = None"
    and "fd \<notin> set op" and "0 \<le> fd"
  shows "sound (accept_objects fd w) \<and> view (accept_objects fd w) = (m(accepted_object \<mapsto> fd), fd # op, cl)"
proof -
  let ?w1 = "on_socks (\<lambda>s. socket_adopt accept_temporary fd (s\<lparr>sw_open := fd # sw_open s\<rparr>)) w"
  let ?w2 = "move_socket accepted_object accept_temporary ?w1"
  have 1: "sound ?w1" "view ?w1 = (m(accept_temporary \<mapsto> fd), fd # op, cl)" using view_adopt [OF assms(1-3,5,6)] by auto
  have 2: "sound ?w2" "view ?w2 = (m(accept_temporary \<mapsto> - 1, accepted_object \<mapsto> fd), fd # op, cl)"
    using view_move [OF 1, of accept_temporary fd accepted_object] assms(4) by (auto simp: fun_upd_twist)
  have "m(accept_temporary := None, accepted_object \<mapsto> fd) = m(accepted_object \<mapsto> fd)" using assms(3) by auto
  with view_destroy [OF 2, of accept_temporary "- 1"] show ?thesis
    by (simp add: accept_objects_def Let_def fun_upd_twist)
qed

lemma push_view:
  assumes "sound w" and "view w = (m, op, cl)" and "m accepted_object = Some fd" and "m push_parameter = None" and "m e = None"
    and "e \<noteq> accepted_object" and "e \<noteq> push_parameter"
  shows "sound (destroy_socket accepted_object (push_objects e w)) \<and>
         view (destroy_socket accepted_object (push_objects e w)) = (m(accepted_object := None, e \<mapsto> fd), op, cl)"
proof -
  let ?w1 = "move_socket push_parameter accepted_object w"
  let ?w2 = "move_socket e push_parameter ?w1"
  let ?w3 = "destroy_socket push_parameter ?w2"
  have 1: "sound ?w1" "view ?w1 = (m(push_parameter \<mapsto> fd, accepted_object \<mapsto> - 1), op, cl)"
    using view_move [OF assms(1-4)] by auto
  have 2: "sound ?w2" "view ?w2 = (m(push_parameter \<mapsto> fd, accepted_object \<mapsto> - 1, e \<mapsto> fd, push_parameter \<mapsto> - 1), op, cl)"
    using view_move [OF 1, of push_parameter fd e] assms(5-7) by auto
  have 3: "sound ?w3" "view ?w3 = (m(accepted_object \<mapsto> - 1, e \<mapsto> fd), op, cl)"
    using view_destroy [OF 2, of push_parameter "- 1"] assms(4,7) by (auto simp: fun_eq_iff)
  show ?thesis
    using view_destroy [OF 3, of accepted_object "- 1"] assms(6) by (auto simp: push_objects_def Let_def fun_upd_twist)
qed

lemma refuse_view:
  assumes "sound w" and "view w = (m, op, cl)" and "m accepted_object = Some fd" and "m push_parameter = None" and "0 \<le> fd"
  shows "sound (push_refused_objects w) \<and> view (push_refused_objects w) = (m(accepted_object \<mapsto> - 1), remove1 fd op, cl @ [fd])"
proof -
  let ?w1 = "move_socket push_parameter accepted_object w"
  have 1: "sound ?w1" "view ?w1 = (m(push_parameter \<mapsto> fd, accepted_object \<mapsto> - 1), op, cl)"
    using view_move [OF assms(1-4)] by auto
  have "m(push_parameter := None, accepted_object \<mapsto> - 1) = m(accepted_object \<mapsto> - 1)" using assms(4) by auto
  with view_destroy [OF 1, of push_parameter fd] assms(5) show ?thesis
    by (auto simp: push_refused_objects_def fun_upd_twist)
qed

lemma pop_view:
  assumes "sound w" and "view w = (m, op, cl)" and "m e = Some fd" and "m (frame_slot i 0) = None" and "m (frame_slot i 1) = None"
  shows "sound (pop_objects i e w) \<and> view (pop_objects i e w) = (m(e := None, frame_slot i 1 \<mapsto> fd), op, cl)"
proof -
  let ?l = "frame_slot i 0" and ?p = "frame_slot i 1"
  let ?w1 = "move_socket ?l e w"
  let ?w2 = "destroy_socket e ?w1"
  let ?w3 = "move_socket ?p ?l ?w2"
  have d: "?l \<noteq> ?p" by (simp add: frame_slot_eq)
  have e: "e \<noteq> ?l" "e \<noteq> ?p" using assms(3-5) by auto
  have 1: "sound ?w1" "view ?w1 = (m(?l \<mapsto> fd, e \<mapsto> - 1), op, cl)" using view_move [OF assms(1-4)] by auto
  have 2: "sound ?w2" "view ?w2 = (m(?l \<mapsto> fd, e := None), op, cl)"
    using view_destroy [OF 1, of e "- 1"] by auto
  have 3: "sound ?w3" "view ?w3 = (m(?l \<mapsto> fd, e := None, ?p \<mapsto> fd, ?l \<mapsto> - 1), op, cl)"
    using view_move [OF 2, of ?l fd ?p] assms(5) d e by auto
  have "m(?l \<mapsto> fd, e := None, ?p \<mapsto> fd, ?l := None) = m(e := None, ?p \<mapsto> fd)" using assms(4) d e by auto
  with view_destroy [OF 3, of ?l "- 1"] show ?thesis by (simp add: pop_objects_def Let_def)
qed

lemma serve_view:
  assumes "sound w" and "view w = (m, op, cl)" and "m (frame_slot i 1) = Some fd" and "0 \<le> fd"
    and "\<And>k. 2 \<le> k \<Longrightarrow> k < 8 \<Longrightarrow> m (frame_slot i k) = None"
  shows "sound (serve_objects i a w) \<and> view (serve_objects i a w) = (m(frame_slot i 1 := None), remove1 fd op, cl @ [fd])"
proof -
  obtain res w' where r: "worker_connection (ca_tls a) (ca_calls a) (frame_slot i 1) (frame_slot i 2, frame_slot i 3, frame_slot i 4)
      (frame_slot i 5) (frame_slot i 6) (frame_slot i 7) w = (res, w')" by fastforce
  have d: "distinct [frame_slot i 1, frame_slot i 2, frame_slot i 3, frame_slot i 4, frame_slot i 5, frame_slot i 6, frame_slot i 7]"
    by (simp add: frame_slot_eq)
  have n: "list_all (\<lambda>a. sw_objects (lw_socks w) a = None)
      [frame_slot i 2, frame_slot i 3, frame_slot i 4, frame_slot i 5, frame_slot i 6, frame_slot i 7]"
    using assms(2,5) by (simp add: view_def)
  have o: "owned (lw_socks w)" "sw_objects (lw_socks w) (frame_slot i 1) = Some fd" "lw_ssl w (lw_next w) = None"
      "fd \<notin> ran (lw_ssl w)" "\<not> lw_dangling w" "lw_ssl w = Map.empty"
    using assms(1-3) by (auto simp: sound_def view_def)
  from worker_connection_run [OF o(1,2) assms(4) d n o(3-5) r] o(6)
  have w': "lw_socks w' = socket_destroy (frame_slot i 1) (lw_socks w)" "sound w'" by (auto simp: sound_def)
  moreover have "view (destroy_socket (frame_slot i 1) w) = (m(frame_slot i 1 := None), remove1 fd op, cl @ [fd])"
    using view_destroy [OF assms(1-3)] assms(4) by simp
  moreover have "serve_objects i a w = w'" using r by (simp add: serve_objects_def)
  ultimately show ?thesis by (simp add: view_def destroy_socket_def closing_def on_socks_def Let_def)
qed

section \<open>Where every descriptor is\<close>

fun phase_object :: "accept_phase \<Rightarrow> int option" where
  "phase_object (Pushing c) = Some (int (sock_fd c))"
| "phase_object (Releasing c r) = Some (- 1)"
| "phase_object _ = None"

fun worker_object :: "worker \<Rightarrow> int option" where
  "worker_object (W_busy c) = Some (int (sock_fd c))"
| "worker_object _ = None"

text \<open>
  The live objects are the accept loop's, one per queued connection in the queue's order, and one per busy
  worker, each with the descriptor of its connection.
\<close>

definition placed :: "server_state \<Rightarrow> nat list \<Rightarrow> (nat \<rightharpoonup> int) \<Rightarrow> bool" where
  "placed s qs m \<longleftrightarrow>
     m accepted_object = phase_object (sv_phase s) \<and>
     list_all2 (\<lambda>e c. m e = Some (int (sock_fd c))) qs (wq_sockets (sv_queue s)) \<and>
     (\<forall>i < length (sv_workers s). m (frame_slot i 1) = worker_object (sv_workers s ! i)) \<and>
     (\<forall>a. m a \<noteq> None \<longrightarrow> a = accepted_object \<or> a \<in> set qs \<or> (\<exists>i < length (sv_workers s). a = frame_slot i 1))"

definition holds :: "server_state \<Rightarrow> held \<Rightarrow> bool" where
  "holds s h \<longleftrightarrow>
     sound (hd_world h) \<and> placed s (hd_queue h) (fst (view (hd_world h))) \<and> distinct (hd_queue h) \<and>
     (\<forall>e \<in> set (hd_queue h). \<exists>j < hd_next h. e = queue_element j)"

lemma unused_addresses:
  assumes "placed s qs m" and "\<forall>e \<in> set qs. \<exists>j < n. e = queue_element j"
  shows "m accept_temporary = None" and "m push_parameter = None" and "k < 8 \<Longrightarrow> k \<noteq> 1 \<Longrightarrow> m (frame_slot i k) = None"
    and "n \<le> j \<Longrightarrow> m (queue_element j) = None"
proof -
  have none: "m a = None" if "a \<noteq> accepted_object" "\<And>j. j < n \<Longrightarrow> a \<noteq> queue_element j" "\<And>i. a \<noteq> frame_slot i 1" for a
    using assms that unfolding placed_def by (cases "m a") blast+
  show "m accept_temporary = None" "m push_parameter = None" by (rule none; simp)+
  show "m (frame_slot i k) = None" if "k < 8" "k \<noteq> 1" using that by (intro none) (simp_all add: frame_slot_eq)
  show "m (queue_element j) = None" if "n \<le> j" using that by (intro none) auto
qed

lemma queue_untouched:
  "list_all2 (\<lambda>e c. m e = Some (int (sock_fd c))) qs cs \<Longrightarrow> a \<notin> set qs \<Longrightarrow>
     list_all2 (\<lambda>e c. (m(a := x)) e = Some (int (sock_fd c))) qs cs"
  by (induction rule: list_all2_induct) auto

text \<open>What a step does to the ledger: descriptors open before, opened, closed, open after.\<close>

definition balanced_step :: "label \<Rightarrow> held \<Rightarrow> held \<Rightarrow> bool" where
  "balanced_step l h h' \<longleftrightarrow>
     (\<exists>xs. sw_closed (lw_socks (hd_world h')) = sw_closed (lw_socks (hd_world h)) @ xs \<and>
        (\<forall>fd. count_list (sw_open (lw_socks (hd_world h'))) fd + count_list xs fd =
              count_list (sw_open (lw_socks (hd_world h))) fd + count_list (opened l) fd))"

lemma count_remove1: "x \<in> set xs \<Longrightarrow> count_list (remove1 x xs) y + (if x = y then 1 else 0) = count_list xs y"
  by (induction xs) auto

lemma balanced_none:
  assumes "view (hd_world h) = (m, op, cl)" and "view (hd_world h') = (m', opened l @ op, cl)"
  shows "balanced_step l h h'"
  using assms by (simp add: balanced_step_def view_def)

lemma balanced_one:
  assumes "view (hd_world h) = (m, op, cl)" and "view (hd_world h') = (m', remove1 fd (opened l @ op), cl @ [fd])"
    and "fd \<in> set (opened l @ op)"
  shows "balanced_step l h h'"
proof -
  have "count_list (remove1 fd (opened l @ op)) x + count_list [fd] x = count_list (opened l @ op) x" for x
    using count_remove1 [OF assms(3), of x] by simp
  then have "count_list (remove1 fd (opened l @ op)) x + count_list [fd] x = count_list op x + count_list (opened l) x" for x
    by simp
  with assms(1,2) show ?thesis unfolding balanced_step_def view_def by (intro exI [of _ "[fd]"]) simp
qed

text \<open>A descriptor that an object holds is open.\<close>

lemma held_is_open:
  assumes "sound w" and "view w = (m, op, cl)" and "m a = Some fd" and "0 \<le> fd"
  shows "fd \<in> set op"
  using assms unfolding sound_def owned_def view_def by auto

text \<open>What is known of the store before a step.\<close>

lemma holdsE:
  assumes "holds s h"
  obtains m op cl where "view (hd_world h) = (m, op, cl)" and "sound (hd_world h)" and "placed s (hd_queue h) m"
    and "distinct (hd_queue h)" and "\<forall>e \<in> set (hd_queue h). \<exists>j < hd_next h. e = queue_element j"
    and "accepted_object \<notin> set (hd_queue h)" and "\<And>i k. frame_slot i k \<notin> set (hd_queue h)"
proof -
  obtain m op cl where v: "view (hd_world h) = (m, op, cl)" by (metis prod_cases3)
  moreover have "accepted_object \<notin> set (hd_queue h)" "frame_slot i k \<notin> set (hd_queue h)" for i k
    using assms by (auto simp: holds_def)
  ultimately show thesis using assms by (intro that) (auto simp: holds_def)
qed

lemma placed_queue:
  "placed s qs m \<Longrightarrow> b \<notin> set qs \<Longrightarrow> list_all2 (\<lambda>e c. (m(b := x)) e = Some (int (sock_fd c))) qs (wq_sockets (sv_queue s))"
  by (intro queue_untouched) (simp_all add: placed_def)

text \<open>A client is accepted, and refused at once.\<close>

lemma accepted_view:
  assumes "view (hd_world h) = (m, op, cl)" and "sound (hd_world h)" and "placed s (hd_queue h) m"
    and "\<forall>e \<in> set (hd_queue h). \<exists>j < hd_next h. e = queue_element j" and "sv_phase s = Accepting"
    and "kernel_fresh l h" and "int fd \<in> set (opened l)"
  shows "m accepted_object = None" and "sound (accept_objects (int fd) (hd_world h))"
    and "view (accept_objects (int fd) (hd_world h)) = (m(accepted_object \<mapsto> int fd), int fd # op, cl)"
proof -
  show m: "m accepted_object = None" using assms(3,5) by (simp add: placed_def)
  have "int fd \<notin> set op" using assms(1,6,7) by (auto simp: kernel_fresh_def list_all_iff view_def)
  from accept_view [OF assms(2,1) unused_addresses(1) [OF assms(3,4)] m this]
  show "sound (accept_objects (int fd) (hd_world h))"
    "view (accept_objects (int fd) (hd_world h)) = (m(accepted_object \<mapsto> int fd), int fd # op, cl)" by simp_all
qed

lemma refused_step:
  assumes "sv_phase s = Accepting" and "holds s h" and "kernel_fresh (L_refused c) h"
  shows "holds (s\<lparr>sv_limiter := lim\<rparr>) (step_objects (L_refused c) a h) \<and>
         balanced_step (L_refused c) h (step_objects (L_refused c) a h)"
proof -
  let ?fd = "int (sock_fd c)" and ?h = "step_objects (L_refused c) a h"
  obtain m op cl where h: "view (hd_world h) = (m, op, cl)" "sound (hd_world h)" "placed s (hd_queue h) m" "distinct (hd_queue h)"
    "\<forall>e \<in> set (hd_queue h). \<exists>j < hd_next h. e = queue_element j" using holdsE [OF assms(2)] by metis
  have "?fd \<in> set (opened (L_refused c))" by simp
  note acc = accepted_view [OF h(1-3,5) assms(1,3) this]
  from view_destroy [OF acc(2,3), of accepted_object ?fd] acc(1) have
    v: "sound (hd_world ?h)" "view (hd_world ?h) = (m, op, cl @ [?fd])" by (auto simp: fun_upd_idem)
  have "balanced_step (L_refused c) h ?h"
    by (rule balanced_one [OF h(1), of _ m ?fd]) (use v in simp_all)
  moreover have "holds (s\<lparr>sv_limiter := lim\<rparr>) ?h" using v h(3-5) by (simp add: holds_def placed_def)
  ultimately show ?thesis by blast
qed

lemma acquired_step:
  assumes "sv_phase s = Accepting" and "holds s h" and "kernel_fresh (L_acquired c) h"
  shows "holds (s\<lparr>sv_limiter := lim, sv_phase := Pushing c\<rparr>) (step_objects (L_acquired c) a h) \<and>
         balanced_step (L_acquired c) h (step_objects (L_acquired c) a h)"
proof -
  let ?fd = "int (sock_fd c)" and ?h = "step_objects (L_acquired c) a h"
  obtain m op cl where h: "view (hd_world h) = (m, op, cl)" "sound (hd_world h)" "placed s (hd_queue h) m" "distinct (hd_queue h)"
    "\<forall>e \<in> set (hd_queue h). \<exists>j < hd_next h. e = queue_element j" "accepted_object \<notin> set (hd_queue h)"
    using holdsE [OF assms(2)] by metis
  have "?fd \<in> set (opened (L_acquired c))" by simp
  note acc = accepted_view [OF h(1-3,5) assms(1,3) this]
  have "balanced_step (L_acquired c) h ?h"
    by (rule balanced_none [OF h(1), of _ "m(accepted_object \<mapsto> ?fd)"]) (use acc in simp_all)
  moreover have "placed (s\<lparr>sv_limiter := lim, sv_phase := Pushing c\<rparr>) (hd_queue h) (m(accepted_object \<mapsto> ?fd))"
    using h(3) placed_queue [OF h(3,6), of "Some ?fd"] by (auto simp: placed_def)
  ultimately show ?thesis using acc h(4,5) by (simp add: holds_def)
qed

text \<open>It enters the queue, or the queue refuses it and the call destroys it.\<close>

lemma queued_step:
  assumes "sv_phase s = Pushing c" and "wq_try_push c (sv_queue s) = (Push_queued, q)" and "holds s h"
  shows "holds (s\<lparr>sv_queue := q, sv_phase := Accepting\<rparr>) (step_objects (L_queued c) a h) \<and>
         balanced_step (L_queued c) h (step_objects (L_queued c) a h)"
proof -
  let ?fd = "int (sock_fd c)" and ?h = "step_objects (L_queued c) a h" and ?e = "queue_element (hd_next h)"
  obtain m op cl where h: "view (hd_world h) = (m, op, cl)" "sound (hd_world h)" "placed s (hd_queue h) m" "distinct (hd_queue h)"
    "\<forall>e \<in> set (hd_queue h). \<exists>j < hd_next h. e = queue_element j" "accepted_object \<notin> set (hd_queue h)"
    using holdsE [OF assms(3)] by metis
  let ?m = "m(accepted_object := None, ?e \<mapsto> ?fd)"
  have q: "wq_sockets q = wq_sockets (sv_queue s) @ [c]" using wq.put_queued [OF assms(2)] by simp
  have m: "m accepted_object = Some ?fd" using h(3) assms(1) by (simp add: placed_def)
  have e: "m ?e = None" "?e \<notin> set (hd_queue h)" using unused_addresses(4) [OF h(3,5)] h(5) by auto
  from push_view [OF h(2,1) m unused_addresses(2) [OF h(3,5)] e(1)] have
    v: "sound (hd_world ?h)" "view (hd_world ?h) = (?m, op, cl)" by auto
  have "balanced_step (L_queued c) h ?h" by (rule balanced_none [OF h(1), of _ ?m]) (use v in simp_all)
  moreover have "list_all2 (\<lambda>x c'. ?m x = Some (int (sock_fd c'))) (hd_queue h) (wq_sockets (sv_queue s))"
    by (intro queue_untouched) (use h(3,6) e in \<open>simp_all add: placed_def\<close>)
  then have "list_all2 (\<lambda>x c'. ?m x = Some (int (sock_fd c'))) (hd_queue h @ [?e]) (wq_sockets q)"
    unfolding q by (rule list_all2_appendI) simp
  with h(3) have "placed (s\<lparr>sv_queue := q, sv_phase := Accepting\<rparr>) (hd_queue ?h) ?m"
    by (auto simp: placed_def split: if_splits)
  moreover have "\<forall>x \<in> set (hd_queue ?h). \<exists>j < hd_next ?h. x = queue_element j" using h(5) less_Suc_eq by auto
  ultimately show ?thesis using v h(4) e(2) by (simp add: holds_def)
qed

lemma not_queued_step:
  assumes "sv_phase s = Pushing c" and "holds s h"
  shows "holds (s\<lparr>sv_phase := Releasing c r\<rparr>) (step_objects (L_not_queued c) a h) \<and>
         balanced_step (L_not_queued c) h (step_objects (L_not_queued c) a h)"
proof -
  let ?fd = "int (sock_fd c)" and ?h = "step_objects (L_not_queued c) a h"
  obtain m op cl where h: "view (hd_world h) = (m, op, cl)" "sound (hd_world h)" "placed s (hd_queue h) m" "distinct (hd_queue h)"
    "\<forall>e \<in> set (hd_queue h). \<exists>j < hd_next h. e = queue_element j" "accepted_object \<notin> set (hd_queue h)"
    using holdsE [OF assms(2)] by metis
  have m: "m accepted_object = Some ?fd" using h(3) assms(1) by (simp add: placed_def)
  from refuse_view [OF h(2,1) m unused_addresses(2) [OF h(3,5)]] have
    v: "sound (hd_world ?h)" "view (hd_world ?h) = (m(accepted_object \<mapsto> - 1), remove1 ?fd op, cl @ [?fd])" by auto
  have "?fd \<in> set op" using held_is_open [OF h(2,1) m] by simp
  then have "balanced_step (L_not_queued c) h ?h"
    by (intro balanced_one [OF h(1), of _ "m(accepted_object \<mapsto> - 1)" ?fd]) (use v in simp_all)
  moreover have "placed (s\<lparr>sv_phase := Releasing c r\<rparr>) (hd_queue h) (m(accepted_object \<mapsto> - 1))"
    using h(3) placed_queue [OF h(3,6), of "Some (- 1)"] by (auto simp: placed_def)
  ultimately show ?thesis using v h(4,5) by (simp add: holds_def)
qed

lemma dropped_step:
  assumes "sv_phase s = Releasing c r" and "holds s h"
  shows "holds (s\<lparr>sv_limiter := lim, sv_phase := Accepting\<rparr>) (step_objects (L_dropped c r) a h) \<and>
         balanced_step (L_dropped c r) h (step_objects (L_dropped c r) a h)"
proof -
  let ?h = "step_objects (L_dropped c r) a h"
  obtain m op cl where h: "view (hd_world h) = (m, op, cl)" "sound (hd_world h)" "placed s (hd_queue h) m" "distinct (hd_queue h)"
    "\<forall>e \<in> set (hd_queue h). \<exists>j < hd_next h. e = queue_element j" "accepted_object \<notin> set (hd_queue h)"
    using holdsE [OF assms(2)] by metis
  have m: "m accepted_object = Some (- 1)" using h(3) assms(1) by (simp add: placed_def)
  from view_destroy [OF h(2,1) m] have
    v: "sound (hd_world ?h)" "view (hd_world ?h) = (m(accepted_object := None), op, cl)" by auto
  have "balanced_step (L_dropped c r) h ?h"
    by (rule balanced_none [OF h(1), of _ "m(accepted_object := None)"]) (use v in simp_all)
  moreover have "placed (s\<lparr>sv_limiter := lim, sv_phase := Accepting\<rparr>) (hd_queue h) (m(accepted_object := None))"
    using h(3) placed_queue [OF h(3,6), of None] by (auto simp: placed_def)
  ultimately show ?thesis using v h(4,5) by (simp add: holds_def)
qed

text \<open>A worker takes it, and is done with it.\<close>

lemma started_step:
  assumes "i < length (sv_workers s)" and "sv_workers s ! i = W_idle"
    and "wq_pop stop (sv_queue s) = Some (Some c, q)" and "holds s h"
  shows "holds (s\<lparr>sv_queue := q, sv_workers := (sv_workers s)[i := W_busy c]\<rparr>) (step_objects (L_started i c) a h) \<and>
         balanced_step (L_started i c) h (step_objects (L_started i c) a h)"
proof -
  let ?fd = "int (sock_fd c)" and ?h = "step_objects (L_started i c) a h"
  obtain m op cl where h: "view (hd_world h) = (m, op, cl)" "sound (hd_world h)" "placed s (hd_queue h) m" "distinct (hd_queue h)"
    "\<forall>e \<in> set (hd_queue h). \<exists>j < hd_next h. e = queue_element j" "accepted_object \<notin> set (hd_queue h)"
    "\<And>i k. frame_slot i k \<notin> set (hd_queue h)" using holdsE [OF assms(4)] by metis
  have q: "wq_sockets (sv_queue s) = c # wq_sockets q" using wq.take_some [OF assms(3)] by simp
  with h(3) obtain e es where qs: "hd_queue h = e # es" by (auto simp: placed_def list_all2_Cons2)
  let ?m = "m(e := None, frame_slot i 1 \<mapsto> ?fd)"
  have e: "m e = Some ?fd" using h(3) q qs by (simp add: placed_def)
  have p: "m (frame_slot i 1) = None" using h(3) assms(1,2) by (simp add: placed_def)
  have z: "m (frame_slot i 0) = None" by (rule unused_addresses(3) [OF h(3,5)]) simp_all
  from pop_view [OF h(2,1) e z p] qs have v: "sound (hd_world ?h)" "view (hd_world ?h) = (?m, op, cl)" by auto
  have "balanced_step (L_started i c) h ?h" by (rule balanced_none [OF h(1), of _ ?m]) (use v in simp_all)
  moreover have d: "e \<notin> set es" "frame_slot i 1 \<notin> set es" "e \<noteq> accepted_object" "\<And>i. e \<noteq> frame_slot i 1"
    using h(4,6,7) qs by auto
  then have "list_all2 (\<lambda>x c'. ?m x = Some (int (sock_fd c'))) es (wq_sockets q)"
    using h(3) q qs by (intro queue_untouched) (simp_all add: placed_def)
  with h(3) q qs d(3,4) assms(1,2) have "placed (s\<lparr>sv_queue := q, sv_workers := (sv_workers s)[i := W_busy c]\<rparr>) (hd_queue ?h) ?m"
    by (auto simp: placed_def nth_list_update frame_slot_eq)
  ultimately show ?thesis using v h(4,5) qs by (simp add: holds_def)
qed

lemma finished_step:
  assumes "i < length (sv_workers s)" and "sv_workers s ! i = W_busy c" and "holds s h"
  shows "holds (worker_finish i c s) (step_objects (L_finished i c err) a h) \<and>
         balanced_step (L_finished i c err) h (step_objects (L_finished i c err) a h)"
proof -
  let ?fd = "int (sock_fd c)" and ?h = "step_objects (L_finished i c err) a h"
  obtain m op cl where h: "view (hd_world h) = (m, op, cl)" "sound (hd_world h)" "placed s (hd_queue h) m" "distinct (hd_queue h)"
    "\<forall>e \<in> set (hd_queue h). \<exists>j < hd_next h. e = queue_element j" "\<And>i k. frame_slot i k \<notin> set (hd_queue h)"
    using holdsE [OF assms(3)] by metis
  have m: "m (frame_slot i 1) = Some ?fd" using h(3) assms(1,2) by (simp add: placed_def)
  have z: "m (frame_slot i k) = None" if "2 \<le> k" "k < 8" for k
    using that by (intro unused_addresses(3) [OF h(3,5)]) simp_all
  from serve_view [OF h(2,1) m _ z] have
    v: "sound (hd_world ?h)" "view (hd_world ?h) = (m(frame_slot i 1 := None), remove1 ?fd op, cl @ [?fd])" by auto
  have "?fd \<in> set op" using held_is_open [OF h(2,1) m] by simp
  then have "balanced_step (L_finished i c err) h ?h"
    by (intro balanced_one [OF h(1), of _ "m(frame_slot i 1 := None)" ?fd]) (use v in simp_all)
  moreover have "placed (worker_finish i c s) (hd_queue h) (m(frame_slot i 1 := None))"
    using h(3) placed_queue [OF h(3) h(6) [of i 1], of None] assms(1,2)
    by (auto simp: placed_def worker_finish_def nth_list_update frame_slot_eq)
  ultimately show ?thesis using v h(4,5) by (simp add: holds_def)
qed

text \<open>The other steps leave the sockets alone.\<close>

lemma still_step:
  assumes "holds s h" and "step_objects l a h = h" and "opened l = []" and "placed s' (hd_queue h) = placed s (hd_queue h)"
  shows "holds s' (step_objects l a h) \<and> balanced_step l h (step_objects l a h)"
  using assms by (simp add: holds_def balanced_step_def)

lemma holds_step:
  assumes "srv_step s l s'" and "holds s h" and "kernel_fresh l h"
  shows "holds s' (step_objects l a h) \<and> balanced_step l h (step_objects l a h)"
  using assms(1)
proof cases
  case (push_failed c r q)
  with not_queued_step [OF push_failed(3) assms(2), of r a] wq.put_refused [OF push_failed(4,5)] show ?thesis by simp
next
  case (exits i q)
  then have "q = sv_queue s" using wq.take_none [OF exits(5)] by simp
  with exits assms(2) show ?thesis
    by (intro still_step) (auto simp: placed_def nth_list_update fun_eq_iff)
next
  case (started i c q)
  with started_step [OF started(3-5) assms(2)] show ?thesis by simp
next
  case (finished i c err)
  with finished_step [OF finished(3,4) assms(2)] show ?thesis by simp
next
  case (stopping)
  with assms(2) show ?thesis by (intro still_step) (auto simp: placed_def pool_request_stop_def wq_close_def fun_eq_iff)
next
  case (accept_fatal b e x)
  with assms(2) show ?thesis by (intro still_step) (auto simp: placed_def fun_eq_iff)
next
  case (accept_transient b e)
  with assms(2) show ?thesis by (intro still_step) auto
next
  case (ip_refused b c lim)
  with refused_step assms(2,3) show ?thesis by blast
next
  case (ip_acquired b c lim)
  with acquired_step assms(2,3) show ?thesis by blast
next
  case (pushed c q)
  with queued_step assms(2) show ?thesis by blast
next
  case (dropped c r)
  with dropped_step assms(2) show ?thesis by blast
qed

section \<open>Executions\<close>

text \<open>In a trace, what was opened is what was closed and what is still open.\<close>

definition ledger :: "resource_event list \<Rightarrow> held \<Rightarrow> bool" where
  "ledger tr h \<longleftrightarrow>
     set tr \<subseteq> range Fd_open \<union> range Fd_close \<and>
     (\<forall>fd. count_list tr (Fd_open fd) =
           count_list tr (Fd_close fd) + count_list (sw_open (lw_socks (hd_world h))) fd)"

lemma count_fd_events [simp]:
  "count_list (map Fd_open xs) (Fd_open fd) = count_list xs fd" "count_list (map Fd_close xs) (Fd_close fd) = count_list xs fd"
  "count_list (map Fd_open xs) (Fd_close fd) = 0" "count_list (map Fd_close xs) (Fd_open fd) = 0"
  by (induction xs) auto

lemma replay_opened: "count_list (snd (replay hs h)) (Fd_open fd) = count_list (concat (map (\<lambda>x. opened (fst x)) hs)) fd"
  by (induction hs h rule: replay.induct) (auto simp: Let_def closed_since_def split: prod.splits)

lemma ledger_step:
  assumes "ledger tr h" and "balanced_step l h h'"
  shows "ledger (tr @ map Fd_open (opened l) @ closed_since h h') h'"
proof -
  obtain xs where xs: "sw_closed (lw_socks (hd_world h')) = sw_closed (lw_socks (hd_world h)) @ xs"
    and c: "count_list (sw_open (lw_socks (hd_world h'))) fd + count_list xs fd =
      count_list (sw_open (lw_socks (hd_world h))) fd + count_list (opened l) fd" for fd
    using assms(2) unfolding balanced_step_def by blast
  from xs have s: "closed_since h h' = map Fd_close xs" by (simp add: closed_since_def)
  have "count_list tr (Fd_open fd) + count_list (opened l) fd =
      count_list tr (Fd_close fd) + count_list xs fd + count_list (sw_open (lw_socks (hd_world h'))) fd" for fd
    using c [of fd] assms(1) by (simp add: ledger_def)
  with assms(1) show ?thesis unfolding s ledger_def by auto
qed

lemma exec_invariant:
  assumes "srv_exec has_tls s0 hs s" and "connections s0 = []" and "replay hs nothing_held = (h, tr)"
  shows "holds s h \<and> ledger tr h"
  using assms(1,3)
proof (induction arbitrary: h tr rule: srv_exec.induct)
  case exec_nil
  have "owned no_sockets" by (rule owned_start)
  moreover have "phase_object (sv_phase s0) = None" using assms(2) by (cases "sv_phase s0") (auto simp: connections_def)
  moreover have "worker_object w = None" if "w \<in> set (sv_workers s0)" for w
    using assms(2) that by (cases w) (auto simp: connections_def active_def)
  ultimately show ?case
    using exec_nil assms(2)
    by (auto simp: nothing_held_def holds_def sound_def placed_def view_def no_sockets_def ledger_def connections_def)
next
  case (exec_snoc hs s l s' a)
  obtain h1 tr1 where r: "replay hs nothing_held = (h1, tr1)" by fastforce
  with exec_snoc.prems have h: "h = step_objects l a h1" "tr = tr1 @ map Fd_open (opened l) @ closed_since h1 h"
    by (auto simp: replay_snoc)
  from exec_snoc.IH [OF r] have 1: "holds s h1" "ledger tr1 h1" by simp_all
  from exec_snoc.hyps(3) r have "kernel_fresh l h1" by simp
  from holds_step [OF exec_snoc.hyps(2) 1(1) this] ledger_step [OF 1(2)] show ?case unfolding h by blast
qed

text \<open>A server that holds no connection holds no descriptor.\<close>

lemma no_connection_no_descriptor:
  assumes "holds s h" and "connections s = []"
  shows "sw_open (lw_socks (hd_world h)) = []" and "hd_queue h = []"
proof -
  have pl: "placed s (hd_queue h) (sw_objects (lw_socks (hd_world h)))" and o: "owned (lw_socks (hd_world h))"
    using assms(1) by (simp_all add: holds_def view_def sound_def)
  have e: "sv_phase s = Accepting \<or> sv_phase s = Unwinding \<or> sv_phase s = Stopped" "wq_sockets (sv_queue s) = []" "active s = []"
    using assms(2) by (cases "sv_phase s"; simp add: connections_def)+
  show q: "hd_queue h = []" using pl e(2) by (simp add: placed_def)
  have "worker_object (sv_workers s ! i) = None" if "i < length (sv_workers s)" for i
    using e(3) nth_mem [OF that] by (cases "sv_workers s ! i") (force simp: active_def)+
  then have "sw_objects (lw_socks (hd_world h)) a = None" for a
    using pl e(1) q unfolding placed_def by (metis empty_iff empty_set phase_object.simps(3-5))
  then have "fd \<notin> set (sw_open (lw_socks (hd_world h)))" for fd using o unfolding owned_def by auto
  then show "sw_open (lw_socks (hd_world h)) = []" by (cases "sw_open (lw_socks (hd_world h))") auto
qed

text \<open>The executions of a started server that end with all threads returned, then the queue's destructor.\<close>

lemma exec_releases:
  assumes "srv_exec has_tls s0 hs s" and "server_start cap n = Inr s0"
    and "sv_phase s = Stopped" and "list_all (\<lambda>w. w = W_done) (sv_workers s)"
    and "replay hs nothing_held = (h, tr)"
  shows "set tr \<subseteq> range Fd_open \<union> range Fd_close" and "count_list tr (Fd_open fd) = count_list tr (Fd_close fd)"
    and "destroy_queue h = h"
proof -
  have "srv_inv cap n s" using srv_run_inv [OF exec_run [OF assms(1)] server_start_inv [OF assms(2)]] .
  moreover have "0 < n" using assms(2) by (auto simp: server_start_def outcome_simps)
  ultimately have c: "connections s = []" using all_done_drained assms(3,4) by blast
  from exec_invariant [OF assms(1) server_start_connections [OF assms(2)] assms(5)]
  have h: "holds s h" "ledger tr h" by simp_all
  note none = no_connection_no_descriptor [OF h(1) c]
  from h(2) none(1) show "set tr \<subseteq> range Fd_open \<union> range Fd_close" "count_list tr (Fd_open fd) = count_list tr (Fd_close fd)"
    by (simp_all add: ledger_def)
  show "destroy_queue h = h" using none(2) by (simp add: destroy_queue_def)
qed

end
