(* ===== verification/Program.thy ===== *)
theory Program
  imports Connection_Handler Server_Sockets
begin

text \<open>
  The process: the listener's constructor (\<^verbatim>\<open>src/src/net/listener.cpp\<close>), the TLS context
  (\<^verbatim>\<open>src/src/tls/context.cpp\<close>), the stream factory, the server's constructor and \<^verbatim>\<open>main\<close>
  (\<^verbatim>\<open>src/src/main.cpp\<close>), with a trace of the resources they acquire and release; the part of the trace
  between start and end of the accept loop comes from \<open>Server_Sockets\<close>. The answers of the
  kernel and of OpenSSL are records of functions; standard output is modelled for \<^verbatim>\<open>--help\<close> and
  \<^verbatim>\<open>--version\<close> only.
\<close>

section \<open>Listener (listener.cpp)\<close>

record kernel_answers =
  k_socket :: int
  k_setsockopt :: int
  k_inet_pton :: "string \<Rightarrow> int"
  k_bind :: "string \<Rightarrow> nat \<Rightarrow> int"
  k_listen :: int

text \<open>The constructor's body once the member \<^verbatim>\<open>_sock\<close> owns the descriptor.\<close>

definition listener_setup :: "kernel_answers \<Rightarrow> string \<Rightarrow> int \<Rightarrow> unit result" where
  "listener_setup k bind_addr port_number =
     throw_if (k_setsockopt k \<noteq> 0) (Runtime_Error ''setsockopt(SO_REUSEADDR) failed'')
     (throw_if (k_inet_pton k (c_string bind_addr) \<noteq> 1) (Runtime_Error ''invalid IPv4 bind address'')
     (throw_if (k_bind k (c_string bind_addr) (nat (port_number mod 2 ^ 16)) \<noteq> 0) (Runtime_Error ''bind() failed'')
     (throw_if (k_listen k \<noteq> 0) (Runtime_Error ''listen() failed'') (Inr ()))))"

text \<open>An exception destroys the member and with it closes the descriptor.\<close>

definition listener_create :: "kernel_answers \<Rightarrow> string \<Rightarrow> int \<Rightarrow> int result \<times> resource_event list" where
  "listener_create k bind_addr port_number =
     (if k_socket k < 0 then (Inl (Runtime_Error ''socket() failed''), [])
      else (case listener_setup k bind_addr port_number of
              Inl e \<Rightarrow> (Inl e, [Fd_open (k_socket k), Fd_close (k_socket k)])
            | Inr _ \<Rightarrow> (Inr (k_socket k), [Fd_open (k_socket k)])))"

section \<open>TLS context and stream factory (context.cpp, default_stream_factory.cpp)\<close>

text \<open>Whether each call reports success, and the text of the first error OpenSSL has queued.\<close>

record ssl_answers =
  ssl_ctx_new :: bool
  ssl_min_proto_version :: bool
  ssl_cipher_list :: bool
  ssl_ciphersuites :: bool
  ssl_use_certificate :: "string \<Rightarrow> bool"
  ssl_use_private_key :: "string \<Rightarrow> bool"
  ssl_check_private_key :: bool
  ssl_first_error :: "string option"

definition configure_context :: "ssl_answers \<Rightarrow> unit result" where
  "configure_context o1 =
     throw_if (\<not> ssl_min_proto_version o1) (Runtime_Error (ssl_error_message (ssl_first_error o1) ''failed to set TLS minimum version''))
     (throw_if (\<not> ssl_cipher_list o1) (Runtime_Error (ssl_error_message (ssl_first_error o1) ''failed to set TLS cipher list''))
     (throw_if (\<not> ssl_ciphersuites o1) (Runtime_Error (ssl_error_message (ssl_first_error o1) ''failed to set TLS 1.3 cipher suites''))
       (Inr ())))"

definition load_certificate :: "ssl_answers \<Rightarrow> string \<Rightarrow> unit result" where
  "load_certificate o1 file =
     throw_if (\<not> ssl_use_certificate o1 (c_string file)) (Runtime_Error (ssl_error_message (ssl_first_error o1) ''failed to load TLS certificate'')) (Inr ())"

definition load_private_key :: "ssl_answers \<Rightarrow> string \<Rightarrow> unit result" where
  "load_private_key o1 file =
     throw_if (\<not> ssl_use_private_key o1 (c_string file)) (Runtime_Error (ssl_error_message (ssl_first_error o1) ''failed to load TLS private key'')) (Inr ())"

definition verify_private_key :: "ssl_answers \<Rightarrow> unit result" where
  "verify_private_key o1 =
     throw_if (\<not> ssl_check_private_key o1) (Runtime_Error (ssl_error_message (ssl_first_error o1) ''TLS private key does not match certificate'')) (Inr ())"

definition context_create :: "ssl_answers \<Rightarrow> tls_config \<Rightarrow> unit result \<times> resource_event list" where
  "context_create o1 t =
     (if \<not> ssl_ctx_new o1 then (Inl (Runtime_Error (ssl_error_message (ssl_first_error o1) ''failed to create TLS context'')), [])
      else (case bindE (configure_context o1) (\<lambda>_.
                 bindE (load_certificate o1 (certificate_file t)) (\<lambda>_.
                 bindE (load_private_key o1 (private_key_file t)) (\<lambda>_. verify_private_key o1))) of
              Inl e \<Rightarrow> (Inl e, [Ctx_new, Ctx_free])
            | Inr u \<Rightarrow> (Inr u, [Ctx_new])))"

text \<open>\<^verbatim>\<open>default_stream_factory\<close>: \<open>True\<close> when it holds a TLS context.\<close>

definition stream_factory_create :: "ssl_answers \<Rightarrow> tls_config option \<Rightarrow> bool result \<times> resource_event list" where
  "stream_factory_create o1 t =
     (case t of
        None \<Rightarrow> (Inr False, [])
      | Some c \<Rightarrow> (case context_create o1 c of (Inl e, tr) \<Rightarrow> (Inl e, tr) | (Inr _, tr) \<Rightarrow> (Inr True, tr)))"

section \<open>The server object (server.cpp)\<close>

record 'w server =
  srv_config :: server_config
  srv_listener :: int
  srv_modules :: "'w dynamic_module list"
  srv_tls :: bool

definition destroy_modules :: "'w dynamic_module list \<Rightarrow> resource_event list" where
  "destroy_modules ms = map Module_event (concat (map dynamic_module_destroy ms))"

text \<open>Members are initialised in the order of their declaration and destroyed in reverse.\<close>

definition server_create ::
    "environment \<Rightarrow> kernel_answers \<Rightarrow> ssl_answers \<Rightarrow> 'w linker \<Rightarrow> server_config
       \<Rightarrow> 'w server result \<times> resource_event list" where
  "server_create env k o1 ld config =
     (case listener_create k (bind_address config) (port config) of
        (Inl e, tr1) \<Rightarrow> (Inl e, tr1)
      | (Inr fd, tr1) \<Rightarrow>
          (case create_request_handler env ld config of
             (Inl e, tr2) \<Rightarrow> (Inl e, tr1 @ map Module_event tr2 @ [Fd_close fd])
           | (Inr ms, tr2) \<Rightarrow>
               (case stream_factory_create o1 (tls config) of
                  (Inl e, tr3) \<Rightarrow> (Inl e, tr1 @ map Module_event tr2 @ tr3 @ destroy_modules ms @ [Fd_close fd])
                | (Inr has_tls, tr3) \<Rightarrow>
                    (Inr \<lparr>srv_config = config, srv_listener = fd, srv_modules = ms, srv_tls = has_tls\<rparr>,
                     tr1 @ map Module_event tr2 @ tr3))))"

definition server_destroy :: "'w server \<Rightarrow> resource_event list" where
  "server_destroy s =
     (if srv_tls s then [Ctx_free] else []) @ destroy_modules (srv_modules s) @ [Fd_close (srv_listener s)]"

text \<open>The startup message, in UTF-8.\<close>

definition startup_line :: "server_config \<Rightarrow> string" where
  "startup_line config =
     ''Gar'' @ [CHR 0xC3, CHR 0xA7] @ ''on listening on '' @ scheme config @ ''://'' @ bind_address config @ '':'' @
     show_int (port config) @ ''/ with '' @ show_nat (worker_threads config) @ '' worker'' @
     (if worker_threads config = 1 then [] else ''s'') @ '' and queue capacity '' @
     show_nat (connection_queue_capacity config) @ [LF]"

section \<open>Worker threads (worker_pool.cpp)\<close>

text \<open>
  What creating the threads answers: an exception of \<^verbatim>\<open>reserve\<close> (no memory, too many), of the constructor of
  the \<open>i\<close>-th \<^verbatim>\<open>std::jthread\<close>, or success.
\<close>

record thread_answers =
  ta_reserve :: "nat \<Rightarrow> failure option"
  ta_spawn :: "nat \<Rightarrow> failure option"

function spawn_workers :: "thread_answers \<Rightarrow> nat \<Rightarrow> nat \<Rightarrow> failure option \<times> nat" where
  "spawn_workers ta i n =
     (if i < n then (case ta_spawn ta i of Some e \<Rightarrow> (Some e, i) | None \<Rightarrow> spawn_workers ta (Suc i) n) else (None, i))"
  by pat_completeness auto

termination by (relation "measure (\<lambda>(ta, i, n). n - i)") auto

declare spawn_workers.simps [simp del]

text \<open>The exception, if any, and the number of threads that run.\<close>

definition start_workers :: "thread_answers \<Rightarrow> nat \<Rightarrow> failure option \<times> nat" where
  "start_workers ta worker_count =
     (case ta_reserve ta worker_count of Some e \<Rightarrow> (Some e, 0) | None \<Rightarrow> spawn_workers ta 0 worker_count)"

definition join_workers :: "nat \<Rightarrow> resource_event list" where
  "join_workers k = map Thread_join [0..<k]"

text \<open>
  An exception in the constructor's body destroys \<^verbatim>\<open>_workers\<close>; the destructor of each \<^verbatim>\<open>std::jthread\<close> requests the stop
  and joins.
\<close>

definition worker_pool_create :: "thread_answers \<Rightarrow> bool \<Rightarrow> nat \<Rightarrow> nat result \<times> resource_event list" where
  "worker_pool_create ta has_handler worker_count =
     (if \<not> has_handler then (Inl (Invalid_Argument ''worker_pool handler must not be empty''), [])
      else if worker_count = 0 then (Inl (Invalid_Argument ''worker_pool must have at least one worker''), [])
      else (case start_workers ta worker_count of
              (Some e, k) \<Rightarrow> (Inl e, map Thread_start [0..<k] @ join_workers k)
            | (None, k) \<Rightarrow> (Inr k, map Thread_start [0..<k])))"

lemma spawn_workers_all: "spawn_workers ta i n = (None, k) \<Longrightarrow> i \<le> n \<Longrightarrow> k = n"
  by (induction ta i n rule: spawn_workers.induct) (auto simp: spawn_workers.simps split: if_splits option.splits)

text \<open>The pool has the size that was asked for, or no thread is left.\<close>

lemma worker_pool_create_cases:
  obtains (failed) e k where "worker_pool_create ta b n = (Inl e, map Thread_start [0..<k] @ join_workers k)"
  | (running) "worker_pool_create ta b n = (Inr n, map Thread_start [0..<n])" and "0 < n"
proof (cases "b \<and> n \<noteq> 0")
  case False
  then have "\<exists>e. worker_pool_create ta b n = (Inl e, map Thread_start [0..<0] @ join_workers 0)"
    by (simp add: worker_pool_create_def join_workers_def)
  with failed show thesis by blast
next
  case True
  obtain r k where s: "start_workers ta n = (r, k)" by fastforce
  show thesis
  proof (cases r)
    case None
    with s have "k = n" using spawn_workers_all [of ta 0 n k] by (auto simp: start_workers_def split: option.splits)
    with s None True running show thesis by (simp add: worker_pool_create_def)
  next
    case (Some e)
    with s True failed show thesis by (simp add: worker_pool_create_def)
  qed
qed

text \<open>
  The joins return: a worker whose stop is requested before anything is queued leaves its loop, the
  queue being open or not; once the accept loop has ended, this is the shutdown of the runtime.
\<close>

lemma stopped_worker_exits: "wq_sockets q = [] \<Longrightarrow> wq_pop True q = Some (None, q)"
  by (simp add: wq_pop_def)

section \<open>Runtime events (runtime_events.cpp)\<close>

text \<open>\<open>message\<close> is \<^verbatim>\<open>error_code::message\<close>; the source location is an argument.\<close>

definition make_accept_message :: "(errno \<Rightarrow> string) \<Rightarrow> errno \<Rightarrow> bool \<Rightarrow> string" where
  "make_accept_message message e fatal =
     ''accept() failed ('' @ (if fatal then ''fatal'' else ''retryable'') @ ''): '' @ message e"

fun render_event :: "(errno \<Rightarrow> string) \<Rightarrow> string \<Rightarrow> nat \<Rightarrow> runtime_event \<Rightarrow> string" where
  "render_event message file_name line_no (On_accept_error e fatal) =
     event_line (if fatal then ''error'' else ''warn'') file_name line_no (make_accept_message message e fatal)"
| "render_event message file_name line_no (On_connection_rejected why) =
     event_line ''warn'' file_name line_no (''connection rejected: '' @ why)"
| "render_event message file_name line_no (On_worker_error detail) =
     event_line ''error'' file_name line_no (''worker callback error: '' @ detail)"

definition render_connection_error :: "string \<Rightarrow> nat \<Rightarrow> string \<Rightarrow> string \<Rightarrow> string" where
  "render_connection_error file_name line_no stage detail =
     event_line ''warn'' file_name line_no (make_connection_message stage detail)"

section \<open>The process (main.cpp)\<close>

record process_result =
  exit_status :: nat
  out_text :: string
  err_text :: string

text \<open>The exceptions with which the accept loop ends.\<close>

fun step_failure :: "label \<Rightarrow> failure list" where
  "step_failure (L_accept_error e) = (case snd (handle_accept_result e) of Inl x \<Rightarrow> [x] | Inr _ \<Rightarrow> [])"
| "step_failure _ = []"

text \<open>All threads have returned after the stop, so the destructor of the pool can join them.\<close>

definition all_returned :: "server_state \<Rightarrow> bool" where
  "all_returned s \<longleftrightarrow> sv_phase s = Stopped \<and> list_all (\<lambda>w. w = W_done) (sv_workers s)"

text \<open>
  \<open>serve\<close> is what happens to the started runtime: the steps of the accept loop and of the workers so far, with
  the answers of OpenSSL, and the state they lead to. When an accept error has ended the loop and
  the threads have returned, they are joined and the queue is destroyed; until then \<^verbatim>\<open>run\<close> has
  not returned, and the trace is the one of the running server.
\<close>

type_synonym server_execution = "bool \<Rightarrow> server_state \<Rightarrow> history \<times> server_state"

definition server_run ::
    "thread_answers \<Rightarrow> server_execution \<Rightarrow> bool \<Rightarrow> server_config \<Rightarrow> failure option \<times> resource_event list" where
  "server_run ta serve has_tls config =
     (case server_start (connection_queue_capacity config) (worker_threads config) of
        Inl e \<Rightarrow> (Some e, [])
      | Inr s \<Rightarrow>
          (case worker_pool_create ta True (worker_threads config) of
             (Inl e, tr) \<Rightarrow> (Some e, tr)
           | (Inr k, tr) \<Rightarrow>
               (case serve has_tls s of (hs, s') \<Rightarrow>
                (case replay hs nothing_held of (h, tr') \<Rightarrow>
                 (case concat (map step_failure (map fst hs)) of
                    [] \<Rightarrow> (None, tr @ tr')
                  | e # _ \<Rightarrow>
                      if all_returned s' then (Some e, tr @ tr' @ join_workers k @ closed_since h (destroy_queue h))
                      else (None, tr @ tr'))))))"

text \<open>What \<open>serve\<close> can be.\<close>

definition possible_execution :: "server_execution \<Rightarrow> bool" where
  "possible_execution serve \<longleftrightarrow> (\<forall>has_tls s. srv_exec has_tls s (fst (serve has_tls s)) (snd (serve has_tls s)))"

definition fatal_exit :: "string list \<Rightarrow> failure \<Rightarrow> process_result" where
  "fatal_exit argv e =
     \<lparr>exit_status = 1, out_text = [], err_text = ''fatal: '' @ what_of e @ [LF] @ usage argv\<rparr>"

definition main_program ::
    "environment \<Rightarrow> kernel_answers \<Rightarrow> ssl_answers \<Rightarrow> 'w linker \<Rightarrow> thread_answers \<Rightarrow> server_execution
       \<Rightarrow> string \<Rightarrow> string list \<Rightarrow> process_result option \<times> resource_event list" where
  "main_program env k o1 ld ta serve version argv =
     (case command_line_parse env argv of
        Inl e \<Rightarrow> (Some (fatal_exit argv e), [])
      | Inr Show_help \<Rightarrow> (Some \<lparr>exit_status = 0, out_text = usage argv, err_text = []\<rparr>, [])
      | Inr Show_version \<Rightarrow> (Some \<lparr>exit_status = 0, out_text = version @ [LF], err_text = []\<rparr>, [])
      | Inr (Run_with config) \<Rightarrow>
          (case server_create env k o1 ld config of
             (Inl e, tr) \<Rightarrow> (Some (fatal_exit argv e), tr)
           | (Inr s, tr) \<Rightarrow>
               (case server_run ta serve (srv_tls s) config of
                  (None, tr') \<Rightarrow> (None, tr @ tr')
                | (Some e, tr') \<Rightarrow> (Some (fatal_exit argv e), tr @ tr' @ server_destroy s))))"

section \<open>Nothing is left behind\<close>

text \<open>Every acquisition is matched by a release.\<close>

definition released :: "resource_event list \<Rightarrow> bool" where
  "released tr \<longleftrightarrow>
     (\<forall>fd. count_list tr (Fd_open fd) = count_list tr (Fd_close fd)) \<and>
     count_list tr Ctx_new = count_list tr Ctx_free \<and>
     (\<forall>l. count_list tr (Module_event (Dl_open l)) = count_list tr (Module_event (Dl_close l)) \<and>
          count_list tr (Module_event (Mod_create l)) = count_list tr (Module_event (Mod_destroy l))) \<and>
     (\<forall>i. count_list tr (Thread_start i) = count_list tr (Thread_join i))"

lemma count_module_events [simp]:
  "count_list (map Module_event xs) (Module_event y) = count_list xs y"
  "count_list (map Module_event xs) (Fd_open fd) = 0" "count_list (map Module_event xs) (Fd_close fd) = 0"
  "count_list (map Module_event xs) Ctx_new = 0" "count_list (map Module_event xs) Ctx_free = 0"
  "count_list (map Module_event xs) (Thread_start i) = 0" "count_list (map Module_event xs) (Thread_join i) = 0"
  by (induction xs) auto

lemma count_thread_events:
  "count_list (map Thread_start is) (Thread_start i) = count_list is i" "count_list (map Thread_join is) (Thread_join i) = count_list is i"
  "count_list (map Thread_start is) (Thread_join i) = 0" "count_list (map Thread_join is) (Thread_start i) = 0"
  "count_list (map Thread_start is) (Fd_open fd) = 0" "count_list (map Thread_join is) (Fd_open fd) = 0"
  "count_list (map Thread_start is) (Fd_close fd) = 0" "count_list (map Thread_join is) (Fd_close fd) = 0"
  "count_list (map Thread_start is) Ctx_new = 0" "count_list (map Thread_join is) Ctx_new = 0"
  "count_list (map Thread_start is) Ctx_free = 0" "count_list (map Thread_join is) Ctx_free = 0"
  "count_list (map Thread_start is) (Module_event e) = 0" "count_list (map Thread_join is) (Module_event e) = 0"
  by (induction "is") auto

text \<open>A trace of descriptors only.\<close>

lemma count_fd_trace:
  assumes "set tr \<subseteq> range Fd_open \<union> range Fd_close"
  shows "count_list tr Ctx_new = 0" "count_list tr Ctx_free = 0" "count_list tr (Module_event e) = 0"
    "count_list tr (Thread_start i) = 0" "count_list tr (Thread_join i) = 0"
  using assms by (auto simp: count_list_0_iff)

lemma server_run_released:
  assumes "server_run ta serve has_tls config = (Some e, tr)" and "possible_execution serve"
  shows "released tr"
proof (cases "server_start (connection_queue_capacity config) (worker_threads config)")
  case (Inl e)
  with assms(1) show ?thesis by (simp add: server_run_def released_def)
next
  case (Inr s)
  obtain hs s' where hs: "serve has_tls s = (hs, s')" by fastforce
  with assms(2) have ex: "srv_exec has_tls s hs s'" by (metis possible_execution_def fst_conv snd_conv)
  obtain h tr' where r: "replay hs nothing_held = (h, tr')" by fastforce
  show ?thesis
  proof (cases rule: worker_pool_create_cases [of ta True "worker_threads config"])
    case (failed e k)
    with assms(1) Inr show ?thesis by (auto simp: server_run_def released_def join_workers_def count_thread_events)
  next
    case running
    with assms(1) Inr hs r have ret: "all_returned s'"
      and tr: "tr = map Thread_start [0..<worker_threads config] @ tr' @ join_workers (worker_threads config) @
        closed_since h (destroy_queue h)"
      by (auto simp: server_run_def split: list.splits if_splits)
    note rel = exec_releases [OF ex Inr _ _ r]
    have "set tr' \<subseteq> range Fd_open \<union> range Fd_close" "\<And>fd. count_list tr' (Fd_open fd) = count_list tr' (Fd_close fd)"
        "closed_since h (destroy_queue h) = []"
      using rel ret by (auto simp: all_returned_def closed_since_def)
    then show ?thesis unfolding tr by (simp add: released_def join_workers_def count_thread_events count_fd_trace)
  qed
qed

lemma released_insert: "released (xs @ zs) \<Longrightarrow> released ys \<Longrightarrow> released (xs @ ys @ zs)"
  by (simp add: released_def)

lemma listener_create_cases:
  obtains (failed) e tr where "listener_create k a p = (Inl e, tr)" and "released tr"
  | (listening) fd where "listener_create k a p = (Inr fd, [Fd_open fd])"
  by (cases "k_socket k < 0"; cases "listener_setup k a p") (auto simp: listener_create_def released_def)

lemma stream_factory_create_cases:
  obtains (failed) e tr where "stream_factory_create o1 t = (Inl e, tr)" and "tr = [] \<or> tr = [Ctx_new, Ctx_free]"
  | (ready) b where "stream_factory_create o1 t = (Inr b, if b then [Ctx_new] else [])"
proof (cases t)
  case None
  then show ?thesis using ready [of False] by (simp add: stream_factory_create_def)
next
  case (Some c)
  show ?thesis
  proof (cases "context_create o1 c")
    case (Pair res tr)
    with Some failed ready [of True] show ?thesis
      by (cases res) (auto simp: stream_factory_create_def context_create_def split: if_splits sum.splits)
  qed
qed

lemma loaded_modules_destroyable:
  assumes "create_request_handler env ld config = (Inr ms, tr)"
    and "\<And>lib d. ld lib = Inr (Inr (Some d)) \<Longrightarrow> md_has_destroy d"
  shows "list_all dm_destroy ms"
proof -
  obtain cms where "list_all2 (module_of ld config) cms ms" using startup_modules [OF assms(1)] by blast
  then show ?thesis
    by (induction rule: list_all2_induct) (auto simp: module_of_def dest: assms(2))
qed

text \<open>What building the server leaves open is what destroying it releases.\<close>

lemma server_create_released:
  assumes "server_create env k o1 ld config = (res, tr)"
    and "\<And>lib d. ld lib = Inr (Inr (Some d)) \<Longrightarrow> md_has_destroy d"
  shows "released (tr @ (case res of Inl e \<Rightarrow> [] | Inr s \<Rightarrow> server_destroy s))"
proof (cases rule: listener_create_cases [of k "bind_address config" "port config"])
  case (failed e tr1)
  with assms(1) show ?thesis by (auto simp: server_create_def)
next
  case (listening fd)
  obtain r2 tr2 where m: "create_request_handler env ld config = (r2, tr2)" by fastforce
  note counts = startup_counts [OF m assms(2)]
  show ?thesis
  proof (cases r2)
    case (Inl e)
    with listening m assms(1) counts show ?thesis by (auto simp: server_create_def released_def)
  next
    case (Inr ms)
    have d: "list_all dm_destroy ms" using loaded_modules_destroyable [of env ld config ms tr2] m Inr assms(2) by blast
    from counts Inr have c: "count_list tr2 (Dl_open l) = of_library l ms" "count_list tr2 (Mod_create l) = of_library l ms"
        "count_list tr2 (Dl_close l) = 0" "count_list tr2 (Mod_destroy l) = 0" for l by simp_all
    note counted = c destroy_counts(1,3,4) destroy_counts(2) [OF d] destroy_modules_def released_def
    show ?thesis
    proof (cases rule: stream_factory_create_cases [of o1 "tls config"])
      case (failed e tr3)
      with listening m Inr assms(1) show ?thesis by (auto simp: server_create_def counted)
    next
      case (ready b)
      with listening m Inr assms(1) show ?thesis by (auto simp: server_create_def server_destroy_def counted)
    qed
  qed
qed

text \<open>
  C23 (safety). How the process ends: it exits with 0 exactly for \<^verbatim>\<open>--help\<close> and \<^verbatim>\<open>--version\<close>; every other
  end (a bad command line, a listener, module or TLS context that cannot be set up, a thread
  that cannot be started, a fatal error of the accept loop) is status 1 with the
  error and the usage on standard error. Whenever it ends, the listening socket and every
  client's descriptor the kernel handed out while it ran (refused, dropped at a full queue, queued,
  or served, in whatever interleaving of the accept loop and the workers) have been closed
  exactly as often as they were opened, and every TLS context, library and module instance it acquired
  has been released exactly once, and every thread it started has been joined.
\<close>

theorem process_releases_everything:
  assumes "main_program env k o1 ld ta serve version argv = (Some r, tr)"
    and "possible_execution serve"
    and "\<And>lib d. ld lib = Inr (Inr (Some d)) \<Longrightarrow> md_has_destroy d"
  shows "released tr \<and>
         (exit_status r = 0 \<longleftrightarrow> command_line_parse env argv \<in> {Inr Show_help, Inr Show_version}) \<and>
         (exit_status r \<noteq> 0 \<longrightarrow> exit_status r = 1 \<and> (\<exists>e. err_text r = ''fatal: '' @ what_of e @ [LF] @ usage argv))"
proof (cases "command_line_parse env argv")
  case (Inl e)
  with assms(1) show ?thesis by (auto simp: main_program_def fatal_exit_def released_def)
next
  case (Inr c)
  show ?thesis
  proof (cases c)
    case (Run_with config)
    obtain res tr1 where s: "server_create env k o1 ld config = (res, tr1)" by fastforce
    have "released (tr1 @ (case res of Inl e \<Rightarrow> [] | Inr s \<Rightarrow> server_destroy s))"
      using server_create_released [OF s assms(3)] .
    with assms(1) Inr Run_with s show ?thesis
      by (cases res) (auto simp: main_program_def fatal_exit_def split: option.splits prod.splits
          intro: released_insert server_run_released [OF _ assms(2)])
  qed (use assms(1) Inr in \<open>auto simp: main_program_def released_def\<close>)
qed

text \<open>A refused connection is reported on one line, whatever address the client has.\<close>

lemma refusal_one_line:
  assumes "LF \<notin> set ip" and "LF \<notin> set file_name"
  shows "count_list (render_event message file_name line_no (limit_exceeded_event ip)) LF = 1"
proof -
  have "count_list (show_nat line_no) LF = 0" "count_list ip LF = 0" "count_list file_name LF = 0"
    using assms by (simp_all add: count_list_0_iff)
  then show ?thesis by (simp add: limit_exceeded_event_def event_line_def)
qed

definition willing_kernel :: kernel_answers where
  "willing_kernel = \<lparr>k_socket = 3, k_setsockopt = 0, k_inet_pton = (\<lambda>a. 1), k_bind = (\<lambda>a p. 0), k_listen = 0\<rparr>"

definition enough_threads :: thread_answers where
  "enough_threads = \<lparr>ta_reserve = (\<lambda>n. None), ta_spawn = (\<lambda>i. None)\<rparr>"

definition no_ssl :: ssl_answers where
  "no_ssl = \<lparr>ssl_ctx_new = False, ssl_min_proto_version = False, ssl_cipher_list = False, ssl_ciphersuites = False,
     ssl_use_certificate = (\<lambda>f. False), ssl_use_private_key = (\<lambda>f. False), ssl_check_private_key = False,
     ssl_first_error = None\<rparr>"

text \<open>A machine with one module, and a server on it with one worker.\<close>

definition one_module :: environment where
  "one_module =
     bare_machine\<lparr>env_absolute := (\<lambda>p. Inr (if is_absolute p then p else ''/'' @ p)),
       env_exists := (\<lambda>p. Inr (p = ''/modules.d'')), env_is_directory := (\<lambda>p. Inr (p = ''/modules.d'')),
       env_read_dir := (\<lambda>p. Inr [(''10-a.conf'', Inr True)]),
       env_open := (\<lambda>p. if p = ''/modules.d/10-a.conf'' then Some ''path=/a.so'' else None)\<rparr>"

lemma one_module_configured:
  "load_configured_modules one_module ''/modules.d'' =
     Inr (Inr [\<lparr>library_file = ''/a.so'', cm_config_directory = ''/modules.d'', cm_config_text = ''path=/a.so''\<rparr>])"
  by code_simp

lemma one_module_parse:
  "command_line_parse one_module [''garcon'', ''8081'', ''--workers'', ''1''] = Inr (Run_with (bare_config 8081 1))"
proof -
  have p: "parse_port ''8081'' = Some 8081" by code_simp
  have v: "parse_count ''1'' = Some 1"
    using count_of_digits [of "''1''"] by (simp add: is_digit_def in_range_def digits_value_def digit_value_def)
  have "finalize_options one_module (default_options\<lparr>opt_port := Some 8081, opt_worker_threads := Some 1\<rparr>) ''garcon'' =
      Inr (bare_config 8081 1)"
    by (simp add: finalize_options_def default_options_def one_module_def bare_machine_def default_www_root_def
        default_module_config_dir_def parent_path_def path_append_def is_absolute_def value_or_def
        default_queue_capacity_def bare_config_def https_requested_def)
  with p v parse_port_first [OF p] show ?thesis
    by (auto simp: command_line_parse_def parse_named_option_def require_value_def default_options_def)
qed

text \<open>
  A client is accepted and queued; then the listener fails for good, and the only worker serves the
  client while the server shuts down.
\<close>

definition runtime_start :: server_state where
  "runtime_start =
     \<lparr>sv_queue = \<lparr>wq_capacity = 64, wq_sockets = [], wq_closed = False\<rparr>,
      sv_limiter = \<lparr>lim_per_ip = 8, lim_inflight = Map.empty\<rparr>, sv_phase = Accepting, sv_workers = [W_idle]\<rparr>"

definition one_served :: history where
  "one_served =
     map (\<lambda>l. (l, \<lparr>ca_tls = None, ca_calls = 2\<rparr>))
       [L_acquired (sample_socket 5), L_queued (sample_socket 5), L_accept_error (make_accept_error EBADF), L_stop,
        L_started 0 (sample_socket 5), L_finished 0 (sample_socket 5) None, L_exit 0]"

definition served_state :: server_state where
  "served_state =
     \<lparr>sv_queue = \<lparr>wq_capacity = 64, wq_sockets = [], wq_closed = True\<rparr>,
      sv_limiter = \<lparr>lim_per_ip = 8, lim_inflight = Map.empty\<rparr>, sv_phase = Stopped, sv_workers = [W_done]\<rparr>"

lemma one_served_exec: "srv_exec False runtime_start one_served served_state"
proof -
  let ?c = "sample_socket 5" and ?a = "\<lparr>ca_tls = None, ca_calls = 2\<rparr>"
  let ?l = "\<lparr>lim_per_ip = 8, lim_inflight = [''10.0.0.1'' \<mapsto> 1]\<rparr>"
  let ?q = "\<lambda>xs b. \<lparr>wq_capacity = 64, wq_sockets = xs, wq_closed = b\<rparr>"
  let ?s = "\<lambda>xs b l p ws. \<lparr>sv_queue = ?q xs b, sv_limiter = l, sv_phase = p, sv_workers = ws\<rparr>"
  let ?e = "\<lparr>lim_per_ip = 8, lim_inflight = Map.empty\<rparr>"
  note snoc = exec_snoc [where has_tls = False and a = ?a]
  have s1: "srv_step runtime_start (L_acquired ?c) (?s [] False ?l (Pushing ?c) [W_idle])"
    using ip_acquired [of runtime_start "Accepted 5 sample_host" ?c ?l]
    by (simp add: runtime_start_def sample_host_text sample_socket_def try_acquire_def)
  have s2: "srv_step (?s [] False ?l (Pushing ?c) [W_idle]) (L_queued ?c) (?s [?c] False ?l Accepting [W_idle])"
    using pushed [of "?s [] False ?l (Pushing ?c) [W_idle]" ?c "?q [?c] False"] by (simp add: wq_try_push_def)
  have s3: "srv_step (?s [?c] False ?l Accepting [W_idle]) (L_accept_error (make_accept_error EBADF))
      (?s [?c] False ?l Unwinding [W_idle])"
    using accept_fatal [of "?s [?c] False ?l Accepting [W_idle]" "Accept_fail EBADF" "make_accept_error EBADF"]
    by (simp add: handle_accept_result_def make_accept_error_def is_fatal_accept_error_def)
  have s4: "srv_step (?s [?c] False ?l Unwinding [W_idle]) L_stop (?s [?c] True ?l Stopped [W_idle])"
    using stopping [of "?s [?c] False ?l Unwinding [W_idle]"] by (simp add: pool_request_stop_def wq_close_def)
  have s5: "srv_step (?s [?c] True ?l Stopped [W_idle]) (L_started 0 ?c) (?s [] True ?l Stopped [W_busy ?c])"
    using started [of 0 "?s [?c] True ?l Stopped [W_idle]" ?c "?q [] True"] by (simp add: wq_pop_def Let_def)
  have s6: "srv_step (?s [] True ?l Stopped [W_busy ?c]) (L_finished 0 ?c None) (?s [] True ?e Stopped [W_idle])"
    using finished [of 0 "?s [] True ?l Stopped [W_busy ?c]" ?c None]
    by (simp add: worker_finish_def release_def sample_socket_def)
  have s7: "srv_step (?s [] True ?e Stopped [W_idle]) (L_exit 0) (?s [] True ?e Stopped [W_done])"
    using exits [of 0 "?s [] True ?e Stopped [W_idle]" "?q [] True"] by (simp add: wq_pop_def Let_def)
  have "srv_exec False runtime_start one_served (?s [] True ?e Stopped [W_done])"
    using snoc [OF snoc [OF snoc [OF snoc [OF snoc [OF snoc [OF snoc [OF exec_nil s1] s2] s3] s4] s5] s6] s7]
    by (simp add: one_served_def kernel_fresh_def nothing_held_def no_sockets_def)
  then show ?thesis by (simp add: served_state_def)
qed

definition sample_execution :: server_execution where
  "sample_execution has_tls s = (if \<not> has_tls \<and> s = runtime_start then (one_served, served_state) else ([], s))"

lemma sample_execution_possible: "possible_execution sample_execution"
  using one_served_exec by (auto simp: possible_execution_def sample_execution_def intro: exec_nil)

lemma one_served_run:
  "\<exists>tr. server_run enough_threads sample_execution False (bare_config 8081 1) =
          (Some (Runtime_Error ''fatal accept() failure''), tr) \<and>
        count_list tr (Fd_open 5) = 1 \<and> count_list tr (Thread_start 0) = 1"
proof -
  have start: "server_start 64 1 = Inr runtime_start"
    by (simp add: server_start_def runtime_start_def ip_limiter_create_def work_queue_create_def max_connections_per_ip_def)
  have pool: "worker_pool_create enough_threads True 1 = (Inr 1, [Thread_start 0])"
    by (simp add: worker_pool_create_def start_workers_def enough_threads_def spawn_workers.simps)
  have fails: "concat (map step_failure (map fst one_served)) = [Runtime_Error ''fatal accept() failure'']"
    by (simp add: one_served_def handle_accept_result_def make_accept_error_def is_fatal_accept_error_def throw_if_def)
  obtain h tr where r: "replay one_served nothing_held = (h, tr)" by fastforce
  have "all_returned served_state" by (simp add: all_returned_def served_state_def)
  with start pool fails r have run: "server_run enough_threads sample_execution False (bare_config 8081 1) =
      (Some (Runtime_Error ''fatal accept() failure''),
       [Thread_start 0] @ tr @ join_workers 1 @ closed_since h (destroy_queue h))"
    by (simp add: server_run_def bare_config_def sample_execution_def)
  have "count_list tr (Fd_open 5) = 1"
    using replay_opened [of one_served nothing_held 5] r by (simp add: one_served_def sample_socket_def)
  moreover have "count_list tr (Thread_start 0) = 0"
    using exec_releases(1) [OF one_served_exec start _ _ r] by (auto simp: served_state_def count_list_0_iff)
  ultimately show ?thesis using run
    by (auto simp: join_workers_def closed_since_def count_list_0_iff)
qed

theorem process_releases_everything_witness:
  "\<exists>r tr. main_program one_module willing_kernel no_ssl
         (\<lambda>lib. Inr (Inr (Some (make_descriptor lib (passing lib)))))
         enough_threads sample_execution ''1.0'' [''garcon'', ''8081'', ''--workers'', ''1''] = (Some r, tr) \<and>
       exit_status r = 1 \<and> released tr \<and> count_list tr (Fd_open 5) = 1 \<and> count_list tr (Fd_close 5) = 1 \<and>
       count_list tr (Thread_join 0) = 1"
proof -
  let ?argv = "[''garcon'', ''8081'', ''--workers'', ''1'']"
  let ?ld = "\<lambda>lib. Inr (Inr (Some (make_descriptor lib (passing lib))))"
  let ?e = "Runtime_Error ''fatal accept() failure''"
  obtain tr where run: "server_run enough_threads sample_execution False (bare_config 8081 1) = (Some ?e, tr)"
      "count_list tr (Fd_open 5) = 1" "count_list tr (Thread_start 0) = 1" using one_served_run by blast
  obtain s tr1 where s: "server_create one_module willing_kernel no_ssl ?ld (bare_config 8081 1) = (Inr s, tr1)"
      "srv_tls s = False" "tr1 = [Fd_open 3, Module_event (Dl_open ''/a.so''), Module_event (Mod_create ''/a.so'')]"
      "srv_listener s = 3"
    by (simp add: server_create_def listener_create_def listener_setup_def willing_kernel_def bare_config_def
        create_request_handler_def one_module_configured dynamic_module_create_def instantiate_def make_descriptor_def
        export_create_def passing_def stream_factory_create_def Let_def throw_if_def)
  let ?tr = "tr1 @ tr @ server_destroy s"
  have m: "main_program one_module willing_kernel no_ssl ?ld enough_threads sample_execution ''1.0'' ?argv =
      (Some (fatal_exit ?argv ?e), ?tr)"
    using one_module_parse s(1,2) run(1) by (simp add: main_program_def)
  have d: "md_has_destroy x" if "?ld lib = Inr (Inr (Some x))" for lib x using that by (auto simp: make_descriptor_def)
  have rel: "released ?tr" using process_releases_everything [OF m sample_execution_possible d] by (rule conjunct1)
  have "count_list (server_destroy s) (Fd_open 5) = 0" "count_list (server_destroy s) (Thread_start 0) = 0"
    by (auto simp: server_destroy_def destroy_modules_def)
  then have "count_list ?tr (Fd_open 5) = 1" "count_list ?tr (Thread_start 0) = 1" using run(2,3) s(3) by simp_all
  with rel m show ?thesis unfolding released_def by (intro exI conjI) (auto simp: fatal_exit_def released_def)
qed

end
