(* ===== verification/Abi_Memory.thy ===== *)
theory Abi_Memory
  imports Module_Abi
begin

text \<open>
  The memory behind the module interface. What a module returns are views into thread-local
  vectors and strings of its library (\<^verbatim>\<open>publish_response\<close>, \<^verbatim>\<open>publish_response_headers\<close> and \<^verbatim>\<open>set_error_message\<close> of
  \<^verbatim>\<open>src/include/garcon/module_cpp.h\<close>), which the host reads after the call has returned
  (\<^verbatim>\<open>copy_string\<close>, \<^verbatim>\<open>copy_headers\<close> and \<^verbatim>\<open>to_http_response\<close> of \<^verbatim>\<open>src/src/app/dynamic_module.cpp\<close>) while other threads call
  modules too. Here buffers are blocks of a heap that growing vectors free and reallocate, a read
  through a stale view is \<open>None\<close>, and the value-level functions of \<open>Module_Abi\<close> are what all this refines.
\<close>

section \<open>Heap and vectors\<close>

text \<open>A view: block, index of the string in it, and size; \<open>None\<close> is a null pointer.\<close>

type_synonym mview = "(nat \<times> nat \<times> nat) option"

datatype cell = Str string | Hdr mview mview

record vec =
  v_buf :: "nat option"
  v_cap :: nat

text \<open>
  The thread-local objects. A storage is named by a key of type \<open>'k\<close>: the thread, together with the library
  where the linker gives each its own. A block holds all the strings of a vector, as with strings stored
  in place: any reallocation makes every earlier view of the vector stale.
\<close>

datatype slot = Names | Values | Views | Reason | Content_type | Body | Stored_message

record 'o mem =
  heap :: "nat \<rightharpoonup> cell list"
  next_block :: nat
  vecs :: "'o \<Rightarrow> vec"

type_synonym 'k tls_mem = "('k \<times> slot) mem"

definition cells :: "'o \<Rightarrow> 'o mem \<Rightarrow> cell list" where
  "cells v m = (case v_buf (vecs m v) of None \<Rightarrow> [] | Some b \<Rightarrow> (case heap m b of None \<Rightarrow> [] | Some cs \<Rightarrow> cs))"

definition put_cells :: "'o \<Rightarrow> cell list \<Rightarrow> 'o mem \<Rightarrow> 'o mem" where
  "put_cells v cs m = (case v_buf (vecs m v) of None \<Rightarrow> m | Some b \<Rightarrow> m\<lparr>heap := (heap m)(b \<mapsto> cs)\<rparr>)"

text \<open>A new buffer with the old contents; the old one is freed.\<close>

definition reallocate :: "'o \<Rightarrow> nat \<Rightarrow> 'o mem \<Rightarrow> 'o mem" where
  "reallocate v n m =
     m\<lparr>heap := (case v_buf (vecs m v) of None \<Rightarrow> heap m | Some b \<Rightarrow> (heap m)(b := None))(next_block m \<mapsto> cells v m),
       next_block := Suc (next_block m),
       vecs := (vecs m)(v := \<lparr>v_buf = Some (next_block m), v_cap = n\<rparr>)\<rparr>"

definition vec_clear :: "'o \<Rightarrow> 'o mem \<Rightarrow> 'o mem" where
  "vec_clear v m = put_cells v [] m"

definition vec_reserve :: "'o \<Rightarrow> nat \<Rightarrow> 'o mem \<Rightarrow> 'o mem" where
  "vec_reserve v n m = (if v_cap (vecs m v) < n then reallocate v n m else m)"

definition vec_push_back :: "'o \<Rightarrow> cell \<Rightarrow> 'o mem \<Rightarrow> 'o mem" where
  "vec_push_back v c m =
     (let m1 = (if length (cells v m) < v_cap (vecs m v) then m
                else reallocate v (max 1 (2 * length (cells v m))) m)
      in put_cells v (cells v m1 @ [c]) m1)"

text \<open>Assigning to a string: in place when it fits the capacity, else in a new buffer.\<close>

definition string_assign :: "'o \<Rightarrow> string \<Rightarrow> 'o mem \<Rightarrow> 'o mem" where
  "string_assign v s m =
     (let m1 = (if v_buf (vecs m v) \<noteq> None \<and> length s \<le> v_cap (vecs m v) then m else reallocate v (length s) m)
      in put_cells v [Str s] m1)"

section \<open>Publishing (module_cpp.h)\<close>

text \<open>\<^verbatim>\<open>to_abi_view\<close> of the \<open>i\<close>-th string of a vector, or of a string object.\<close>

definition mem_view :: "'o \<Rightarrow> nat \<Rightarrow> 'o mem \<Rightarrow> mview" where
  "mem_view v i m =
     (case v_buf (vecs m v) of
        None \<Rightarrow> None
      | Some b \<Rightarrow> Some (b, i, case cells v m ! i of Str s \<Rightarrow> length s | Hdr _ _ \<Rightarrow> 0))"

record mem_response =
  mp_status :: int
  mp_reason :: mview
  mp_content_type :: mview
  mp_headers :: "nat option"
  mp_header_count :: nat
  mp_body :: mview
  mp_content_length :: nat
  mp_has_content_length :: bool

definition zero_mem_response :: mem_response where
  "zero_mem_response =
     \<lparr>mp_status = 0, mp_reason = None, mp_content_type = None, mp_headers = None, mp_header_count = 0, mp_body = None,
      mp_content_length = 0, mp_has_content_length = False\<rparr>"

definition push_strings :: "'k \<Rightarrow> header_field list \<Rightarrow> 'k tls_mem \<Rightarrow> 'k tls_mem" where
  "push_strings k hs m =
     fold (\<lambda>h m. vec_push_back (k, Values) (Str (hvalue h)) (vec_push_back (k, Names) (Str (hname h)) m)) hs m"

definition push_views :: "'k \<Rightarrow> nat \<Rightarrow> 'k tls_mem \<Rightarrow> 'k tls_mem" where
  "push_views k n m =
     fold (\<lambda>i m. vec_push_back (k, Views) (Hdr (mem_view (k, Names) i m) (mem_view (k, Values) i m)) m) [0..<n] m"

definition clear_storage :: "'k \<Rightarrow> 'k tls_mem \<Rightarrow> 'k tls_mem" where
  "clear_storage k m = vec_clear (k, Views) (vec_clear (k, Values) (vec_clear (k, Names) m))"

definition reserve_storage :: "'k \<Rightarrow> nat \<Rightarrow> 'k tls_mem \<Rightarrow> 'k tls_mem" where
  "reserve_storage k n m = vec_reserve (k, Views) n (vec_reserve (k, Values) n (vec_reserve (k, Names) n m))"

definition mem_publish_headers :: "'k \<Rightarrow> header_field list \<Rightarrow> mem_response \<Rightarrow> 'k tls_mem \<Rightarrow> mem_response \<times> 'k tls_mem" where
  "mem_publish_headers k hs rv m =
     (let m1 = push_strings k hs (reserve_storage k (length hs) (clear_storage k m));
          m2 = push_views k (length (cells (k, Names) m1)) m1
      in (rv\<lparr>mp_headers := v_buf (vecs m2 (k, Views)), mp_header_count := length (cells (k, Views) m2)\<rparr>, m2))"

definition mem_publish_response :: "'k \<Rightarrow> response \<Rightarrow> mem_response \<Rightarrow> 'k tls_mem \<Rightarrow> mem_response \<times> 'k tls_mem" where
  "mem_publish_response k r rv m =
     (let m1 = string_assign (k, Body) (body r) (string_assign (k, Content_type) (content_type r) (string_assign (k, Reason) (reason r) m));
          rv1 = rv\<lparr>mp_status := status r, mp_reason := mem_view (k, Reason) 0 m1, mp_content_type := mem_view (k, Content_type) 0 m1\<rparr>
      in case mem_publish_headers k (resp_headers r) rv1 m1 of
           (rv2, m2) \<Rightarrow>
             (rv2\<lparr>mp_body := mem_view (k, Body) 0 m2, mp_has_content_length := (content_length r \<noteq> None),
                  mp_content_length := (case content_length r of None \<Rightarrow> length (body r) | Some n \<Rightarrow> n)\<rparr>, m2))"

definition mem_set_error_message :: "'k \<Rightarrow> string \<Rightarrow> 'k tls_mem \<Rightarrow> mview \<times> 'k tls_mem" where
  "mem_set_error_message k msg m =
     (let m1 = string_assign (k, Stored_message) msg m in (mem_view (k, Stored_message) 0 m1, m1))"

section \<open>Reading (dynamic_module.cpp)\<close>

definition read_view :: "'o mem \<Rightarrow> mview \<Rightarrow> string option" where
  "read_view m v =
     (case v of
        None \<Rightarrow> Some []
      | Some (b, i, n) \<Rightarrow>
          if n = 0 then Some []
          else (case heap m b of
                  None \<Rightarrow> None
                | Some cs \<Rightarrow>
                    if i < length cs then (case cs ! i of Str s \<Rightarrow> if length s = n then Some s else None | Hdr _ _ \<Rightarrow> None)
                    else None))"

definition read_header :: "'o mem \<Rightarrow> cell \<Rightarrow> header_field option" where
  "read_header m c =
     (case c of
        Str _ \<Rightarrow> None
      | Hdr n v \<Rightarrow>
          Option.bind (read_view m n) (\<lambda>name. Option.bind (read_view m v) (\<lambda>val. Some \<lparr>hname = name, hvalue = val\<rparr>)))"

fun read_all :: "('a \<Rightarrow> 'b option) \<Rightarrow> 'a list \<Rightarrow> 'b list option" where
  "read_all f [] = Some []"
| "read_all f (x # xs) = Option.bind (f x) (\<lambda>y. map_option ((#) y) (read_all f xs))"

definition mem_copy_headers :: "'o mem \<Rightarrow> mem_response \<Rightarrow> header_field list option" where
  "mem_copy_headers m rv =
     (if mp_header_count rv = 0 then Some []
      else (case mp_headers rv of
              None \<Rightarrow> None
            | Some b \<Rightarrow> (case heap m b of
                            None \<Rightarrow> None
                          | Some cs \<Rightarrow> if mp_header_count rv \<le> length cs
                                        then read_all (read_header m) (take (mp_header_count rv) cs) else None)))"

definition mem_to_http_response :: "'o mem \<Rightarrow> mem_response \<Rightarrow> response option" where
  "mem_to_http_response m rv =
     Option.bind (read_view m (mp_reason rv)) (\<lambda>rs.
     Option.bind (read_view m (mp_content_type rv)) (\<lambda>ct.
     Option.bind (mem_copy_headers m rv) (\<lambda>hs.
     Option.bind (read_view m (mp_body rv)) (\<lambda>bd.
       Some \<lparr>status = (if mp_status rv = 0 then 200 else mp_status rv),
             reason = (if rs = [] then ''OK'' else rs), content_type = ct, resp_headers = hs, body = bd,
             content_length = (if mp_has_content_length rv then Some (mp_content_length rv) else None)\<rparr>))))"

section \<open>A call through the interface\<close>

text \<open>
  \<^verbatim>\<open>detail::handle<Module>\<close> on non-null arguments, \<open>k\<close> being the storage of the calling thread. The last
  component is the error message the caller may read.
\<close>

definition mem_export_handle ::
    "'k \<Rightarrow> 'w implementation \<Rightarrow> garcon_request_view \<Rightarrow> mem_response \<Rightarrow> 'w \<times> 'k tls_mem
       \<Rightarrow> (garcon_module_outcome \<times> mem_response \<times> mview) \<times> 'w \<times> 'k tls_mem" where
  "mem_export_handle k impl rq rv wm =
     (case wm of (w, m) \<Rightarrow>
      case impl (to_http_request rq) w of
        (Inl e, w') \<Rightarrow>
          (case mem_set_error_message k (what_of e) m of (msg, m') \<Rightarrow> ((GARCON_MODULE_ERROR, rv, msg), w', m'))
      | (Inr res, w') \<Rightarrow>
          (case (case mr_response_value res of
                   Some r \<Rightarrow> mem_publish_response k (r\<lparr>resp_headers := resp_headers r @ mr_response_headers res\<rparr>) rv m
                 | None \<Rightarrow> if mr_response_headers res \<noteq> [] then mem_publish_headers k (mr_response_headers res) rv m
                           else (rv, m)) of
             (rv', m') \<Rightarrow> ((abi_outcome (mr_next res), rv', None), w', m')))"

definition mem_with_response_headers :: "module_result \<Rightarrow> 'o mem \<Rightarrow> mem_response \<Rightarrow> module_result option" where
  "mem_with_response_headers res m rv =
     map_option (foldl (\<lambda>acc h. mr_add_response_header (hname h) (hvalue h) acc) res) (mem_copy_headers m rv)"

definition mem_outcome :: "garcon_module_outcome \<Rightarrow> 'o mem \<Rightarrow> mem_response \<Rightarrow> module_result option" where
  "mem_outcome out m rv =
     (case out of
        GARCON_MODULE_PASS \<Rightarrow> mem_with_response_headers mr_pass m rv
      | GARCON_MODULE_RESPOND \<Rightarrow> map_option mr_respond (mem_to_http_response m rv)
      | GARCON_MODULE_UPGRADE \<Rightarrow> mem_with_response_headers mr_upgrade m rv
      | GARCON_MODULE_ERROR \<Rightarrow>
          if mp_status rv \<noteq> 0 then map_option mr_respond (mem_to_http_response m rv)
          else mem_with_response_headers mr_error m rv
      | Bad_outcome _ \<Rightarrow> Some mr_error)"

text \<open>
  \<^verbatim>\<open>dynamic_module::handle\<close> with the module behind it; \<open>gap\<close> is what happens to the memory between the
  return of the call and the reading of the response. \<open>None\<close>: it read through a stale view.
\<close>

definition mem_dynamic_module_handle ::
    "'k \<Rightarrow> 'w implementation \<Rightarrow> ('k tls_mem \<Rightarrow> 'k tls_mem) \<Rightarrow> request \<Rightarrow> 'w \<times> 'k tls_mem
       \<Rightarrow> module_result option \<times> 'w \<times> 'k tls_mem" where
  "mem_dynamic_module_handle k impl gap req wm =
     (case mem_export_handle k impl (ex_request (make_exchange req)) zero_mem_response wm of
        ((out, rv, msg), w', m') \<Rightarrow> (mem_outcome out (gap m') rv, w', gap m'))"

section \<open>What threads do to the memory\<close>

datatype 'k activity =
    Publishes_response 'k response
  | Publishes_headers 'k "header_field list"
  | Sets_error_message 'k string

primrec act :: "'k activity \<Rightarrow> 'k tls_mem \<Rightarrow> 'k tls_mem" where
  "act (Publishes_response k r) m = snd (mem_publish_response k r zero_mem_response m)"
| "act (Publishes_headers k hs) m = snd (mem_publish_headers k hs zero_mem_response m)"
| "act (Sets_error_message k s) m = snd (mem_set_error_message k s m)"

primrec actor :: "'k activity \<Rightarrow> 'k" where
  "actor (Publishes_response k r) = k"
| "actor (Publishes_headers k hs) = k"
| "actor (Sets_error_message k s) = k"

definition mem_start :: "'o mem" where
  "mem_start = \<lparr>heap = (\<lambda>_. None), next_block = 0, vecs = (\<lambda>_. \<lparr>v_buf = None, v_cap = 0\<rparr>)\<rparr>"

abbreviation acts :: "'k activity list \<Rightarrow> 'k tls_mem \<Rightarrow> 'k tls_mem" where
  "acts as m \<equiv> fold act as m"

section \<open>Invariant and frame\<close>

text \<open>Every buffer is live, belongs to one object, and lies below the next fresh block.\<close>

definition mem_ok :: "'o mem \<Rightarrow> bool" where
  "mem_ok m \<longleftrightarrow>
     (\<forall>v b. v_buf (vecs m v) = Some b \<longrightarrow> b < next_block m \<and> heap m b \<noteq> None) \<and>
     (\<forall>v w b. v_buf (vecs m v) = Some b \<longrightarrow> v_buf (vecs m w) = Some b \<longrightarrow> v = w) \<and>
     (\<forall>v. v_buf (vecs m v) = None \<longrightarrow> v_cap (vecs m v) = 0)"

lemma mem_okD:
  assumes "mem_ok m"
  shows "v_buf (vecs m v) = Some b \<Longrightarrow> b < next_block m"
    and "v_buf (vecs m v) = Some b \<Longrightarrow> \<exists>cs. heap m b = Some cs"
    and "v_buf (vecs m v) = Some b \<Longrightarrow> v_buf (vecs m w) = Some b \<Longrightarrow> v = w"
    and "v_buf (vecs m v) = None \<Longrightarrow> v_cap (vecs m v) = 0"
  using assms by (auto simp: mem_ok_def)

lemma mem_ok_start: "mem_ok mem_start"
  by (simp add: mem_ok_def mem_start_def)

text \<open>\<open>keeps v m m'\<close>: the object \<open>v\<close> and its contents are the same in both memories.\<close>

definition keeps :: "'o \<Rightarrow> 'o mem \<Rightarrow> 'o mem \<Rightarrow> bool" where
  "keeps v m m' \<longleftrightarrow> vecs m' v = vecs m v \<and> cells v m' = cells v m"

lemma keeps_refl [simp]: "keeps v m m"
  by (simp add: keeps_def)

lemma keeps_trans: "keeps v m m1 \<Longrightarrow> keeps v m1 m2 \<Longrightarrow> keeps v m m2"
  by (simp add: keeps_def)

lemma keeps_view: "keeps v m m' \<Longrightarrow> mem_view v i m' = mem_view v i m"
  by (simp add: keeps_def mem_view_def cong: option.case_cong)

lemma heap_of_buffer: "mem_ok m \<Longrightarrow> v_buf (vecs m v) = Some b \<Longrightarrow> heap m b = Some (cells v m)"
  using mem_okD(2) by (fastforce simp: cells_def)

lemma cells_no_buffer: "v_buf (vecs m v) = None \<Longrightarrow> cells v m = []"
  by (simp add: cells_def)

text \<open>An operation on \<open>v\<close> is local: it keeps the invariant and every other object.\<close>

definition local_to :: "'o \<Rightarrow> 'o mem \<Rightarrow> 'o mem \<Rightarrow> bool" where
  "local_to v m m' \<longleftrightarrow> mem_ok m' \<and> (\<forall>w. w \<noteq> v \<longrightarrow> keeps w m m')"

lemma local_refl: "mem_ok m \<Longrightarrow> local_to v m m"
  by (simp add: local_to_def)

lemma local_trans: "local_to v m m1 \<Longrightarrow> local_to v m1 m2 \<Longrightarrow> local_to v m m2"
  using keeps_trans by (fastforce simp: local_to_def)

lemma put_cells_local:
  assumes "mem_ok m"
  shows "local_to v m (put_cells v cs m)"
proof (cases "v_buf (vecs m v)")
  case None
  then show ?thesis using assms by (simp add: put_cells_def local_to_def)
next
  case (Some b)
  have "mem_ok (put_cells v cs m)"
    using assms Some by (auto simp: mem_ok_def put_cells_def)
  moreover have "keeps w m (put_cells v cs m)" if "w \<noteq> v" for w
    using assms Some that mem_okD(3) [OF assms, of w b v]
    by (auto simp: keeps_def put_cells_def cells_def split: option.splits)
  ultimately show ?thesis by (simp add: local_to_def)
qed

lemma put_cells_self [simp]:
  "vecs (put_cells v cs m) = vecs m"
  "v_buf (vecs m v) \<noteq> None \<Longrightarrow> cells v (put_cells v cs m) = cs"
  by (auto simp: put_cells_def cells_def split: option.splits)

lemma reallocate_self [simp]:
  "vecs (reallocate v n m) v = \<lparr>v_buf = Some (next_block m), v_cap = n\<rparr>"
  "cells v (reallocate v n m) = cells v m"
  by (simp_all add: reallocate_def cells_def)

lemma reallocate_local:
  assumes ok: "mem_ok m"
  shows "local_to v m (reallocate v n m)"
proof -
  have fresh: "v_buf (vecs m w) \<noteq> Some (next_block m)" for w
    using mem_okD(1) [OF ok, of w "next_block m"] by auto
  have other: "w = v" if "v_buf (vecs m v) = Some b" "v_buf (vecs m w) = Some b" for w b
    using mem_okD(3) [OF ok] that by blast
  have "mem_ok (reallocate v n m)"
    unfolding mem_ok_def
  proof (intro conjI allI impI)
    fix w b assume w: "v_buf (vecs (reallocate v n m) w) = Some b"
    show "b < next_block (reallocate v n m)" "heap (reallocate v n m) b \<noteq> None"
      using w mem_okD(1,2) [OF ok, of w b] other [of b w]
      by (auto simp: reallocate_def less_SucI split: if_splits option.splits)
  next
    fix w u b
    assume "v_buf (vecs (reallocate v n m) w) = Some b" "v_buf (vecs (reallocate v n m) u) = Some b"
    then show "w = u"
      using fresh mem_okD(3) [OF ok, of w b u] by (auto simp: reallocate_def split: if_splits)
  next
    fix w assume "v_buf (vecs (reallocate v n m) w) = None"
    then show "v_cap (vecs (reallocate v n m) w) = 0"
      using mem_okD(4) [OF ok] by (auto simp: reallocate_def split: if_splits)
  qed
  moreover have "keeps w m (reallocate v n m)" if "w \<noteq> v" for w
    using that fresh [of w] other [of _ w]
    by (auto simp: keeps_def reallocate_def cells_def split: option.splits)
  ultimately show ?thesis by (simp add: local_to_def)
qed


lemma local_ok: "local_to v m m' \<Longrightarrow> mem_ok m'"
  and local_keeps: "local_to v m m' \<Longrightarrow> w \<noteq> v \<Longrightarrow> keeps w m m'"
  by (simp_all add: local_to_def)

lemma regrow_local: "mem_ok m \<Longrightarrow> local_to v m (put_cells v cs (reallocate v n m))"
  using local_trans [OF reallocate_local put_cells_local] reallocate_local local_ok by metis

lemma vec_clear_local: "mem_ok m \<Longrightarrow> local_to v m (vec_clear v m)"
  by (simp add: vec_clear_def put_cells_local)

lemma vec_clear_cells: "cells v (vec_clear v m) = []"
  by (cases "v_buf (vecs m v) = None") (simp_all add: vec_clear_def cells_no_buffer)

lemma vec_reserve_local: "mem_ok m \<Longrightarrow> local_to v m (vec_reserve v n m)"
  by (simp add: vec_reserve_def reallocate_local local_refl)

lemma vec_reserve_self:
  "cells v (vec_reserve v n m) = cells v m"
  "n \<le> v_cap (vecs (vec_reserve v n m) v)"
  by (auto simp: vec_reserve_def)

lemma vec_push_back_local: "mem_ok m \<Longrightarrow> local_to v m (vec_push_back v c m)"
  unfolding vec_push_back_def Let_def
  by (simp add: put_cells_local regrow_local)

lemma vec_push_back_cells: "mem_ok m \<Longrightarrow> cells v (vec_push_back v c m) = cells v m @ [c]"
  using mem_okD(4) [of m v] by (cases "v_buf (vecs m v) = None") (simp_all add: vec_push_back_def Let_def)

text \<open>A push within the capacity stays in place: earlier views of the vector remain good.\<close>

lemma vec_push_back_in_place:
  "length (cells v m) < v_cap (vecs m v) \<Longrightarrow> vecs (vec_push_back v c m) = vecs m"
  by (simp add: vec_push_back_def)

lemma string_assign_local: "mem_ok m \<Longrightarrow> local_to v m (string_assign v s m)"
  unfolding string_assign_def Let_def
  by (simp add: put_cells_local regrow_local)

lemma string_assign_cells: "cells v (string_assign v s m) = [Str s]"
  by (simp add: string_assign_def Let_def)

lemmas local_ops = vec_clear_local vec_reserve_local vec_push_back_local string_assign_local

text \<open>A view of a live string reads as that string.\<close>

lemma read_own_view:
  assumes "mem_ok m" "i < length (cells v m)" "cells v m ! i = Str s"
  shows "read_view m (mem_view v i m) = Some s"
proof -
  obtain b where b: "v_buf (vecs m v) = Some b"
    using assms(2) cells_no_buffer [of m v] by (cases "v_buf (vecs m v)") auto
  then show ?thesis
    using assms heap_of_buffer [OF assms(1) b] by (simp add: read_view_def mem_view_def)
qed

section \<open>Publishing is local to its storage\<close>

text \<open>The same for a set of objects; publishing touches the objects of its own key only.\<close>

definition local_in :: "'o set \<Rightarrow> 'o mem \<Rightarrow> 'o mem \<Rightarrow> bool" where
  "local_in V m m' \<longleftrightarrow> mem_ok m' \<and> (\<forall>w. w \<notin> V \<longrightarrow> keeps w m m')"

lemma local_in_single: "v \<in> V \<Longrightarrow> local_to v m m' \<Longrightarrow> local_in V m m'"
  unfolding local_in_def local_to_def by metis

lemma local_in_trans: "local_in V m m1 \<Longrightarrow> local_in V m1 m2 \<Longrightarrow> local_in V m m2"
  using keeps_trans unfolding local_in_def by metis

lemma local_in_mono: "local_in V m m' \<Longrightarrow> V \<subseteq> W \<Longrightarrow> local_in W m m'"
  unfolding local_in_def by blast

lemma local_in_ok: "local_in V m m' \<Longrightarrow> mem_ok m'"
  and local_in_keeps: "local_in V m m' \<Longrightarrow> w \<notin> V \<Longrightarrow> keeps w m m'"
  by (simp_all add: local_in_def)

lemma local_in_refl: "mem_ok m \<Longrightarrow> local_in V m m"
  by (simp add: local_in_def)

text \<open>Sequencing: when each step is local from a good memory, so is their composition.\<close>

lemma local_in_comp:
  assumes "mem_ok m" "\<And>m. mem_ok m \<Longrightarrow> local_in V m (f m)" "\<And>m. mem_ok m \<Longrightarrow> local_in V m (g m)"
  shows "local_in V m (g (f m))"
  using assms local_in_trans local_in_ok by metis

lemma local_in_fold:
  assumes "mem_ok m" "\<And>x m. x \<in> set xs \<Longrightarrow> mem_ok m \<Longrightarrow> local_in V m (f x m)"
  shows "local_in V m (fold f xs m)"
  using assms
proof (induction xs arbitrary: m)
  case Nil
  then show ?case by (simp add: local_in_refl)
next
  case (Cons x xs)
  then have x: "local_in V m (f x m)" by simp
  moreover have "local_in V (f x m) (fold f xs (f x m))"
    using Cons local_in_ok [OF x] by simp
  ultimately show ?case using local_in_trans by simp blast
qed

lemma clear_storage_local: "mem_ok m \<Longrightarrow> local_in ({k} \<times> {Names, Values, Views}) m (clear_storage k m)"
  unfolding clear_storage_def
  by (rule local_in_comp, assumption, rule local_in_comp, assumption)
    (auto intro: local_in_single [OF _ vec_clear_local])

lemma reserve_storage_local: "mem_ok m \<Longrightarrow> local_in ({k} \<times> {Names, Values, Views}) m (reserve_storage k n m)"
  unfolding reserve_storage_def
  by (rule local_in_comp, assumption, rule local_in_comp, assumption)
    (auto intro: local_in_single [OF _ vec_reserve_local])

lemma push_strings_local: "mem_ok m \<Longrightarrow> local_in ({k} \<times> {Names, Values}) m (push_strings k hs m)"
  unfolding push_strings_def
  by (rule local_in_fold, assumption, rule local_in_comp, assumption)
    (auto intro: local_in_single [OF _ vec_push_back_local])

lemma push_views_local: "mem_ok m \<Longrightarrow> local_in {(k, Views)} m (push_views k n m)"
  unfolding push_views_def
  by (rule local_in_fold, assumption) (auto intro: local_in_single [OF _ vec_push_back_local])

section \<open>What a published response looks like in memory\<close>

lemma push_strings_cells:
  assumes "mem_ok m"
  shows "cells (k, Names) (push_strings k hs m) = cells (k, Names) m @ map (Str \<circ> hname) hs"
    and "cells (k, Values) (push_strings k hs m) = cells (k, Values) m @ map (Str \<circ> hvalue) hs"
proof -
  have "cells (k, Names) (push_strings k hs m) = cells (k, Names) m @ map (Str \<circ> hname) hs \<and>
        cells (k, Values) (push_strings k hs m) = cells (k, Values) m @ map (Str \<circ> hvalue) hs"
    using assms
  proof (induction hs arbitrary: m)
    case Nil
    then show ?case by (simp add: push_strings_def)
  next
    case (Cons h hs)
    define m1 where "m1 = vec_push_back (k, Names) (Str (hname h)) m"
    define m2 where "m2 = vec_push_back (k, Values) (Str (hvalue h)) m1"
    note l1 = vec_push_back_local [OF Cons.prems, of "(k, Names)" "Str (hname h)", folded m1_def]
    note l2 = vec_push_back_local [OF local_ok [OF l1], of "(k, Values)" "Str (hvalue h)", folded m2_def]
    have step: "push_strings k (h # hs) m = push_strings k hs m2"
      by (simp add: push_strings_def m1_def m2_def)
    have "cells (k, Names) m2 = cells (k, Names) m @ [Str (hname h)]"
      using local_keeps [OF l2, of "(k, Names)"] vec_push_back_cells [OF Cons.prems]
      by (simp add: keeps_def m1_def)
    moreover have "cells (k, Values) m2 = cells (k, Values) m @ [Str (hvalue h)]"
      using local_keeps [OF l1, of "(k, Values)"] vec_push_back_cells [OF local_ok [OF l1]]
      by (simp add: keeps_def m2_def)
    ultimately show ?case using Cons.IH [OF local_ok [OF l2]] by (simp add: step)
  qed
  then show "cells (k, Names) (push_strings k hs m) = cells (k, Names) m @ map (Str \<circ> hname) hs"
    and "cells (k, Values) (push_strings k hs m) = cells (k, Values) m @ map (Str \<circ> hvalue) hs" by simp_all
qed

definition header_cell :: "'k \<Rightarrow> 'k tls_mem \<Rightarrow> nat \<Rightarrow> cell" where
  "header_cell k m i = Hdr (mem_view (k, Names) i m) (mem_view (k, Values) i m)"

lemma header_cell_keeps:
  "keeps (k, Names) m m' \<Longrightarrow> keeps (k, Values) m m' \<Longrightarrow> header_cell k m' = header_cell k m"
  by (rule ext) (simp add: header_cell_def keeps_view)

lemma push_views_cells:
  assumes "mem_ok m"
  shows "cells (k, Views) (push_views k n m) = cells (k, Views) m @ map (header_cell k m) [0..<n]"
proof (induction n)
  case 0
  then show ?case by (simp add: push_views_def)
next
  case (Suc n)
  let ?m = "push_views k n m"
  note l = push_views_local [OF assms, of k n]
  have "header_cell k ?m = header_cell k m"
    by (rule header_cell_keeps) (auto intro: local_in_keeps [OF l])
  moreover have "push_views k (Suc n) m = vec_push_back (k, Views) (header_cell k ?m n) ?m"
    by (simp add: push_views_def header_cell_def)
  ultimately show ?case using Suc vec_push_back_cells [OF local_in_ok [OF l]] by simp
qed

text \<open>The headers \<open>hs\<close> as the storage of \<open>k\<close> holds them and \<open>rv\<close> refers to them.\<close>

definition headers_in_memory :: "'k \<Rightarrow> header_field list \<Rightarrow> mem_response \<Rightarrow> 'k tls_mem \<Rightarrow> bool" where
  "headers_in_memory k hs rv m \<longleftrightarrow>
     cells (k, Names) m = map (Str \<circ> hname) hs \<and> cells (k, Values) m = map (Str \<circ> hvalue) hs \<and>
     cells (k, Views) m = map (header_cell k m) [0..<length hs] \<and>
     mp_headers rv = v_buf (vecs m (k, Views)) \<and> mp_header_count rv = length hs"

lemma publish_headers_local:
  assumes "mem_ok m" "mem_publish_headers k hs rv m = (rv', m')"
  shows "local_in ({k} \<times> {Names, Values, Views}) m m'"
proof -
  let ?V = "{k} \<times> {Names, Values, Views}"
  have strings: "local_in ?V m (push_strings k hs m)" if "mem_ok m" for m
    by (rule local_in_mono [OF push_strings_local [OF that]]) blast
  have views: "local_in ?V m (push_views k n m)" if "mem_ok m" for m n
    by (rule local_in_mono [OF push_views_local [OF that]]) blast
  note c = clear_storage_local [OF assms(1), of k]
  note r = reserve_storage_local [OF local_in_ok [OF c], of k "length hs"]
  note p = strings [OF local_in_ok [OF r]]
  show ?thesis
    using local_in_trans [OF local_in_trans [OF local_in_trans [OF c r] p] views [OF local_in_ok [OF p]]] assms(2)
    by (auto simp: mem_publish_headers_def Let_def)
qed

lemma clear_contents: "mem_ok m \<Longrightarrow> cells w (vec_clear v m) = (if w = v then [] else cells w m)"
  using local_keeps [OF vec_clear_local, of m w v] by (auto simp: vec_clear_cells keeps_def)

lemma reserve_contents: "mem_ok m \<Longrightarrow> cells w (vec_reserve v n m) = cells w m"
  using local_keeps [OF vec_reserve_local, of m w v n] by (cases "w = v") (auto simp: vec_reserve_self keeps_def)

lemma storage_ready:
  assumes "mem_ok m" "s \<in> {Names, Values, Views}"
  shows "cells (k, s) (reserve_storage k n (clear_storage k m)) = []"
proof -
  note ok = local_ok [OF vec_clear_local] local_ok [OF vec_reserve_local]
  show ?thesis
    using assms by (auto simp: reserve_storage_def clear_storage_def clear_contents reserve_contents ok)
qed

lemma publish_headers_in_memory:
  assumes "mem_ok m" "mem_publish_headers k hs rv m = (rv', m')"
  shows "headers_in_memory k hs rv' m'"
    and "rv' = rv\<lparr>mp_headers := mp_headers rv', mp_header_count := mp_header_count rv'\<rparr>"
proof -
  define m0 where "m0 = reserve_storage k (length hs) (clear_storage k m)"
  define m1 where "m1 = push_strings k hs m0"
  have ok0: "mem_ok m0"
    unfolding m0_def by (intro local_in_ok [OF reserve_storage_local] local_in_ok [OF clear_storage_local] assms(1))
  note ready = storage_ready [OF assms(1), of _ k "length hs", folded m0_def]
  note l1 = push_strings_local [OF ok0, of k hs, folded m1_def]
  have m1: "cells (k, Names) m1 = map (Str \<circ> hname) hs" "cells (k, Values) m1 = map (Str \<circ> hvalue) hs"
    "cells (k, Views) m1 = []"
    using push_strings_cells [OF ok0, of k hs] local_in_keeps [OF l1, of "(k, Views)"]
    by (simp_all add: ready m1_def keeps_def)
  have res: "m' = push_views k (length hs) m1"
    "rv' = rv\<lparr>mp_headers := v_buf (vecs m' (k, Views)), mp_header_count := length (cells (k, Views) m')\<rparr>"
    using assms(2) m1(1) by (auto simp: mem_publish_headers_def Let_def m0_def [symmetric] m1_def [symmetric])
  note l2 = push_views_local [OF local_in_ok [OF l1], of k "length hs", folded res(1)]
  have kept: "keeps (k, Names) m1 m'" "keeps (k, Values) m1 m'"
    by (auto intro: local_in_keeps [OF l2])
  have "cells (k, Views) m' = map (header_cell k m') [0..<length hs]"
    using push_views_cells [OF local_in_ok [OF l1], of k "length hs"] m1(3)
    by (simp add: res(1) [symmetric] header_cell_keeps [OF kept])
  then show "headers_in_memory k hs rv' m'"
    using kept m1 by (simp add: headers_in_memory_def keeps_def res(2))
  show "rv' = rv\<lparr>mp_headers := mp_headers rv', mp_header_count := mp_header_count rv'\<rparr>"
    by (simp add: res(2))
qed

lemma headers_in_memory_keeps:
  assumes "headers_in_memory k hs rv m" "\<And>s. keeps (k, s) m m'"
  shows "headers_in_memory k hs rv m'"
  using assms(1) header_cell_keeps [OF assms(2) [of Names] assms(2) [of Values]] assms(2)
  by (simp add: headers_in_memory_def keeps_def)

lemma read_all_map:
  "(\<And>i. i < length ys \<Longrightarrow> f (g i) = Some (ys ! i)) \<Longrightarrow> read_all f (map g [0..<length ys]) = Some ys"
proof -
  assume *: "\<And>i. i < length ys \<Longrightarrow> f (g i) = Some (ys ! i)"
  have "read_all f (map g is) = Some (map ((!) ys) is)" if "\<forall>i\<in>set is. i < length ys" for "is"
    using that by (induction "is") (simp_all add: *)
  from this [of "[0..<length ys]"] show ?thesis by (simp add: map_nth)
qed

text \<open>The host's copy loop reads back the headers.\<close>

lemma copy_headers_in_memory:
  assumes "mem_ok m" "headers_in_memory k hs rv m"
  shows "mem_copy_headers m rv = Some hs"
proof (cases "hs = []")
  case True
  then show ?thesis using assms(2) by (simp add: headers_in_memory_def mem_copy_headers_def)
next
  case False
  have "read_header m (header_cell k m i) = Some (hs ! i)" if "i < length hs" for i
    using that assms(2) read_own_view [OF assms(1), of i "(k, Names)"] read_own_view [OF assms(1), of i "(k, Values)"]
    by (simp add: headers_in_memory_def read_header_def header_cell_def)
  then have all: "read_all (read_header m) (map (header_cell k m) [0..<length hs]) = Some hs"
    by (rule read_all_map)
  obtain b where b: "v_buf (vecs m (k, Views)) = Some b"
    using False assms(2) cells_no_buffer [of m "(k, Views)"]
    by (cases "v_buf (vecs m (k, Views))") (auto simp: headers_in_memory_def)
  then show ?thesis
    using assms(2) False heap_of_buffer [OF assms(1) b] all
    by (simp add: headers_in_memory_def mem_copy_headers_def)
qed

section \<open>Responses and error messages\<close>

definition string_in_memory :: "'k \<times> slot \<Rightarrow> string \<Rightarrow> mview \<Rightarrow> 'k tls_mem \<Rightarrow> bool" where
  "string_in_memory v s w m \<longleftrightarrow> cells v m = [Str s] \<and> w = mem_view v 0 m"

lemma string_in_memory_keeps: "string_in_memory v s w m \<Longrightarrow> keeps v m m' \<Longrightarrow> string_in_memory v s w m'"
  by (simp add: string_in_memory_def keeps_view) (simp add: keeps_def)

lemma string_in_memory_read: "mem_ok m \<Longrightarrow> string_in_memory v s w m \<Longrightarrow> read_view m w = Some s"
  using read_own_view [of m 0 v s] by (simp add: string_in_memory_def)

lemma string_assign_in_memory: "string_in_memory v s (mem_view v 0 (string_assign v s m)) (string_assign v s m)"
  by (simp add: string_in_memory_def string_assign_cells)

definition response_in_memory :: "'k \<Rightarrow> response \<Rightarrow> mem_response \<Rightarrow> 'k tls_mem \<Rightarrow> bool" where
  "response_in_memory k r rv m \<longleftrightarrow>
     mp_status rv = status r \<and>
     string_in_memory (k, Reason) (reason r) (mp_reason rv) m \<and>
     string_in_memory (k, Content_type) (content_type r) (mp_content_type rv) m \<and>
     headers_in_memory k (resp_headers r) rv m \<and>
     string_in_memory (k, Body) (body r) (mp_body rv) m \<and>
     (mp_has_content_length rv \<longleftrightarrow> content_length r \<noteq> None) \<and>
     mp_content_length rv = (case content_length r of None \<Rightarrow> length (body r) | Some n \<Rightarrow> n)"

lemma response_in_memory_keeps:
  "response_in_memory k r rv m \<Longrightarrow> (\<And>s. keeps (k, s) m m') \<Longrightarrow> response_in_memory k r rv m'"
  using headers_in_memory_keeps string_in_memory_keeps unfolding response_in_memory_def by metis

lemma response_in_memory_read:
  assumes "mem_ok m" "response_in_memory k r rv m"
  shows "mem_to_http_response m rv = Some (normalize_response r)"
  using assms copy_headers_in_memory [OF assms(1)] string_in_memory_read [OF assms(1)]
  by (cases "content_length r")
    (auto simp: response_in_memory_def mem_to_http_response_def normalize_response_def)

lemma publish_response_in_memory:
  assumes "mem_ok m" "mem_publish_response k r rv m = (rv', m')"
  shows "local_in ({k} \<times> UNIV) m m'" and "response_in_memory k r rv' m'"
proof -
  define ma where "ma = string_assign (k, Reason) (reason r) m"
  define mb where "mb = string_assign (k, Content_type) (content_type r) ma"
  define mc where "mc = string_assign (k, Body) (body r) mb"
  define rv1 where "rv1 = rv\<lparr>mp_status := status r, mp_reason := mem_view (k, Reason) 0 mc,
    mp_content_type := mem_view (k, Content_type) 0 mc\<rparr>"
  note la = string_assign_local [OF assms(1), of "(k, Reason)" "reason r", folded ma_def]
  note lb = string_assign_local [OF local_ok [OF la], of "(k, Content_type)" "content_type r", folded mb_def]
  note lc = string_assign_local [OF local_ok [OF lb], of "(k, Body)" "body r", folded mc_def]
  obtain rv2 where h: "mem_publish_headers k (resp_headers r) rv1 mc = (rv2, m')"
    and rv': "rv' = rv2\<lparr>mp_body := mem_view (k, Body) 0 m', mp_has_content_length := (content_length r \<noteq> None),
       mp_content_length := (case content_length r of None \<Rightarrow> length (body r) | Some n \<Rightarrow> n)\<rparr>"
    using assms(2)
    by (auto simp: mem_publish_response_def Let_def ma_def [symmetric] mb_def [symmetric] mc_def [symmetric]
        rv1_def [symmetric] split: prod.splits)
  note lh = publish_headers_local [OF local_ok [OF lc] h]
  note in_mem = publish_headers_in_memory [OF local_ok [OF lc] h]
  have str: "keeps (k, s) mc m'" if "s \<notin> {Names, Values, Views}" for s
    using that by (intro local_in_keeps [OF lh]) auto
  have carried: "string_in_memory (k, s) x w m'" if "string_in_memory (k, s) x w mc" "s \<notin> {Names, Values, Views}" for s x w
    using string_in_memory_keeps [OF that(1) str] that(2) by blast
  have "string_in_memory (k, Reason) (reason r) (mem_view (k, Reason) 0 mc) mc"
    using string_assign_in_memory [of "(k, Reason)" "reason r" m, folded ma_def]
      local_keeps [OF lb, of "(k, Reason)"] local_keeps [OF lc, of "(k, Reason)"]
    by (simp add: string_in_memory_def) (simp add: keeps_def)
  moreover have "string_in_memory (k, Content_type) (content_type r) (mem_view (k, Content_type) 0 mc) mc"
    using string_assign_in_memory [of "(k, Content_type)" "content_type r" ma, folded mb_def]
      local_keeps [OF lc, of "(k, Content_type)"]
    by (simp add: string_in_memory_def) (simp add: keeps_def)
  moreover have "string_in_memory (k, Body) (body r) (mem_view (k, Body) 0 m') mc"
    using string_assign_in_memory [of "(k, Body)" "body r" mb, folded mc_def] keeps_view [OF str [of Body]] by simp
  moreover have "mp_status rv2 = status r" "mp_reason rv2 = mem_view (k, Reason) 0 mc"
    "mp_content_type rv2 = mem_view (k, Content_type) 0 mc"
    by (subst in_mem(2), simp add: rv1_def)+
  moreover have "headers_in_memory k (resp_headers r) rv' m'"
    using in_mem(1) by (simp add: rv' headers_in_memory_def)
  ultimately show "response_in_memory k r rv' m'"
    using carried by (simp add: response_in_memory_def rv')
  show "local_in ({k} \<times> UNIV) m m'"
    using local_in_single [OF _ la] local_in_single [OF _ lb] local_in_single [OF _ lc] local_in_mono [OF lh]
      local_in_trans by (meson SigmaI UNIV_I insertI1 subset_UNIV Sigma_mono subset_refl)
qed

section \<open>Other threads\<close>

lemma set_error_message_in_memory:
  assumes "mem_ok m" "mem_set_error_message k msg m = (v, m')"
  shows "local_in ({k} \<times> UNIV) m m'" and "string_in_memory (k, Stored_message) msg v m'"
  using assms local_in_single [OF _ string_assign_local [OF assms(1)], of "(k, Stored_message)" "{k} \<times> UNIV"]
    string_assign_in_memory [of "(k, Stored_message)" msg m]
  by (auto simp: mem_set_error_message_def Let_def)

lemma act_local:
  assumes "mem_ok m"
  shows "local_in ({actor a} \<times> UNIV) m (act a m)"
proof (cases a)
  case (Publishes_response k r)
  then show ?thesis
    using publish_response_in_memory(1) [OF assms, of k r zero_mem_response] by (simp add: prod_eq_iff)
next
  case (Publishes_headers k hs)
  then show ?thesis
    using local_in_mono [OF publish_headers_local [OF assms, of k hs zero_mem_response]] by (simp add: prod_eq_iff Sigma_mono)
next
  case (Sets_error_message k msg)
  then show ?thesis using set_error_message_in_memory(1) [OF assms, of k msg] by (simp add: prod_eq_iff)
qed

lemma acts_ok: "mem_ok m \<Longrightarrow> mem_ok (acts as m)"
  using local_in_ok [OF local_in_fold [of m as UNIV act]] local_in_mono [OF act_local] by (metis subset_UNIV)

lemma acts_keep:
  assumes "mem_ok m" "\<forall>a\<in>set as. actor a \<noteq> k"
  shows "keeps (k, s) m (acts as m)"
proof (rule local_in_keeps)
  show "local_in {(j, s). j \<noteq> k} m (acts as m)"
    using assms by (intro local_in_fold local_in_mono [OF act_local]) auto
qed simp

text \<open>Whatever the other threads have done in between, the host reads what was published.\<close>

lemma published_response_read:
  assumes "mem_ok m" "mem_publish_response k r rv m = (rv', m')" "\<forall>a\<in>set as. actor a \<noteq> k"
  shows "mem_to_http_response (acts as m') rv' = Some (normalize_response r)"
    and "mem_copy_headers (acts as m') rv' = Some (resp_headers r)"
    and "mp_status rv' = status r"
proof -
  note ok = local_in_ok [OF publish_response_in_memory(1) [OF assms(1,2)]]
  have *: "response_in_memory k r rv' (acts as m')"
    by (rule response_in_memory_keeps [OF publish_response_in_memory(2) [OF assms(1,2)] acts_keep [OF ok assms(3)]])
  show "mem_to_http_response (acts as m') rv' = Some (normalize_response r)"
    by (rule response_in_memory_read [OF acts_ok [OF ok] *])
  show "mem_copy_headers (acts as m') rv' = Some (resp_headers r)"
    using * by (intro copy_headers_in_memory [OF acts_ok [OF ok], where k = k]) (simp add: response_in_memory_def)
  show "mp_status rv' = status r" using * by (simp add: response_in_memory_def)
qed

lemma published_headers_read:
  assumes "mem_ok m" "mem_publish_headers k hs zero_mem_response m = (rv', m')" "\<forall>a\<in>set as. actor a \<noteq> k"
  shows "mem_copy_headers (acts as m') rv' = Some hs"
    and "mem_to_http_response (acts as m') rv' = Some (empty_response\<lparr>resp_headers := hs\<rparr>)"
    and "mp_status rv' = 0"
proof -
  note ok = local_in_ok [OF publish_headers_local [OF assms(1,2)]]
  have *: "headers_in_memory k hs rv' (acts as m')"
    by (rule headers_in_memory_keeps [OF publish_headers_in_memory(1) [OF assms(1,2)] acts_keep [OF ok assms(3)]])
  show copied: "mem_copy_headers (acts as m') rv' = Some hs"
    by (rule copy_headers_in_memory [OF acts_ok [OF ok] *])
  have rv': "rv' = zero_mem_response\<lparr>mp_headers := mp_headers rv', mp_header_count := mp_header_count rv'\<rparr>"
    by (rule publish_headers_in_memory(2) [OF assms(1,2)])
  show "mp_status rv' = 0" by (subst rv') (simp add: zero_mem_response_def)
  have "mp_reason rv' = None" "mp_content_type rv' = None" "mp_body rv' = None" "\<not> mp_has_content_length rv'"
    by (subst rv', simp add: zero_mem_response_def)+
  then show "mem_to_http_response (acts as m') rv' = Some (empty_response\<lparr>resp_headers := hs\<rparr>)"
    using copied \<open>mp_status rv' = 0\<close> by (simp add: mem_to_http_response_def read_view_def empty_response_def)
qed

lemma nothing_published_read:
  "mem_copy_headers m zero_mem_response = Some []"
  "mem_to_http_response m zero_mem_response = Some empty_response"
  "mp_status zero_mem_response = 0"
  by (simp_all add: mem_copy_headers_def mem_to_http_response_def zero_mem_response_def read_view_def empty_response_def)

lemmas mem_reads = published_response_read published_headers_read nothing_published_read


lemma error_message_read:
  assumes "mem_ok m" "mem_set_error_message k msg m = (v, m')" "\<forall>a\<in>set as. actor a \<noteq> k"
  shows "read_view (acts as m') v = Some msg"
proof -
  note ok = local_in_ok [OF set_error_message_in_memory(1) [OF assms(1,2)]]
  show ?thesis
    by (rule string_in_memory_read [OF acts_ok [OF ok] string_in_memory_keeps [OF
            set_error_message_in_memory(2) [OF assms(1,2)] acts_keep [OF ok assms(3)]]])
qed

section \<open>The adapter in memory\<close>

lemma mem_with_response_headers_simps:
  assumes "mem_copy_headers m rv = Some hs"
  shows "mem_with_response_headers mr_pass m rv = Some (Pass_result hs)"
    and "mem_with_response_headers mr_upgrade m rv = Some (Upgrade_result hs)"
    and "mem_with_response_headers mr_error m rv = Some (Error_result hs)"
  using assms
  by (simp_all add: mem_with_response_headers_def fold_add_headers mr_pass_def mr_upgrade_def mr_error_def)

lemma mem_outcome_simps:
  assumes "mem_copy_headers m rv = Some hs" "mem_to_http_response m rv = Some r"
  shows "mem_outcome (abi_outcome out) m rv =
    Some (case out of Out_pass \<Rightarrow> Pass_result hs | Out_respond \<Rightarrow> Respond_result r | Out_upgrade \<Rightarrow> Upgrade_result hs
          | Out_error \<Rightarrow> if mp_status rv \<noteq> 0 then Respond_result r else Error_result hs)"
  using assms
  by (cases out) (simp_all add: mem_outcome_def mem_with_response_headers_simps [OF assms(1)] mr_respond_def)

lemma mem_adapter:
  assumes ok: "mem_ok m" and others: "\<forall>a\<in>set as. actor a \<noteq> k"
  shows "map_prod id fst (mem_dynamic_module_handle k impl (acts as) req (w, m)) =
           map_prod Some id (exported_module impl req w)"
proof -
  obtain res w' where i: "impl (as_http11 req) w = (res, w')" by fastforce
  note defs = mem_dynamic_module_handle_def mem_export_handle_def to_http_request_make_exchange exported_module_eq i
  show ?thesis
  proof (cases res)
    case (Inl e)
    obtain v m' where "mem_set_error_message k (what_of e) m = (v, m')" by fastforce
    then show ?thesis
      using Inl nothing_published_read mem_outcome_simps [OF nothing_published_read(1) [of "acts as m'"] nothing_published_read(2), of Out_error]
      by (simp add: defs)
  next
    case (Inr x)
    show ?thesis
    proof (cases "mr_response_value x")
      case (Some r)
      let ?r = "r\<lparr>resp_headers := resp_headers r @ mr_response_headers x\<rparr>"
      obtain rv m' where p: "mem_publish_response k ?r zero_mem_response m = (rv, m')" by fastforce
      note q = published_response_read [OF ok p others]
      show ?thesis
        using Inr Some p q(3) mem_outcome_simps [OF q(2,1), of "mr_next x"]
        by (simp add: defs carried_headers_def carried_response_def has_status_def split: outcome.splits)
    next
      case None
      show ?thesis
      proof (cases "mr_response_headers x = []")
        case True
        then show ?thesis
          using Inr None nothing_published_read mem_outcome_simps [OF nothing_published_read(1) [of "acts as m"] nothing_published_read(2), of "mr_next x"]
          by (simp add: defs carried_headers_def carried_response_def has_status_def zero_view_simps split: outcome.splits)
      next
        case False
        obtain rv m' where p: "mem_publish_headers k (mr_response_headers x) zero_mem_response m = (rv, m')" by fastforce
        note q = published_headers_read [OF ok p others]
        show ?thesis
          using Inr None False p q(3) mem_outcome_simps [OF q(1,2), of "mr_next x"]
          by (simp add: defs carried_headers_def carried_response_def has_status_def split: outcome.splits)
      qed
    qed
  qed
qed

text \<open>
  C16 (refinement). The views a module hands out are never stale when the host reads them. Take the thread-local
  storages after any history of calls, let the thread that owns storage \<open>k\<close> call a module, and let other
  threads publish whatever they like between the return and the host's copy of the response: the
  host reads a result, and it is the one of the value-level adapter, for every implementation, request
  and outcome, exceptions included.
\<close>

theorem module_views_refine:
  assumes "\<forall>a\<in>set others. actor a \<noteq> k"
  shows "map_prod id fst (mem_dynamic_module_handle k impl (acts others) req (w, acts history mem_start)) =
           map_prod Some id (exported_module impl req w)"
  by (rule mem_adapter [OF acts_ok [OF mem_ok_start] assms])

definition sample_respond :: "unit implementation" where
  "sample_respond req w = (Inr (res_add_response_header ''X-A'' ''1'' (res_respond empty_response)), w)"

theorem module_views_refine_witness:
  "map_prod id fst (mem_dynamic_module_handle (0::nat) sample_respond
      (acts [Publishes_response 1 empty_response, Sets_error_message 2 ''late''])
      sample_request ((), acts [Publishes_headers 0 [\<lparr>hname = ''Old'', hvalue = ''v''\<rparr>]] mem_start)) =
   (Some (Respond_result (empty_response\<lparr>resp_headers := [\<lparr>hname = ''X-A'', hvalue = ''1''\<rparr>]\<rparr>)), ())"
proof -
  have "exported_module sample_respond sample_request () =
          (Respond_result (empty_response\<lparr>resp_headers := [\<lparr>hname = ''X-A'', hvalue = ''1''\<rparr>]\<rparr>), ())"
    by (simp add: exported_module_eq sample_respond_def res_add_response_header_def res_respond_def carried_response_def
        normalize_response_def empty_response_def)
  then show ?thesis by (subst module_views_refine) simp_all
qed

end
