(* ===== verification/Unit_Http.thy ===== *)
theory Unit_Http
  imports Http_Framing
begin

text \<open>
  The repository's own unit tests (\<^verbatim>\<open>src/tests/unit_http.cpp\<close>), run on the model: each test function is the
  conjunction of what it expects, evaluated by the definitions the other theories reason about.
\<close>

section \<open>The scripted stream\<close>

text \<open>The chunks still to deliver, each cut to the span, and the status after the last one.\<close>

fun scripted_recv :: "string list \<times> io_status \<Rightarrow> nat \<Rightarrow> (read_result \<times> string list \<times> io_status) option" where
  "scripted_recv ([], final) n = Some (\<lparr>rd_status = final, rd_bytes = []\<rparr>, [], final)"
| "scripted_recv (c # cs, final) n = Some (\<lparr>rd_status = Io_ok, rd_bytes = take n c\<rparr>, cs, final)"

section \<open>The tests\<close>

definition test_request_parse_valid :: bool where
  "test_request_parse_valid \<longleftrightarrow>
     (case parse (''GET /hello HTTP/1.1'' @ CRLF @ ''Host: localhost'' @ CRLF @ ''Connection: keep-alive'' @ HEND) of
        Inl _ \<Rightarrow> False
      | Inr r \<Rightarrow> req_method r = ''GET'' \<and> target r = ''/hello'' \<and> version_major r = 1 \<and> version_minor r = 1 \<and>
                 keep_alive_requested r)"

definition test_request_parse_rejects_folded_header :: bool where
  "test_request_parse_rejects_folded_header \<longleftrightarrow>
     parse (''GET / HTTP/1.1'' @ CRLF @ ''Host: localhost'' @ CRLF @ '' X-Bad: folded'' @ HEND) = Inl Invalid_header"

definition test_buffer_growth_and_commit :: bool where
  "test_buffer_growth_and_commit \<longleftrightarrow>
     (case write_span empty_buffer 4 of (b, n) \<Rightarrow> 4 \<le> n \<and> as_string_view (commit (span_write b ''test'') 4) = ''test'')"

definition test_framing_partial_reads :: bool where
  "test_framing_partial_reads \<longleftrightarrow>
     (case read_header_block scripted_recv
             ([''GET / HTTP/1.1'' @ CRLF @ ''Host: local'', ''host'' @ HEND], Io_closed) empty_buffer max_request_header_bytes of
        Some (Inr header, b, s) \<Rightarrow> header = ''GET / HTTP/1.1'' @ CRLF @ ''Host: localhost'' @ HEND
      | _ \<Rightarrow> False)"

definition test_framing_too_large :: bool where
  "test_framing_too_large \<longleftrightarrow>
     (case read_header_block scripted_recv ([''GET / HTTP/1.1'' @ CRLF @ ''Host: localhost''], Io_closed) empty_buffer 16 of
        Some (Inl e, b, s) \<Rightarrow> e = Hdr_too_large
      | _ \<Rightarrow> False)"

definition test_response_header_validation :: bool where
  "test_response_header_validation \<longleftrightarrow>
     (case add_header ''X-Test'' (''bad'' @ CRLF @ ''value'') empty_response of Inl (Invalid_Argument _) \<Rightarrow> True | _ \<Rightarrow> False) \<and>
     sv_find (serialize (empty_response\<lparr>resp_headers := resp_headers empty_response
       @ [\<lparr>hname = ''X-Unsafe'', hvalue = ''still'' @ CRLF @ ''bad''\<rparr>]\<rparr>) Close) ''X-Unsafe'' 0 = None"

text \<open>\<^verbatim>\<open>main\<close> returns 0 when every test does.\<close>

definition unit_http_main :: nat where
  "unit_http_main =
     (if test_request_parse_valid \<and> test_request_parse_rejects_folded_header \<and> test_buffer_growth_and_commit \<and>
         test_framing_partial_reads \<and> test_framing_too_large \<and> test_response_header_validation then 0 else 1)"

section \<open>They pass\<close>

text \<open>One read of the framing loop that delivers \<open>bs\<close>.\<close>

lemma framing_read:
  assumes "buf_inv b" and "find_header_end (as_string_view b) = None" and "length (as_string_view b) < max_bytes"
    and "recv s 2048 = Some (\<lparr>rd_status = Io_ok, rd_bytes = bs\<rparr>, s')" and "length bs \<le> 2048"
  obtains b' where "buf_inv b'" and "as_string_view b' = as_string_view b @ bs"
    and "read_header_block recv s b max_bytes = read_header_block recv s' b' max_bytes"
proof -
  obtain b1 where b1: "write_span b 2048 = (b1, 2048)" "length (buf_data b1) = buf_size b1 + 2048"
      "as_string_view b1 = as_string_view b" using write_span_2048 [OF assms(1)] by metis
  note app = append_commit [OF b1(2) assms(5)]
  show thesis
  proof (rule that [OF app(2)])
    show "as_string_view (commit (span_write b1 bs) (length bs)) = as_string_view b @ bs" by (simp add: app(1) b1(3))
    show "read_header_block recv s b max_bytes = read_header_block recv s' (commit (span_write b1 bs) (length bs)) max_bytes"
      using assms(2-4) b1(1) by (subst read_header_block.simps) (simp add: Let_def bytes_read_def)
  qed
qed

lemma framing_found:
  "find_header_end (as_string_view b) = Some e \<Longrightarrow>
     read_header_block recv s b max_bytes = Some (Inr (sv_substr (as_string_view b) 0 e), b, s)"
  by (subst read_header_block.simps) (simp add: Let_def)

lemma framing_partial: test_framing_partial_reads
proof -
  let ?c1 = "''GET / HTTP/1.1'' @ CRLF @ ''Host: local''" and ?c2 = "''host'' @ HEND"
  have e: "find_header_end [] = None" "find_header_end ?c1 = None" "find_header_end (?c1 @ ?c2) = Some (length (?c1 @ ?c2))"
    by code_simp+
  obtain b1 where b1: "buf_inv b1" "as_string_view b1 = as_string_view empty_buffer @ ?c1"
      "read_header_block scripted_recv ([?c1, ?c2], Io_closed) empty_buffer max_request_header_bytes =
       read_header_block scripted_recv ([?c2], Io_closed) b1 max_request_header_bytes"
    by (rule framing_read [of empty_buffer max_request_header_bytes scripted_recv "([?c1, ?c2], Io_closed)" ?c1 "([?c2], Io_closed)"])
      (simp_all add: e(1) max_request_header_bytes_def)
  then have v1: "as_string_view b1 = ?c1" by simp
  obtain b2 where b2: "as_string_view b2 = as_string_view b1 @ ?c2"
      "read_header_block scripted_recv ([?c2], Io_closed) b1 max_request_header_bytes =
       read_header_block scripted_recv ([], Io_closed) b2 max_request_header_bytes"
    by (rule framing_read [OF b1(1), of max_request_header_bytes scripted_recv "([?c2], Io_closed)" ?c2 "([], Io_closed)"])
      (use v1 e(2) in \<open>simp_all add: max_request_header_bytes_def\<close>)
  have v2: "as_string_view b2 = ?c1 @ ?c2" using b2(1) v1 by simp
  with e(3) have "find_header_end (as_string_view b2) = Some (length (?c1 @ ?c2))" by simp
  from framing_found [OF this] have "read_header_block scripted_recv ([], Io_closed) b2 max_request_header_bytes =
      Some (Inr (?c1 @ ?c2), b2, [], Io_closed)" unfolding v2 by (simp add: sv_substr_def)
  with b1(3) b2(2) show ?thesis by (simp add: test_framing_partial_reads_def)
qed

lemma framing_too_large: test_framing_too_large
proof -
  let ?c = "''GET / HTTP/1.1'' @ CRLF @ ''Host: localhost''"
  have e: "find_header_end [] = None" "find_header_end ?c = None" by code_simp+
  obtain b where b: "as_string_view b = as_string_view empty_buffer @ ?c"
      "read_header_block scripted_recv ([?c], Io_closed) empty_buffer 16 = read_header_block scripted_recv ([], Io_closed) b 16"
    by (rule framing_read [of empty_buffer 16 scripted_recv "([?c], Io_closed)" ?c "([], Io_closed)"]) (simp_all add: e(1))
  have v: "as_string_view b = ?c" using b(1) by simp
  have "read_header_block scripted_recv ([], Io_closed) b 16 = Some (Inl Hdr_too_large, b, [], Io_closed)"
    using e(2) v by (subst read_header_block.simps) (simp add: Let_def)
  with b(2) show ?thesis by (simp add: test_framing_too_large_def)
qed

lemma unit_http_passes: "unit_http_main = 0"
proof -
  have test_request_parse_valid test_request_parse_rejects_folded_header test_buffer_growth_and_commit
    test_response_header_validation by code_simp+
  with framing_partial framing_too_large show ?thesis by (simp add: unit_http_main_def)
qed

end
