(* ===== verification/Spec2Isabelle.thy ===== *)
theory Spec2Isabelle
  imports Prelude Peer_Address Calendar Http_Request Http_Response Net_Stream Http_Framing Request_Pipeline Module_Abi
    Config_Text Module_Helpers Route_Table Router Header_Guard Host_Guard Cors Work_Queue Ip_Limiter
    Server_Runtime Connection_Handler Stream_Timeouts Conversations Access_Log Native_Path Static_Files Jwt_Auth Machine_Double Rate_Limit
    Command_Line Module_Loader Deployment Shipped_Site Site_Policy Socket_Ownership Stream_Lifetime Server_Sockets Program Abi_Memory Unit_Http
begin

text \<open>
  Verification of the Garcon web server (C++, under \<^verbatim>\<open>src/src\<close>, \<^verbatim>\<open>src/include\<close> and \<^verbatim>\<open>src/lib\<close>).

  \<^bold>\<open>The program.\<close> \<^verbatim>\<open>main\<close> parses the command line, builds a server (listening socket, request
  pipeline from a directory of module configuration files, stream factory with an optional
  TLS context) and runs its accept loop. Accepted connections pass a per-address limiter
  and a bounded queue to a pool of workers; a worker reads requests from the connection,
  hands each to the pipeline of modules, and writes the responses. Modules are shared
  libraries behind a C interface: route table, router, header guard, host guard, CORS, JWT
  authentication, rate limiter and static files.

  \<^bold>\<open>Conventions.\<close> Strings are lists of bytes. An exception is \<open>Inl\<close> of a \<open>failure\<close>; signed overflow,
  which C++ leaves undefined, is the failure \<open>Signed_Overflow\<close>. What the program cannot compute
  (the kernel, OpenSSL, the dynamic linker, the file system, the clock, HMAC) is an
  argument: a list of answers, a record of functions or a function. State a module keeps
  behind its \<^verbatim>\<open>const\<close> interface is threaded through as the world.

  \<^bold>\<open>Theories.\<close>
  \<^item> \<open>Prelude\<close>: results and exceptions, \<^verbatim>\<open>string_view\<close> searches, trimming and splitting loops, decimal
    printing and parsing, with the collections \<open>outcome_simps\<close> and \<open>sv_simps\<close>.
  \<^item> \<open>Http_Request\<close> (http/request.cpp, header.h): the parser equals a grammar, its results are
    well formed, printing and parsing round-trip, connection tokens.
  \<^item> \<open>Http_Response\<close> (http/response.cpp): serialization; no response splitting, one framing field each.
  \<^item> \<open>Net_Stream\<close> (net/socket.cpp, net/listener.cpp, tls/stream.cpp): read and write loops over the
    answers of the kernel or of OpenSSL; the locale \<open>byte_stream\<close>, interpreted for plain and
    TLS streams.
  \<^item> \<open>Peer_Address\<close> (net/listener.cpp): the text of a client's address, which determines the address.
  \<^item> \<open>Socket_Ownership\<close> (net/socket.cpp): the special member functions on a store of objects; each
    open descriptor has exactly one owner and is closed once.
  \<^item> \<open>Stream_Lifetime\<close> (tls/stream.cpp, net/plain_stream.cpp, default_stream_factory.cpp, server.cpp): the
    objects of one connection; on every path its descriptor is closed and its SSL object freed once.
  \<^item> \<open>Http_Framing\<close> (http/buffer.cpp, http/framing.cpp): the receive buffer as an append-only
    sequence; what the framing loop answers, that it returns, independence of segmentation.
  \<^item> \<open>Request_Pipeline\<close> (app/request_pipeline.cpp, request_module.h): the first module that does
    not pass decides.
  \<^item> \<open>Module_Abi\<close> (garcon/module_abi.h, module_cpp.h, app/dynamic_module.cpp): crossing the C interface
    changes nothing but documented defaults.
  \<^item> \<open>Abi_Memory\<close> (the same code): the thread-local vectors and strings behind the views, on a heap whose blocks
    are freed on growth; with other threads publishing in between, it refines \<open>Module_Abi\<close>.
  \<^item> \<open>Config_Text\<close>: the parsing helpers every module repeats, and the locales \<open>rule_module\<close> (first
    applicable rule acts) and \<open>guard_module\<close> (passing means no rule applied), interpreted by
    \<open>Route_Table\<close>, \<open>Router\<close>, \<open>Header_Guard\<close>, \<open>Host_Guard\<close> and \<open>Cors\<close> for the modules of those names.
  \<^item> \<open>Module_Helpers\<close> (lib/*/*_module.cpp): every module's own copies of these helpers, which agree.
  \<^item> \<open>Jwt_Auth\<close> (lib/jwt_auth): base64url, claims, signature check; only signed tokens pass, issued
    tokens validate.
  \<^item> \<open>Machine_Double\<close> and \<open>Rate_Limit\<close> (lib/rate_limit): rounding to 53 bits behind the locale \<open>rounding\<close>;
    token buckets in that arithmetic: an upper bound on what passes with the rounding error
    made explicit, the burst as a lower bound, and the range of every answer.
  \<^item> \<open>Native_Path\<close>, \<open>Static_Files\<close> (lib/static_files): mapping of targets, containment in the root,
    independence of files outside it.
  \<^item> \<open>Work_Queue\<close>, \<open>Ip_Limiter\<close>, \<open>Server_Runtime\<close> (app/work_queue.cpp, ip_connection_limiter.cpp,
    worker_pool.cpp, server.cpp): queue and limiter with the locales \<open>bounded_queue\<close> and
    \<open>admission\<close>; the server as a step relation that interleaves the accept loop with the
    workers; admission invariant, order, shutdown, reported refusals.
  \<^item> \<open>Connection_Handler\<close> (app/connection_handler.cpp, net/plain_stream.cpp): the request loop, with the locale
    \<open>connection_invariant\<close> for what every step of it keeps.
  \<^item> \<open>Stream_Timeouts\<close> (net/socket.cpp, tls/stream.cpp, config.h): replacing a stream by one that behaves alike
    (locale \<open>stream_simulation\<close>), and with it the socket options under which every blocking call is made (locale
    \<open>socket_stream\<close>, interpreted for plain and TLS streams): five seconds, and fifteen to wait for a later request.
  \<^item> \<open>Conversations\<close>: whole conversations from the client's bytes to the bytes sent, proved in the locale
    \<open>duplex\<close> and interpreted for plain and TLS connections, interrupted calls and partial writes included; on a TLS
    connection with the \<^verbatim>\<open>Strict-Transport-Security\<close> field on every answer.
  \<^item> \<open>Calendar\<close>, \<open>Access_Log\<close> (app/access_log.cpp): \<^verbatim>\<open>gmtime\<close> and its inverse; the log lines with their time stamps, from which
    the records can be read back.
  \<^item> \<open>Command_Line\<close> (app/command_line.cpp, server_config.h): accepted command lines as a grammar, bounds of
    the configuration.
  \<^item> \<open>Module_Loader\<close> (app/module_config.cpp, dynamic_module.cpp, server.cpp): configuration files in
    order, loading with clean-up, the resulting pipeline.
  \<^item> \<open>Server_Sockets\<close> (net/listener.cpp, app/work_queue.cpp, worker_pool.cpp, server.cpp): the socket objects of the
    running server, each step of \<open>Server_Runtime\<close> with the moves and destructions it performs on the store of
    \<open>Socket_Ownership\<close>; where the descriptor of every client is, and a ledger of what was opened and closed.
  \<^item> \<open>Program\<close> (net/listener.cpp, tls/context.cpp, default_stream_factory.cpp, worker_pool.cpp, server.cpp, main.cpp):
    exit status and release of every resource, the clients' descriptors and the threads included.
  \<^item> \<open>Unit_Http\<close> (tests/unit_http.cpp): the repository's unit tests, run on the model.
  \<^item> \<open>Deployment\<close> (lib/*/module.cpp): the exported constructors, where a configured module stands in the
    pipeline, and what a module that decides does to those after it.
  \<^item> \<open>Shipped_Site\<close> (modules.d): the configuration files of the repository as text, the rules they describe and the
    pipeline they make; \<open>Site_Policy\<close>: what that site answers, outside \<^verbatim>\<open>/api/\<close> as a table and below it as a
    set of refusals, and the spellings of a path its guards do not cover.
  \<^item> This theory: a deployed server, where configuration, loading, the C interface, the pipeline,
    the header guard, the token check or the site's root, and the connection handler meet.

  \<^bold>\<open>Loops.\<close> Loops over text are functions with a measure. The framing loop and the request loop may
  wait for a peer forever and are partial functions whose value \<open>None\<close> means that the
  recorded answers are used up; that they return is a theorem (\<open>framing_returns\<close>) or part of
  one (\<open>tcp_conversation\<close>). No fuel is used. The bound on the framing loop is the limit on
  header bytes, since each answer it accepts carries at least one byte.

  \<^bold>\<open>Arithmetic.\<close> Integers are mathematical with the width written out where it matters: \<^verbatim>\<open>int\<close> digit
  loops test for overflow, the base64 accumulator wraps at 32 bits, \<^verbatim>\<open>size_t\<close> products wrap at 64.
  Doubles are rationals with one rounding per operation; the values of the rate limiter
  stay far from overflow and from the subnormal range.

  \<^bold>\<open>Not modelled.\<close> Allocation failure. Threads below the granularity of a critical section (the
  mutexes of the queue, the limiter and the buckets make each operation atomic; the two
  sections of the rate limiter's handler are separate, with the other workers' effect
  between them as a parameter) or of a call across the module interface. The narrowing of the JWT
  secret's length to \<^verbatim>\<open>int\<close> in the call of \<^verbatim>\<open>HMAC\<close>, which concerns secrets of two gigabytes. The \<^verbatim>\<open>::shutdown\<close> that precedes
  the \<^verbatim>\<open>::close\<close> of a socket. Standard output other than help, version and access lines. Packaging and build files.
\<close>

section \<open>A deployed server\<close>

text \<open>A machine with a header guard in front of a site, and a request without the key.\<close>

definition guard_text :: string where
  "guard_text = ''path=/guard.so'' @ [LF] @ ''rule=*|/api/*|X-Key|s3cret|401|denied''"

definition guarded_machine :: environment where
  "guarded_machine =
     bare_machine\<lparr>env_absolute := Inr, env_exists := (\<lambda>p. Inr True), env_is_directory := (\<lambda>p. Inr True),
       env_read_dir := (\<lambda>p. Inr [(''20-site.conf'', Inr True), (''10-guard.conf'', Inr True)]),
       env_open := (\<lambda>p. if p = ''/modules.d/10-guard.conf'' then Some guard_text
                        else if p = ''/modules.d/20-site.conf'' then Some ''path=/site.so'' else None)\<rparr>"

definition guard_or_pass :: "string \<Rightarrow> unit constructor" where
  "guard_or_pass lib = (if lib = ''/guard.so'' then header_guard_new else passing lib)"

definition guard_linker :: "unit linker" where
  "guard_linker lib = Inr (Inr (Some (make_descriptor lib (guard_or_pass lib))))"

definition guard_module_config :: configured_module where
  "guard_module_config =
     \<lparr>library_file = ''/guard.so'', cm_config_directory = ''/modules.d'', cm_config_text = guard_text\<rparr>"

definition site_module_config :: configured_module where
  "site_module_config =
     \<lparr>library_file = ''/site.so'', cm_config_directory = ''/modules.d'', cm_config_text = ''path=/site.so''\<rparr>"

definition guard_rule :: header_rule where
  "guard_rule =
     \<lparr>hr_method_pattern = ''*'', hr_target_pattern = ''/api/'', hr_target_kind = Prefix_pattern,
      hr_header_name = ''X-Key'', hr_expected_value = Some ''s3cret'', hr_failure_status = 401,
      hr_failure_body = ''denied''\<rparr>"

definition keyless_request :: request where
  "keyless_request =
     \<lparr>version_major = 1, version_minor = 1, req_method = ''GET'', target = ''/api/x'',
      req_headers = [\<lparr>hname = ''Connection'', hvalue = ''close''\<rparr>]\<rparr>"

lemma guard_configured:
  "load_configured_modules guarded_machine (module_config_dir (bare_config 80 1)) =
     Inr (Inr ([] @ guard_module_config # [site_module_config]))"
proof -
  have "load_configured_modules guarded_machine ''/modules.d'' = Inr (Inr [guard_module_config, site_module_config])"
    by code_simp
  then show ?thesis by (simp add: bare_config_def)
qed

lemma guard_rules: "header_guard_create (c_string (cm_config_text guard_module_config)) = Inr [guard_rule]"
  by code_simp

lemma guard_violated: "list_ex (\<lambda>r. hg_violated r keyless_request) [guard_rule]"
  by code_simp

lemma guard_new: "guard_or_pass (library_file guard_module_config) = header_guard_new"
  by (simp add: guard_or_pass_def guard_module_config_def)

lemma guard_libraries: "\<exists>name. guard_linker lib = Inr (Inr (Some (make_descriptor name (guard_or_pass lib))))"
  by (auto simp: guard_linker_def)

lemma guard_started: "\<exists>ms tr. create_request_handler guarded_machine guard_linker (bare_config 80 1) = (Inr ms, tr)"
proof -
  have "header_guard_new host (c_string guard_text) = Inr (\<lambda>req w. (Inr (header_guard_handle [guard_rule] req), w))" for host
    using guard_rules by (simp add: header_guard_new_def guard_module_config_def)
  then have "list_all (\<lambda>cm. \<exists>name new impl. guard_linker (library_file cm) = Inr (Inr (Some (make_descriptor name new))) \<and>
      new (host_of (bare_config 80 1) cm) (c_string (cm_config_text cm)) = Inr impl) [guard_module_config, site_module_config]"
    by (simp add: guard_linker_def guard_or_pass_def guard_module_config_def site_module_config_def)
      (use passing_def in blast)
  from load_modules_exported [OF this, of "[]"] guard_configured show ?thesis
    by (simp add: create_request_handler_def)
qed

text \<open>
  C8 (safety). What a deployed site gives away: in a server started from a directory of configuration files
  with a static-file module among them, the module's root is the directory its configuration names,
  the module ends the pipeline, and whenever the modules before it pass, a 200 answer carries a regular
  file whose canonical path lies below that root, with its size and for a GET its bytes; every other
  answer is a 404, 405, 413 or 500.
\<close>

theorem deployed_site_contained:
  assumes "create_request_handler env ld config = (Inr ms, tr)"
    and "\<And>lib. \<exists>name. ld lib = Inr (Inr (Some (make_descriptor name (new lib))))"
    and "load_configured_modules env (module_config_dir config) = Inr (Inr (pre @ cm # post))"
    and "new (library_file cm) = static_files_new fs"
    and "passes req (take (length pre) (loaded_pipeline ms)) w hs w1"
    and "pipeline_handle (loaded_pipeline ms) req w = (resp, w2)"
  shows "\<exists>site. static_files_module_create fs (host_of config cm) (c_string (cm_config_text cm)) = Inr site \<and>
           fs_is_directory fs site \<and> w2 = w1 \<and>
           (status resp \<in> {404, 405, 413, 500} \<or>
            (\<exists>rel rest n. map_to_relative_path (target req) = Some rel \<and> fs_canonical fs (site @ rel) = Some (site @ rest) \<and>
               fs_entry fs (site @ rest) = Some (True, Inr n) \<and> status resp = 200 \<and> content_length resp = Some n \<and>
               (if req_method req = ''GET''
                then \<exists>bytes. fs_open fs (site @ rest) = Some bytes \<and> body resp = take n bytes \<and> length (body resp) = n
                else req_method req = ''HEAD'' \<and> body resp = [])))"
proof -
  obtain impl where "new (library_file cm) (host_of config cm) (c_string (cm_config_text cm)) = Inr impl"
    by (rule deployed_split [OF assms(1-3)])
  then have impl: "static_files_new fs (host_of config cm) (c_string (cm_config_text cm)) = Inr impl"
    by (simp add: assms(4))
  from site_module_decides [OF impl, of req] obtain site where
    site: "static_files_module_create fs (host_of config cm) (c_string (cm_config_text cm)) = Inr site" by blast
  have answer: "exported_module impl req w = (site_answer fs site req, w)"
    if "new (library_file cm) (host_of config cm) (c_string (cm_config_text cm)) = Inr impl" for impl w
    using that assms(4) site site_module_decides [of fs "host_of config cm" "c_string (cm_config_text cm)" impl req] by fastforce
  have dir: "fs_is_directory fs site"
    using site by (auto simp: static_files_module_create_def static_files_create_def Let_def outcome_simps)
  show ?thesis
  proof (cases "static_files_handle fs site req")
    case (Inl e)
    then have d: "decided hs (site_answer fs site req) = Some (append_response_headers
        (text_response 500 ''Internal Server Error'' (''module error'' @ [LF])) hs)" for hs
      by (simp add: site_answer_def)
    from deployed_decision(2) [OF assms(1-3) answer d assms(5)] assms(6) site dir show ?thesis
      by (auto simp: append_response_headers_def)
  next
    case (Inr r)
    then have d: "decided hs (site_answer fs site req) = Some (append_response_headers (normalize_response r) hs)" for hs
      by (simp add: site_answer_def)
    have resp: "resp = append_response_headers (normalize_response r) hs" "w2 = w1"
      using deployed_decision(2) [OF assms(1-3) answer d assms(5)] assms(6) by auto
    have f: "body resp = body r" "content_length resp = content_length r"
      by (simp_all add: resp append_response_headers_def normalize_response_def)
    have st: "status resp = status r"
      using static_files_inside [OF Inr] by (auto simp: resp append_response_headers_def normalize_response_def)
    from static_files_inside [OF Inr, folded f st] site dir resp(2) show ?thesis by blast
  qed
qed

text \<open>A machine with a site alone.\<close>

definition site_machine :: environment where
  "site_machine =
     bare_machine\<lparr>env_absolute := Inr, env_exists := (\<lambda>p. Inr True), env_is_directory := (\<lambda>p. Inr True),
       env_read_dir := (\<lambda>p. Inr [(''20-site.conf'', Inr True)]),
       env_open := (\<lambda>p. if p = ''/modules.d/20-site.conf'' then Some ''path=/site.so'' else None)\<rparr>"

theorem deployed_site_contained_witness:
  "\<exists>ms tr resp. create_request_handler site_machine (\<lambda>lib. Inr (Inr (Some (make_descriptor lib (static_files_new sample_fs)))))
       (bare_config 80 1) = (Inr ms, tr) \<and>
     pipeline_handle (loaded_pipeline ms) (sample_request\<lparr>target := ''/a.txt''\<rparr>) () = (resp, ()) \<and>
     (status resp \<in> {404, 405, 413, 500} \<or> (status resp = 200 \<and> body resp = ''hello''))"
proof -
  let ?new = "\<lambda>lib. static_files_new sample_fs :: unit constructor"
  let ?ld = "\<lambda>lib. Inr (Inr (Some (make_descriptor lib (?new lib))))"
  let ?req = "sample_request\<lparr>target := ''/a.txt''\<rparr>"
  let ?cm = site_module_config and ?c = "bare_config 80 1"
  have "load_configured_modules site_machine ''/modules.d'' = Inr (Inr [?cm])" by code_simp
  then have conf: "load_configured_modules site_machine (module_config_dir ?c) = Inr (Inr ([] @ ?cm # []))"
    by (simp add: bare_config_def)
  have "config_get (c_string (cm_config_text ?cm)) ''root'' = None" by code_simp
  then have root: "static_files_module_create sample_fs (host_of ?c ?cm) (c_string (cm_config_text ?cm)) = Inr [''/'', ''www'']"
    by (simp add: static_files_module_create_def resolve_path_def host_of_def bare_config_def static_files_create_def
        canonicalize_path_def sample_fs_def throw_if_def)
  then have "\<exists>impl. ?new (library_file ?cm) (host_of ?c ?cm) (c_string (cm_config_text ?cm)) = Inr impl"
    by (simp add: static_files_new_def)
  then have "list_all (\<lambda>cm. \<exists>name new impl. ?ld (library_file cm) = Inr (Inr (Some (make_descriptor name new))) \<and>
      new (host_of ?c cm) (c_string (cm_config_text cm)) = Inr impl) [?cm]"
    by (simp only: list.pred_inject) blast
  from load_modules_exported [OF this, of "[]"] conf obtain ms tr where
    s: "create_request_handler site_machine ?ld ?c = (Inr ms, tr)"
    by (auto simp: create_request_handler_def)
  obtain resp where run: "pipeline_handle (loaded_pipeline ms) ?req () = (resp, ())" by (metis surj_pair old.unit.exhaust)
  have q: "req_method ?req = ''GET''" by code_simp
  have "fs_entry sample_fs ([''/'', ''www''] @ rest) = Some (True, Inr n) \<Longrightarrow> rest = [''a.txt''] \<and> n = 5" for rest n
    by (auto simp: sample_fs_def split: if_splits)
  moreover have "fs_open sample_fs ([''/'', ''www''] @ [''a.txt'']) = Some ''hello''" by (simp add: sample_fs_def)
  moreover have "passes ?req (take (length []) (loaded_pipeline ms)) () [] ()" by simp
  ultimately have "status resp \<in> {404, 405, 413, 500} \<or> (status resp = 200 \<and> body resp = ''hello'')"
    using deployed_site_contained [where new = ?new and fs = sample_fs and hs = "[]", OF s _ conf refl _ run] root q
    by fastforce
  with s run show ?thesis by blast
qed

text \<open>
  C12 (safety). A configured header guard cannot be bypassed: in a server started from a
  directory of configuration files, a request that violates one of the guard's rules is
  answered without consulting any module configured after the guard (dropping them changes
  neither the answer nor the state), and when the modules before it pass the answer is the
  response of the first violated rule with the headers those modules asked for.
\<close>

theorem deployed_guard_shields:
  assumes "create_request_handler env ld config = (Inr ms, tr)"
    and "\<And>lib. \<exists>name. ld lib = Inr (Inr (Some (make_descriptor name (new lib))))"
    and "load_configured_modules env (module_config_dir config) = Inr (Inr (pre @ cm # post))"
    and "new (library_file cm) = header_guard_new" and "header_guard_create (c_string (cm_config_text cm)) = Inr rules"
    and "list_ex (\<lambda>r. hg_violated r req) rules"
  shows "pipeline_handle (loaded_pipeline ms) req w = pipeline_handle (take (Suc (length pre)) (loaded_pipeline ms)) req w \<and>
         (\<forall>hs w1. passes req (take (length pre) (loaded_pipeline ms)) w hs w1 \<longrightarrow>
           pipeline_handle (loaded_pipeline ms) req w =
             (append_response_headers
                (normalize_response (hg_failure_response (the (find (\<lambda>r. hg_violated r req) rules)))) hs, w1))"
  using guarded_pipeline [OF assms] by blast

theorem deployed_guard_shields_witness:
  "\<exists>ms tr. create_request_handler guarded_machine guard_linker (bare_config 80 1) = (Inr ms, tr) \<and>
     pipeline_handle (loaded_pipeline ms) keyless_request () =
       (append_response_headers (normalize_response (hg_failure_response guard_rule)) [], ())"
proof -
  obtain ms tr where s: "create_request_handler guarded_machine guard_linker (bare_config 80 1) = (Inr ms, tr)"
    using guard_started by blast
  have "find (\<lambda>r. hg_violated r keyless_request) [guard_rule] = Some guard_rule"
    using guard_violated by simp
  with deployed_guard_shields [OF s guard_libraries guard_configured guard_new guard_rules guard_violated] s
  show ?thesis by auto
qed

text \<open>
  C15 (functional). From the client's bytes to the bytes it gets back, on a plain connection: a
  well-formed request that violates a rule of the configured header guard, however TCP
  segments it and the answer, is answered with exactly the serialized response of the first
  violated rule (with the headers of the modules before the guard), then the connection
  closes, one access record is written and no module after the guard has changed the state.
\<close>

theorem guarded_request_on_the_wire:
  assumes "create_request_handler env ld config = (Inr ms, tr)"
    and "\<And>lib. \<exists>name. ld lib = Inr (Inr (Some (make_descriptor name (new lib))))"
    and "load_configured_modules env (module_config_dir config) = Inr (Inr (pre @ cm # post))"
    and "new (library_file cm) = header_guard_new" and "header_guard_create (c_string (cm_config_text cm)) = Inr rules"
    and "list_ex (\<lambda>r. hg_violated r req) rules"
    and "passes req (take (length pre) (loaded_pipeline ms)) w hs w1"
    and "conversation [req] [cs]"
    and "resp = append_response_headers
           (normalize_response (hg_failure_response (the (find (\<lambda>r. hg_violated r req) rules)))) hs"
    and "ps_sockopt s" and "delivers socket_recv_some (ps_recv s) cs" and "takes socket_send_all (ps_send s) [serialize resp Close]"
  shows "\<exists>c. handle_connection plain_stream False (pipeline_handler (loaded_pipeline ms)) ip (Inr (Some s)) w = Some (Inr c) \<and>
           ps_out (cn_stream c) = ps_out s @ serialize resp Close \<and> cn_world c = w1 \<and>
           cn_log c = [access_of ip req resp]"
proof -
  let ?h = "pipeline_handler (loaded_pipeline ms)"
  have "pipeline_handle (loaded_pipeline ms) req w = (resp, w1)"
    unfolding assms(9) by (rule guarded_pipeline(2) [OF assms(1-7)])
  then have a: "answers False ?h [req] w = Some ([resp], w1)"
    by (simp add: pipeline_handler_def add_hsts_def)
  have wire: "wires [req] [resp] = [serialize resp Close]"
    using assms(8) by (simp add: wires_def request_policy_def conversation_def)
  have "delivers socket_recv_some (ps_recv s) (concat [cs])" "takes socket_send_all (ps_send s) (wires [req] [resp])"
    using assms(11,12) wire by simp_all
  from tcp_conversation_run [OF a assms(8,10) this, of ip] show ?thesis unfolding wire by auto
qed

theorem guarded_request_on_the_wire_witness:
  "\<exists>ms tr s c. create_request_handler guarded_machine guard_linker (bare_config 80 1) = (Inr ms, tr) \<and>
     handle_connection plain_stream False (pipeline_handler (loaded_pipeline ms)) ''10.0.0.1'' (Inr (Some s)) () = Some (Inr c) \<and>
     ps_out (cn_stream c) = serialize (append_response_headers (normalize_response (hg_failure_response guard_rule)) []) Close"
proof -
  obtain ms tr where s: "create_request_handler guarded_machine guard_linker (bare_config 80 1) = (Inr ms, tr)"
    using guard_started by blast
  let ?resp = "append_response_headers (normalize_response (hg_failure_response guard_rule)) []"
  let ?cs = "[take 9 (print_request keyless_request), drop 9 (print_request keyless_request)]"
  let ?s = "sample_tcp\<lparr>ps_recv := map Recv_rc ?cs @ [], ps_send := [Send_rc (length (serialize ?resp Close))]\<rparr>"
  have f: "find (\<lambda>r. hg_violated r keyless_request) [guard_rule] = Some guard_rule"
    using guard_violated by simp
  have ev: "wf_request keyless_request" "length (print_request keyless_request) \<le> 100"
      "\<not> keep_alive_requested keyless_request" "list_all (\<lambda>c. c \<noteq> [] \<and> length c \<le> 2048) ?cs"
    by code_simp+
  have cv: "conversation [keyless_request] [?cs]"
    using ev(1-3) by (simp add: conversation_def max_request_header_bytes_def)
  have "\<exists>c. handle_connection plain_stream False (pipeline_handler (loaded_pipeline ms)) ''10.0.0.1'' (Inr (Some ?s)) () = Some (Inr c) \<and>
      ps_out (cn_stream c) = ps_out ?s @ serialize ?resp Close \<and> cn_world c = () \<and>
      cn_log c = [access_of ''10.0.0.1'' keyless_request ?resp]"
    by (rule guarded_request_on_the_wire [OF s guard_libraries guard_configured guard_new guard_rules guard_violated, where cs = ?cs and hs = "[]"])
      (use cv f delivers_chunks [OF ev(4), of "[]"] in \<open>simp_all add: sample_tcp_def send_whole\<close>)
  moreover have "ps_out ?s = []" by (simp add: sample_tcp_def)
  ultimately show ?thesis using s by auto
qed

text \<open>
  C11 (safety). The JWT module protects what is configured behind it: in a server started from a
  directory of configuration files, a request in the module's scope without a bearer token
  signed with the configured secret is answered without consulting any module configured
  after it, whatever the clock shows and whatever the state is; when the modules before it
  pass, the answer is 401 with the headers those modules asked for.
\<close>

theorem deployed_jwt_shields:
  assumes "create_request_handler env ld config = (Inr ms, tr)"
    and "\<And>lib. \<exists>name. ld lib = Inr (Inr (Some (make_descriptor name (new lib))))"
    and "load_configured_modules env (module_config_dir config) = Inr (Inr (pre @ cm # post))"
    and "new (library_file cm) = jwt_auth_new hmac clock" and "jwt_create (c_string (cm_config_text cm)) = Inr m"
    and "jwt_enforced m req" and "\<not> signed_request hmac m req"
  shows "pipeline_handle (loaded_pipeline ms) req w = pipeline_handle (take (Suc (length pre)) (loaded_pipeline ms)) req w \<and>
         (\<forall>hs w1. passes req (take (length pre) (loaded_pipeline ms)) w hs w1 \<longrightarrow>
           pipeline_handle (loaded_pipeline ms) req w = (append_response_headers (unsigned_answer req) hs, w1) \<and>
           status (unsigned_answer req) = 401)"
proof -
  have "exported_module impl req w = (Respond_result (unsigned_answer req), w)"
    if "new (library_file cm) (host_of config cm) (c_string (cm_config_text cm)) = Inr impl" for impl w
    using jwt_module_decides [OF assms(5-7), of clock "host_of config cm" impl w] that assms(4) by simp
  note barrier = deployed_barrier [OF assms(1-3) this]
  have "status (unsigned_answer req) = 401" by (simp add: unsigned_answer_def make_unauthorized_def text_response_def)
  with barrier show ?thesis by blast
qed

text \<open>The same machine with the JWT module in place of the guard.\<close>

definition jwt_text :: string where
  "jwt_text = ''path=/guard.so'' @ [LF] @ ''secret=0123'' @ [LF] @ ''rule=*|/api/*''"

definition jwt_machine :: environment where
  "jwt_machine =
     guarded_machine\<lparr>env_open := (\<lambda>p. if p = ''/modules.d/10-guard.conf'' then Some jwt_text
                        else if p = ''/modules.d/20-site.conf'' then Some ''path=/site.so'' else None)\<rparr>"

definition jwt_or_pass :: "string \<Rightarrow> unit constructor" where
  "jwt_or_pass lib = (if lib = ''/guard.so'' then jwt_auth_new toy_mac (\<lambda>w. 50) else passing lib)"

definition jwt_linker :: "unit linker" where
  "jwt_linker lib = Inr (Inr (Some (make_descriptor lib (jwt_or_pass lib))))"

definition api_jwt :: jwt_module where
  "api_jwt = \<lparr>jw_secret = ''0123'', jw_alg = ''HS256'', jw_issuer = None, jw_audience = None,
     jw_rules = [\<lparr>au_method_pattern = ''*'', au_target_pattern = ''/api/'', au_target_kind = Prefix_pattern\<rparr>]\<rparr>"

theorem deployed_jwt_shields_witness:
  "\<exists>ms tr. create_request_handler jwt_machine jwt_linker (bare_config 80 1) = (Inr ms, tr) \<and>
     pipeline_handle (loaded_pipeline ms) keyless_request () =
       (append_response_headers (unsigned_answer keyless_request) [], ()) \<and> status (unsigned_answer keyless_request) = 401"
proof -
  let ?cm = "guard_module_config\<lparr>cm_config_text := jwt_text\<rparr>"
  have "load_configured_modules jwt_machine ''/modules.d'' = Inr (Inr ([] @ ?cm # [site_module_config]))" by code_simp
  then have conf: "load_configured_modules jwt_machine (module_config_dir (bare_config 80 1)) = Inr (Inr ([] @ ?cm # [site_module_config]))"
    by (simp add: bare_config_def)
  have m: "jwt_create (c_string (cm_config_text ?cm)) = Inr api_jwt" by code_simp
  then have "\<exists>impl. jwt_auth_new toy_mac (\<lambda>w :: unit. 50) host (c_string jwt_text) = Inr impl" for host
    by (simp add: jwt_auth_new_def guard_module_config_def)
  then have "list_all (\<lambda>cm. \<exists>name new impl. jwt_linker (library_file cm) = Inr (Inr (Some (make_descriptor name new))) \<and>
      new (host_of (bare_config 80 1) cm) (c_string (cm_config_text cm)) = Inr impl) ([] @ ?cm # [site_module_config])"
    by (simp add: jwt_linker_def jwt_or_pass_def guard_module_config_def site_module_config_def)
      (use passing_def in blast)
  from load_modules_exported [OF this, of "[]"] conf obtain ms tr where
    s: "create_request_handler jwt_machine jwt_linker (bare_config 80 1) = (Inr ms, tr)"
    by (auto simp: create_request_handler_def)
  have libs: "\<exists>name. jwt_linker lib = Inr (Inr (Some (make_descriptor name (jwt_or_pass lib))))" for lib
    by (auto simp: jwt_linker_def)
  have new: "jwt_or_pass (library_file ?cm) = jwt_auth_new toy_mac (\<lambda>w. 50)"
    by (simp add: jwt_or_pass_def guard_module_config_def)
  have e: "jwt_enforced api_jwt keyless_request" by code_simp
  have "bearer_token keyless_request = None" by code_simp
  then have u: "\<not> signed_request toy_mac api_jwt keyless_request" by (simp add: signed_request_def)
  from deployed_jwt_shields [OF s libs conf new m e u] s show ?thesis by auto
qed

end
